(* ===== verification/Fdir_Prelude.thy ===== *)
theory Fdir_Prelude
  imports Main "HOL-Library.Word" "HOL-Library.Monad_Syntax"
begin

text \<open>
  Shared ground of the development: the machine integers of the C sources, the calculus for
  computations that may stop the program, checked array accesses, and C character buffers.

  A C function that can call \<open>abort()\<close> or that indexes an array is modelled by a function into an
  option type. \<open>None\<close> is the program stopping inside the call: \<open>abort()\<close>, an access outside an
  array or a call through a null function pointer. \<open>returns m Q\<close> says that the computation \<open>m\<close>
  comes back with a result satisfying \<open>Q\<close> (total correctness); \<open>keeps m Q\<close> says that every result
  of \<open>m\<close>, if there is one, satisfies \<open>Q\<close>.
\<close>

named_theorems fdir_wp \<open>rules that push \<open>returns\<close> and \<open>keeps\<close> through a computation\<close>
named_theorems fdir_unat \<open>rewriting word comparisons and counters to natural numbers\<close>

unbundle bit_operations_syntax

type_synonym u8 = "8 word"
type_synonym u16 = "16 word"
type_synonym u32 = "32 word"

type_synonym cbuf = "char list"

abbreviation NUL :: char where "NUL \<equiv> CHR 0x00"

definition returns :: "'a option \<Rightarrow> ('a \<Rightarrow> bool) \<Rightarrow> bool" where
  "returns m Q \<longleftrightarrow> (\<exists>x. m = Some x \<and> Q x)"

definition keeps :: "'a option \<Rightarrow> ('a \<Rightarrow> bool) \<Rightarrow> bool" where
  "keeps m Q \<longleftrightarrow> (\<forall>x. m = Some x \<longrightarrow> Q x)"

text \<open>Reading and writing an array element; an index outside the array stops the program.\<close>

definition arr_get :: "'a list \<Rightarrow> nat \<Rightarrow> 'a option" where
  "arr_get xs i = (if i < length xs then Some (xs ! i) else None)"

definition arr_set :: "'a list \<Rightarrow> nat \<Rightarrow> 'a \<Rightarrow> 'a list option" where
  "arr_set xs i x = (if i < length xs then Some (xs[i := x]) else None)"

text \<open>The C string held by a buffer (or passed as a pointer): the bytes before the first NUL.\<close>

definition cstr :: "char list \<Rightarrow> string" where
  "cstr b = takeWhile (\<lambda>c. c \<noteq> NUL) b"

definition terminated :: "cbuf \<Rightarrow> bool" where
  "terminated b \<longleftrightarrow> NUL \<in> set b"

definition zero_buf :: "nat \<Rightarrow> cbuf" where
  "zero_buf n = replicate n NUL"

text \<open>
  \<open>strncpy (dst, src, n)\<close> writes exactly \<open>n\<close> bytes: the string of \<open>src\<close>, cut after \<open>n\<close> bytes and
  padded with NUL bytes. Writing past the end of \<open>dst\<close> stops the program.
\<close>

definition c_strncpy :: "cbuf \<Rightarrow> string \<Rightarrow> nat \<Rightarrow> cbuf option" where
  "c_strncpy dst src n =
     (if n \<le> length dst then Some (take n (cstr src @ replicate n NUL) @ drop n dst) else None)"

text \<open>Decimal conversion, as \<open>printf\<close>'s \<open>%u\<close> and \<open>%lu\<close> do it.\<close>

fun dec :: "nat \<Rightarrow> string" where
  "dec n = (if n < 10 then [char_of (48 + n)] else dec (n div 10) @ [char_of (48 + n mod 10)])"

declare dec.simps [simp del]
declare Option.bind_cong [fundef_cong]


subsection \<open>Total and partial correctness\<close>

lemma returns_Some [simp]: "returns (Some x) Q \<longleftrightarrow> Q x"
  by (simp add: returns_def)

lemma returns_None [simp]: "\<not> returns None Q"
  by (simp add: returns_def)

lemma keeps_Some [simp]: "keeps (Some x) Q \<longleftrightarrow> Q x"
  by (simp add: keeps_def)

lemma keeps_None [simp]: "keeps None Q"
  by (simp add: keeps_def)

lemma returns_bind [fdir_wp]: "returns (Option.bind m k) Q \<longleftrightarrow> returns m (\<lambda>x. returns (k x) Q)"
  by (cases m) auto

lemma keeps_bind [fdir_wp]: "keeps (Option.bind m k) Q \<longleftrightarrow> keeps m (\<lambda>x. keeps (k x) Q)"
  by (cases m) auto

lemma returns_if [fdir_wp]:
  "returns (if b then m else n) Q \<longleftrightarrow> (b \<longrightarrow> returns m Q) \<and> (\<not> b \<longrightarrow> returns n Q)"
  by simp

lemma keeps_if [fdir_wp]:
  "keeps (if b then m else n) Q \<longleftrightarrow> (b \<longrightarrow> keeps m Q) \<and> (\<not> b \<longrightarrow> keeps n Q)"
  by simp

lemma returns_mono: "returns m P \<Longrightarrow> (\<And>x. P x \<Longrightarrow> Q x) \<Longrightarrow> returns m Q"
  by (auto simp: returns_def)

lemma keeps_mono: "keeps m P \<Longrightarrow> (\<And>x. P x \<Longrightarrow> Q x) \<Longrightarrow> keeps m Q"
  by (auto simp: keeps_def)

lemma returns_bindI:
  "returns m P \<Longrightarrow> (\<And>x. P x \<Longrightarrow> returns (k x) Q) \<Longrightarrow> returns (Option.bind m k) Q"
  by (auto simp: returns_def)

lemma keeps_bindI:
  "keeps m P \<Longrightarrow> (\<And>x. P x \<Longrightarrow> keeps (k x) Q) \<Longrightarrow> keeps (Option.bind m k) Q"
  by (auto simp: keeps_def split: bind_splits)

lemma returnsD: "returns m Q \<Longrightarrow> m = Some x \<Longrightarrow> Q x"
  by (auto simp: returns_def)

lemma returnsE: "returns m Q \<Longrightarrow> (\<And>x. m = Some x \<Longrightarrow> Q x \<Longrightarrow> R) \<Longrightarrow> R"
  by (auto simp: returns_def)

lemma keepsD: "keeps m Q \<Longrightarrow> m = Some x \<Longrightarrow> Q x"
  by (auto simp: keeps_def)

lemma keeps_conj: "keeps m P \<Longrightarrow> keeps m Q \<Longrightarrow> keeps m (\<lambda>x. P x \<and> Q x)"
  by (simp add: keeps_def)

lemma returns_conj: "returns m P \<Longrightarrow> keeps m Q \<Longrightarrow> returns m (\<lambda>x. P x \<and> Q x)"
  by (auto simp: returns_def keeps_def)

lemma returns_keeps: "returns m P \<Longrightarrow> keeps m P"
  by (auto simp: returns_def keeps_def)


subsection \<open>Arrays\<close>

lemma arr_get_in [simp]: "i < length xs \<Longrightarrow> arr_get xs i = Some (xs ! i)"
  by (simp add: arr_get_def)

lemma arr_set_in [simp]: "i < length xs \<Longrightarrow> arr_set xs i x = Some (xs[i := x])"
  by (simp add: arr_set_def)

lemma arr_get_Some: "arr_get xs i = Some x \<longleftrightarrow> i < length xs \<and> x = xs ! i"
  by (auto simp: arr_get_def)

lemma arr_set_Some: "arr_set xs i x = Some ys \<longleftrightarrow> i < length xs \<and> ys = xs[i := x]"
  by (auto simp: arr_set_def)

lemma keeps_arr_get [fdir_wp]: "keeps (arr_get xs i) Q \<longleftrightarrow> (i < length xs \<longrightarrow> Q (xs ! i))"
  by (simp add: arr_get_def)

lemma keeps_arr_set [fdir_wp]: "keeps (arr_set xs i x) Q \<longleftrightarrow> (i < length xs \<longrightarrow> Q (xs[i := x]))"
  by (simp add: arr_set_def)

lemma returns_arr_get [fdir_wp]: "returns (arr_get xs i) Q \<longleftrightarrow> i < length xs \<and> Q (xs ! i)"
  by (simp add: arr_get_def)

lemma returns_arr_set [fdir_wp]: "returns (arr_set xs i x) Q \<longleftrightarrow> i < length xs \<and> Q (xs[i := x])"
  by (simp add: arr_set_def)


lemma nth_list_update_if:
  "xs[i := x] ! j = (if i = j \<and> i < length xs then x else xs ! j)"
  by (cases "i < length xs") (auto simp: nth_list_update list_update_beyond)


subsection \<open>Machine words as natural numbers\<close>

lemmas word_order_unat [fdir_unat] = word_less_nat_alt word_le_nat_alt

lemma unat_inc [fdir_unat]: "x < (y :: 'a::len word) \<Longrightarrow> unat (x + 1) = Suc (unat x)"
proof -
  assume "x < y"
  then have "unat x < unat y" by (simp add: word_less_nat_alt)
  moreover have "unat y < 2 ^ LENGTH('a)" by (rule unsigned_less)
  ultimately have "Suc (unat x) < 2 ^ LENGTH('a)" by linarith
  then show ?thesis by (simp add: unat_word_ariths)
qed

lemma unat_dec [fdir_unat]: "x \<noteq> (0 :: 'a::len word) \<Longrightarrow> unat (x - 1) = unat x - 1"
  by (simp add: unat_minus_one)

lemma unat_u8_bound: "unat (x :: u8) < 256"
  using unsigned_less [of x] by simp

lemma u8_not_less_zero_iff: "unat (x :: u8) = 0 \<longleftrightarrow> x = 0"
  by (simp add: unat_eq_zero)


subsection \<open>Character buffers\<close>

lemma length_zero_buf [simp]: "length (zero_buf n) = n"
  by (simp add: zero_buf_def)

lemma cstr_idem [simp]: "cstr (cstr s) = cstr s"
  by (simp add: cstr_def)

lemma NUL_notin_cstr [simp]: "NUL \<notin> set (cstr s)"
  by (auto simp: cstr_def dest: set_takeWhileD)

lemma cstr_id: "NUL \<notin> set s \<Longrightarrow> cstr s = s"
  by (induction s) (auto simp: cstr_def)

lemma cstr_append_NUL: "NUL \<notin> set s \<Longrightarrow> cstr (s @ NUL # t) = s"
  by (induction s) (auto simp: cstr_def)

lemma cstr_take [simp]: "cstr (take n (cstr s)) = take n (cstr s)"
  by (rule cstr_id) (meson NUL_notin_cstr in_set_takeD)

lemma length_cstr_le: "length (cstr s) \<le> length s"
  by (simp add: cstr_def length_takeWhile_le)

lemma cstr_Nil_iff: "cstr s = [] \<longleftrightarrow> s = [] \<or> hd s = NUL"
  by (cases s) (auto simp: cstr_def)

lemma terminated_length_cstr: "terminated b \<Longrightarrow> length (cstr b) < length b"
  by (induction b) (auto simp: terminated_def cstr_def)



subsection \<open>Invariants of transition systems\<close>

text \<open>
  The interface of a transition system with an inductive invariant: \<open>reach\<close> is given with its induction
  principle, as an inductive definition has it.
\<close>

locale inductive_invariant =
  fixes start :: "'s \<Rightarrow> bool" and nxt :: "'s \<Rightarrow> 's \<Rightarrow> bool" and reach :: "'s \<Rightarrow> bool" and I :: "'s \<Rightarrow> bool"
  assumes reach_induct: "reach s \<Longrightarrow> (\<And>s. start s \<Longrightarrow> Q s) \<Longrightarrow>
      (\<And>s s'. reach s \<Longrightarrow> Q s \<Longrightarrow> nxt s s' \<Longrightarrow> Q s') \<Longrightarrow> Q s"
    and start_inv: "start s \<Longrightarrow> I s"
    and next_inv: "I s \<Longrightarrow> nxt s s' \<Longrightarrow> I s'"
begin

lemma reach_inv: "reach s \<Longrightarrow> I s"
  by (rule reach_induct [of s I]) (auto intro: start_inv next_inv)

lemma reach_inv_star: "nxt\<^sup>*\<^sup>* s s' \<Longrightarrow> I s \<Longrightarrow> I s'"
  by (induction rule: rtranclp_induct) (auto intro: next_inv)

end

end
