(* ===== verification/Bounded_Fifo.thy ===== *)
theory Bounded_Fifo
  imports Fdir_Prelude
begin

text \<open>
  The contract of a bounded first-in first-out queue, as the interface \<open>bounded_fifo\<close>: an operation
  that appends an element and reports failure when the queue is full, and one that removes the
  oldest element into an output variable and reports failure when the queue is empty. \<open>items\<close> is
  the list a queue stands for, oldest element first. Return codes follow the C convention: zero is
  success.
\<close>

lemma ring_index_distinct:
  assumes "k < n" and "n < c"
  shows "(h + n) mod c \<noteq> (h + k) mod (c :: nat)"
proof
  assume "(h + n) mod c = (h + k) mod c"
  then have "c dvd (h + n) - (h + k)"
    using assms by (intro mod_eq_dvd_iff_nat [THEN iffD1]) auto
  then have "c dvd n - k" by simp
  with assms show False by (auto dest: dvd_imp_le)
qed

text \<open>Appending a whole list, and removing \<open>n\<close> elements; both stop the program on a failed call.\<close>

fun put_all :: "('a \<Rightarrow> 'q \<Rightarrow> (int \<times> 'q) option) \<Rightarrow> 'a list \<Rightarrow> 'q \<Rightarrow> 'q option" where
  "put_all put [] q = Some q"
| "put_all put (x # xs) q =
     do { (rc, q) \<leftarrow> put x q; if rc = 0 then put_all put xs q else None }"

fun get_n ::
  "('a \<Rightarrow> 'q \<Rightarrow> (int \<times> 'a \<times> 'q) option) \<Rightarrow> nat \<Rightarrow> 'a \<Rightarrow> 'q \<Rightarrow> ('a list \<times> 'q) option" where
  "get_n get 0 x q = Some ([], q)"
| "get_n get (Suc n) x q =
     do {
       (rc, y, q) \<leftarrow> get x q;
       if rc = 0 then do { (ys, q) \<leftarrow> get_n get n y q; Some (y # ys, q) } else None
     }"

locale bounded_fifo =
  fixes cap :: nat
    and empty :: 'q
    and put :: "'a \<Rightarrow> 'q \<Rightarrow> (int \<times> 'q) option"
    and get :: "'a \<Rightarrow> 'q \<Rightarrow> (int \<times> 'a \<times> 'q) option"
    and items :: "'q \<Rightarrow> 'a list"
    and invar :: "'q \<Rightarrow> bool"
  assumes invar_empty: "invar empty"
    and items_empty: "items empty = []"
    and items_bound: "invar q \<Longrightarrow> length (items q) \<le> cap"
    and put_ok: "invar q \<Longrightarrow> length (items q) < cap \<Longrightarrow>
      returns (put x q) (\<lambda>(rc, q'). rc = 0 \<and> invar q' \<and> items q' = items q @ [x])"
    and put_full: "invar q \<Longrightarrow> length (items q) = cap \<Longrightarrow>
      returns (put x q) (\<lambda>(rc, q'). rc \<noteq> 0 \<and> invar q' \<and> items q' = items q)"
    and get_ok: "invar q \<Longrightarrow> items q \<noteq> [] \<Longrightarrow>
      returns (get x q) (\<lambda>(rc, y, q'). rc = 0 \<and> y = hd (items q) \<and> invar q' \<and> items q' = tl (items q))"
    and get_empty: "invar q \<Longrightarrow> items q = [] \<Longrightarrow>
      returns (get x q) (\<lambda>(rc, y, q'). rc \<noteq> 0 \<and> y = x \<and> q' = q)"
begin

lemma put_invar: "invar q \<Longrightarrow> returns (put x q) (\<lambda>(rc, q'). invar q')"
  using items_bound [of q] put_ok [of q x] put_full [of q x]
  by (cases "length (items q) < cap") (auto elim!: returns_mono)

lemma put_rc_iff:
  "invar q \<Longrightarrow> returns (put x q) (\<lambda>(rc, q'). (rc = 0) = (length (items q) < cap))"
  using items_bound [of q] put_ok [of q x] put_full [of q x]
  by (cases "length (items q) < cap") (auto elim!: returns_mono)

lemma put_all_items:
  "invar q \<Longrightarrow> length (items q) + length xs \<le> cap \<Longrightarrow>
   returns (put_all put xs q) (\<lambda>q'. invar q' \<and> items q' = items q @ xs)"
proof (induction xs arbitrary: q)
  case Nil
  then show ?case by simp
next
  case (Cons x xs)
  then have "returns (put x q) (\<lambda>(rc, q'). rc = 0 \<and> invar q' \<and> items q' = items q @ [x])"
    by (simp add: put_ok)
  then show ?case
    using Cons.prems by (auto simp: fdir_wp elim!: returns_mono intro!: Cons.IH [THEN returns_mono])
qed

lemma get_n_items:
  "invar q \<Longrightarrow> n \<le> length (items q) \<Longrightarrow>
   returns (get_n get n x q) (\<lambda>(ys, q'). ys = take n (items q) \<and> invar q' \<and> items q' = drop n (items q))"
proof (induction n arbitrary: x q)
  case 0
  then show ?case by simp
next
  case (Suc n)
  then obtain z zs where z: "items q = z # zs" by (cases "items q") auto
  have "returns (get x q) (\<lambda>(rc, y, q'). rc = 0 \<and> y = z \<and> invar q' \<and> items q' = zs)"
    using get_ok [of q x] Suc.prems z by simp
  then show ?case
    using Suc.prems z by (auto simp: fdir_wp elim!: returns_mono intro!: Suc.IH [THEN returns_mono])
qed

text \<open>What is put into a queue with room comes out again, in order and after what was there.\<close>

lemma put_get_order:
  assumes "invar q" "length (items q) + length xs \<le> cap"
  shows "returns (do { q \<leftarrow> put_all put xs q; get_n get (length (items q)) x q })
     (\<lambda>(ys, q'). ys = items q @ xs \<and> items q' = [])"
  using put_all_items [OF assms]
  by (auto simp: fdir_wp elim!: returns_mono intro!: get_n_items [THEN returns_mono])

end

end
