(* ===== verification/Fdir_Types.thy ===== *)
theory Fdir_Types
  imports Fdir_Prelude
begin

text \<open>
  The data of \<open>include/types.h\<close>, \<open>include/port.h\<close>, \<open>include/subsystem.h\<close> and
  \<open>include/recovery.h\<close>, with the two files that only compute on it, \<open>src/status.c\<close> and
  \<open>src/config.c\<close>.

  A C enum holds any value of its integer type, and the library compares, stores and forwards
  values that applications hand in. Every enum that crosses the API therefore has, beside the
  enumerators, a constructor \<open>_OTHER n\<close> for the value \<open>n\<close> places after the last enumerator.

  Function pointers are options (\<open>None\<close> is a null pointer). The functions behind them belong to
  the application or the platform: they act on an environment of type \<open>'e\<close> that the model leaves
  open, and not on the library's own variables, which is the contract of \<open>docs/threading.md\<close>
  (callbacks must not re-enter the library). A \<open>void *user\<close> context is an opaque number.
\<close>

subsection \<open>Enumerations and constants\<close>

type_synonym fdir_entity_id = u8
type_synonym fdir_subsystem_id = u8
type_synonym fdir_bool = u8
type_synonym user_ptr = nat

abbreviation (input) FDIR_ENTITY_NONE :: fdir_entity_id where "FDIR_ENTITY_NONE \<equiv> 0xFF"
abbreviation (input) FDIR_SUBSYSTEM_NONE :: fdir_subsystem_id where "FDIR_SUBSYSTEM_NONE \<equiv> 0xFF"
abbreviation (input) FDIR_FAULT_FLAG_CRITICAL :: u8 where "FDIR_FAULT_FLAG_CRITICAL \<equiv> 0x01"
abbreviation (input) FDIR_RESTART_UNLIMITED :: u8 where "FDIR_RESTART_UNLIMITED \<equiv> 255"
abbreviation (input) FDIR_DETAIL_SIZE :: nat where "FDIR_DETAIL_SIZE \<equiv> 32"
abbreviation (input) FDIR_NAME_SIZE :: nat where "FDIR_NAME_SIZE \<equiv> 32"
abbreviation (input) FDIR_ENTITY_CAP :: nat where "FDIR_ENTITY_CAP \<equiv> 16"
abbreviation (input) FDIR_SUBSYSTEM_CAP :: nat where "FDIR_SUBSYSTEM_CAP \<equiv> 8"
abbreviation (input) FDIR_FAILURE_QUEUE_CAP :: nat where "FDIR_FAILURE_QUEUE_CAP \<equiv> 8"

datatype fdir_status =
    FDIR_OK | FDIR_ERR_PARAM | FDIR_ERR_FULL | FDIR_ERR_NOT_FOUND | FDIR_ERR_STATE
  | FDIR_ERR_PORT | FDIR_ERR_BUSY | FDIR_STATUS_OTHER nat

datatype fdir_mode =
    FDIR_MODE_NOMINAL | FDIR_MODE_DEGRADED | FDIR_MODE_SAFE | FDIR_MODE_REBOOT_PENDING
  | FDIR_MODE_OTHER nat

datatype fdir_health = FDIR_HEALTH_OK | FDIR_HEALTH_DEGRADED | FDIR_HEALTH_FAILED | FDIR_HEALTH_OTHER nat

datatype fdir_reason =
    FDIR_REASON_INIT_FAILED | FDIR_REASON_IO_ERROR | FDIR_REASON_TIMEOUT
  | FDIR_REASON_PROTOCOL_ERROR | FDIR_REASON_WATCHDOG | FDIR_REASON_QUEUE_OVERFLOW
  | FDIR_REASON_USER | FDIR_REASON_OTHER nat

datatype fdir_action =
    FDIR_ACTION_NONE | FDIR_ACTION_RESTART | FDIR_ACTION_DEGRADE | FDIR_ACTION_UNAVAILABLE
  | FDIR_ACTION_SAFE | FDIR_ACTION_REBOOT | FDIR_ACTION_OTHER nat

datatype fdir_level = FDIR_LEVEL_ENTITY | FDIR_LEVEL_SUBSYSTEM | FDIR_LEVEL_SYSTEM

datatype fdir_severity =
    FDIR_SEVERITY_INFO | FDIR_SEVERITY_WARNING | FDIR_SEVERITY_ERROR | FDIR_SEVERITY_CRITICAL

datatype fdir_anomaly_phase = FDIR_ANOMALY_RAISED | FDIR_ANOMALY_CLEARED

datatype fdir_event_kind =
    FDIR_EVENT_FAILURE | FDIR_EVENT_MODE_CHANGE | FDIR_EVENT_RESTART | FDIR_EVENT_WATCHDOG
  | FDIR_EVENT_NOTE | FDIR_EVENT_QUEUE_OVERFLOW

fun mode_code :: "fdir_mode \<Rightarrow> nat" where
  "mode_code FDIR_MODE_NOMINAL = 0"
| "mode_code FDIR_MODE_DEGRADED = 1"
| "mode_code FDIR_MODE_SAFE = 2"
| "mode_code FDIR_MODE_REBOOT_PENDING = 3"
| "mode_code (FDIR_MODE_OTHER n) = 4 + n"

fun reason_code :: "fdir_reason \<Rightarrow> nat" where
  "reason_code FDIR_REASON_INIT_FAILED = 0"
| "reason_code FDIR_REASON_IO_ERROR = 1"
| "reason_code FDIR_REASON_TIMEOUT = 2"
| "reason_code FDIR_REASON_PROTOCOL_ERROR = 3"
| "reason_code FDIR_REASON_WATCHDOG = 4"
| "reason_code FDIR_REASON_QUEUE_OVERFLOW = 5"
| "reason_code FDIR_REASON_USER = 6"
| "reason_code (FDIR_REASON_OTHER n) = 7 + n"

text \<open>\<open>(fdir_reason_t)0xFFU\<close>, the value that stands for "no reason was latched".\<close>

definition reason_0xFF :: fdir_reason where
  "reason_0xFF = FDIR_REASON_OTHER 248"

definition FDIR_ANOMALY_ID :: "fdir_entity_id \<Rightarrow> fdir_reason \<Rightarrow> u16" where
  "FDIR_ANOMALY_ID entity reason = push_bit 8 (ucast entity) OR of_nat (reason_code reason)"

definition FDIR_SUBSYSTEM_ANOMALY_ID :: "fdir_subsystem_id \<Rightarrow> fdir_reason \<Rightarrow> u16" where
  "FDIR_SUBSYSTEM_ANOMALY_ID sub reason =
     0x8000 OR push_bit 8 (ucast sub) OR of_nat (reason_code reason)"


subsection \<open>Structures\<close>

record fdir_failure_report =
  rep_entity :: fdir_entity_id
  rep_reason :: fdir_reason
  rep_error_code :: u16
  rep_detail :: cbuf
  rep_timestamp_ms :: u32
  rep_flags :: u8

record fdir_health_snapshot =
  hs_health :: fdir_health
  hs_last_heartbeat_ms :: u32
  hs_error_code :: u16
  hs_detail :: cbuf

type_synonym 'e system_handler =
  "fdir_mode \<Rightarrow> fdir_level \<Rightarrow> fdir_failure_report option \<Rightarrow> user_ptr \<Rightarrow> 'e \<Rightarrow> 'e"

record 'e fdir_config =
  health_check_period_ms :: u32
  missed_heartbeat_tolerance :: u8
  safe_mode_critical_failure_threshold :: u8
  on_system_escalation :: "'e system_handler option"
  system_user :: user_ptr

record fdir_event =
  ev_kind :: fdir_event_kind
  ev_mode :: fdir_mode
  ev_entity :: fdir_entity_id
  ev_subsystem :: fdir_subsystem_id
  ev_reason :: fdir_reason
  ev_error_code :: u16
  ev_timestamp_ms :: u32
  ev_detail :: cbuf
  ev_level :: fdir_level
  ev_severity :: fdir_severity
  ev_phase :: fdir_anomaly_phase
  ev_anomaly_id :: u16

record 'e fdir_port =
  get_now_ms :: "('e \<Rightarrow> u32 \<times> 'e) option"
  emit_event :: "(fdir_event \<Rightarrow> 'e \<Rightarrow> 'e) option"
  request_reboot :: "(string \<Rightarrow> 'e \<Rightarrow> 'e) option"
  lock :: "('e \<Rightarrow> 'e) option"
  unlock :: "('e \<Rightarrow> 'e) option"

type_synonym 'e restart_fn = "fdir_entity_id \<Rightarrow> user_ptr \<Rightarrow> 'e \<Rightarrow> int \<times> 'e"
type_synonym 'e decide_fn =
  "fdir_entity_id \<Rightarrow> fdir_failure_report \<Rightarrow> u8 \<Rightarrow> u8 \<Rightarrow> user_ptr \<Rightarrow> 'e \<Rightarrow> fdir_action \<times> 'e"
type_synonym 'e exhausted_fn =
  "fdir_subsystem_id \<Rightarrow> fdir_entity_id \<Rightarrow> fdir_failure_report \<Rightarrow> user_ptr \<Rightarrow> 'e \<Rightarrow> fdir_action \<times> 'e"

record 'e fdir_subsystem_desc =
  sd_name :: "string option"
  sd_is_critical_path :: fdir_bool
  sd_on_entity_exhausted :: "'e exhausted_fn option"
  sd_user :: user_ptr

record 'e fdir_entity_desc =
  ed_name :: "string option"
  ed_max_restarts :: u8
  ed_max_watchdog_restarts :: u8
  ed_on_exhausted :: fdir_action
  ed_linked_subsystem :: fdir_subsystem_id
  ed_restart :: "'e restart_fn option"
  ed_decide :: "'e decide_fn option"
  ed_user :: user_ptr


subsection \<open>src/status.c and src/config.c\<close>

fun fdir_status_string :: "fdir_status \<Rightarrow> string" where
  "fdir_status_string FDIR_OK = ''ok''"
| "fdir_status_string FDIR_ERR_PARAM = ''invalid parameter''"
| "fdir_status_string FDIR_ERR_FULL = ''capacity full''"
| "fdir_status_string FDIR_ERR_NOT_FOUND = ''not found''"
| "fdir_status_string FDIR_ERR_STATE = ''invalid state''"
| "fdir_status_string FDIR_ERR_PORT = ''port NULL or missing required callback''"
| "fdir_status_string FDIR_ERR_BUSY = ''failure queue full (critical fault)''"
| "fdir_status_string (FDIR_STATUS_OTHER _) = ''unknown error''"

definition fdir_config_default :: "'e fdir_config" where
  "fdir_config_default =
     \<lparr>health_check_period_ms = 500,
      missed_heartbeat_tolerance = 3,
      safe_mode_critical_failure_threshold = 2,
      on_system_escalation = None,
      system_user = 0\<rparr>"


subsection \<open>Zeroed storage\<close>

text \<open>The values \<open>memset (p, 0, n)\<close> and static initialisation leave in each structure.\<close>

definition zero_report :: fdir_failure_report where
  "zero_report =
     \<lparr>rep_entity = 0, rep_reason = FDIR_REASON_INIT_FAILED, rep_error_code = 0,
      rep_detail = zero_buf FDIR_DETAIL_SIZE, rep_timestamp_ms = 0, rep_flags = 0\<rparr>"

definition zero_snapshot :: fdir_health_snapshot where
  "zero_snapshot =
     \<lparr>hs_health = FDIR_HEALTH_OK, hs_last_heartbeat_ms = 0, hs_error_code = 0,
      hs_detail = zero_buf FDIR_DETAIL_SIZE\<rparr>"

definition zero_event :: fdir_event where
  "zero_event =
     \<lparr>ev_kind = FDIR_EVENT_FAILURE, ev_mode = FDIR_MODE_NOMINAL, ev_entity = 0, ev_subsystem = 0,
      ev_reason = FDIR_REASON_INIT_FAILED, ev_error_code = 0, ev_timestamp_ms = 0,
      ev_detail = zero_buf FDIR_DETAIL_SIZE, ev_level = FDIR_LEVEL_ENTITY,
      ev_severity = FDIR_SEVERITY_INFO, ev_phase = FDIR_ANOMALY_RAISED, ev_anomaly_id = 0\<rparr>"

definition zero_config :: "'e fdir_config" where
  "zero_config =
     \<lparr>health_check_period_ms = 0, missed_heartbeat_tolerance = 0,
      safe_mode_critical_failure_threshold = 0, on_system_escalation = None, system_user = 0\<rparr>"

definition zero_port :: "'e fdir_port" where
  "zero_port =
     \<lparr>get_now_ms = None, emit_event = None, request_reboot = None, lock = None, unlock = None\<rparr>"

definition zero_subsystem_desc :: "'e fdir_subsystem_desc" where
  "zero_subsystem_desc =
     \<lparr>sd_name = None, sd_is_critical_path = 0, sd_on_entity_exhausted = None, sd_user = 0\<rparr>"

definition zero_entity_desc :: "'e fdir_entity_desc" where
  "zero_entity_desc =
     \<lparr>ed_name = None, ed_max_restarts = 0, ed_max_watchdog_restarts = 0,
      ed_on_exhausted = FDIR_ACTION_NONE, ed_linked_subsystem = 0, ed_restart = None,
      ed_decide = None, ed_user = 0\<rparr>"


subsection \<open>The modes are ordered by their C values\<close>

lemma mode_code_inject: "mode_code m = mode_code n \<Longrightarrow> m = n"
  by (cases m; cases n) auto

lemma reason_code_inject: "reason_code m = reason_code n \<Longrightarrow> m = n"
  by (cases m; cases n) auto

instantiation fdir_mode :: linorder
begin

definition less_eq_fdir_mode :: "fdir_mode \<Rightarrow> fdir_mode \<Rightarrow> bool" where
  "less_eq_fdir_mode m n = (mode_code m \<le> mode_code n)"

definition less_fdir_mode :: "fdir_mode \<Rightarrow> fdir_mode \<Rightarrow> bool" where
  "less_fdir_mode m n = (mode_code m < mode_code n)"

instance
  by standard (auto simp: less_eq_fdir_mode_def less_fdir_mode_def intro: mode_code_inject)

end

lemmas fdir_mode_order = less_eq_fdir_mode_def less_fdir_mode_def

definition mode_ok :: "fdir_mode \<Rightarrow> bool" where
  "mode_ok m \<longleftrightarrow> m \<le> FDIR_MODE_REBOOT_PENDING"

lemma mode_ok_cases:
  "mode_ok m \<longleftrightarrow>
     m = FDIR_MODE_NOMINAL \<or> m = FDIR_MODE_DEGRADED \<or> m = FDIR_MODE_SAFE \<or> m = FDIR_MODE_REBOOT_PENDING"
  by (cases m) (auto simp: mode_ok_def fdir_mode_order)

subsection \<open>Anomaly keys\<close>

text \<open>A reason that fits the low byte of a key; every enumerator does.\<close>

definition byte_reason :: "fdir_reason \<Rightarrow> bool" where
  "byte_reason reason \<longleftrightarrow> reason_code reason < 256"

lemma of_nat_byte: "byte_reason reason \<Longrightarrow> (of_nat (reason_code reason) :: u16) = ucast (of_nat (reason_code reason) :: u8)"
  by (simp add: byte_reason_def word_unat_eq_iff unsigned_ucast_eq unat_of_nat take_bit_eq_mod)

lemma key_bytes:
  fixes hi :: u8 and lo :: u8
  shows "ucast (push_bit 8 (ucast hi) OR ucast lo :: u16) = lo"
    and "drop_bit 8 (push_bit 8 (ucast hi) OR ucast lo :: u16) = ucast hi"
  by (rule bit_word_eqI; auto simp: bit_simps dest: bit_imp_le_length)+

lemma key_inject:
  fixes hi hi' :: u8 and lo lo' :: u8
  assumes "(push_bit 8 (ucast hi) OR ucast lo :: u16) = push_bit 8 (ucast hi') OR ucast lo'"
  shows "hi = hi'" "lo = lo'"
proof -
  show "lo = lo'" using key_bytes(1) assms by metis
  have "(ucast hi :: u16) = ucast hi'" using key_bytes(2) assms by metis
  moreover have "ucast (ucast x :: u16) = x" for x :: u8
    by (rule bit_word_eqI) (simp add: bit_simps)
  ultimately show "hi = hi'" by metis
qed

lemma entity_key_eq: "byte_reason r \<Longrightarrow> FDIR_ANOMALY_ID e r = push_bit 8 (ucast e) OR ucast (of_nat (reason_code r) :: u8)"
  by (simp add: FDIR_ANOMALY_ID_def of_nat_byte)

lemma bit_top: "bit (0x80 :: u8) n \<longleftrightarrow> n = 7" "bit (0x8000 :: u16) n \<longleftrightarrow> n = 15"
  using bit_exp_iff [of 7 n, where 'a = u8] bit_exp_iff [of 15 n, where 'a = u16] by auto

lemma sub_key_eq: "FDIR_SUBSYSTEM_ANOMALY_ID sub r = FDIR_ANOMALY_ID (0x80 OR sub) r"
proof -
  have "(0x8000 OR push_bit 8 (ucast sub) :: u16) = push_bit 8 (ucast (0x80 OR sub))"
    by (rule bit_word_eqI) (auto simp: bit_simps bit_top simp del: bit_numeral_word_iff)
  then show ?thesis
    by (simp only: FDIR_SUBSYSTEM_ANOMALY_ID_def FDIR_ANOMALY_ID_def or.assoc [symmetric])
qed

lemma byte_reason_inject:
  "byte_reason r \<Longrightarrow> byte_reason r' \<Longrightarrow> (of_nat (reason_code r) :: u8) = of_nat (reason_code r') \<Longrightarrow> r = r'"
  by (rule reason_code_inject) (simp add: byte_reason_def word_unat_eq_iff unat_of_nat)

lemma high_bit: "bit (x :: u8) 7 \<longleftrightarrow> 128 \<le> x"
proof -
  have "bit x 7 \<longleftrightarrow> bit (unat x) 7" by (simp add: bit_unsigned_iff)
  also have "\<dots> \<longleftrightarrow> 128 \<le> unat x"
    using unat_u8_bound [of x] by (cases "128 \<le> unat x") (simp_all add: bit_iff_odd le_div_geq)
  finally show ?thesis by (simp add: word_le_nat_alt)
qed

lemma low_bits_inject:
  assumes "x < 128" "y < 128" "0x80 OR x = (0x80 OR y :: u8)"
  shows "x = y"
proof (rule bit_word_eqI)
  fix n assume "n < LENGTH(8)"
  have "bit (0x80 OR x) n = bit (0x80 OR y) n" using assms(3) by simp
  moreover have "\<not> bit x 7" "\<not> bit y 7" using assms(1,2) by (simp_all add: high_bit not_le)
  ultimately show "bit x n = bit y n"
    by (cases "n = 7") (auto simp: bit_simps bit_top simp del: bit_numeral_word_iff)
qed

text \<open>
  Anomaly keys identify anomalies: entity keys of different entities or reasons differ, so do
  subsystem keys, and with identifiers below 128 (the documented limit) bit 15 tells the two kinds
  apart, so that no entity key equals a subsystem key.
\<close>

theorem anomaly_keys_distinct:
  assumes "byte_reason r" "byte_reason r'"
  shows "(FDIR_ANOMALY_ID e r = FDIR_ANOMALY_ID e' r' \<longleftrightarrow> e = e' \<and> r = r') \<and>
     (bit (FDIR_ANOMALY_ID e r) 15 \<longleftrightarrow> 128 \<le> e) \<and>
     bit (FDIR_SUBSYSTEM_ANOMALY_ID sub r) 15 \<and>
     (e < 128 \<longrightarrow> FDIR_ANOMALY_ID e r \<noteq> FDIR_SUBSYSTEM_ANOMALY_ID sub r') \<and>
     (sub < 128 \<and> sub' < 128 \<longrightarrow>
        (FDIR_SUBSYSTEM_ANOMALY_ID sub r = FDIR_SUBSYSTEM_ANOMALY_ID sub' r' \<longleftrightarrow> sub = sub' \<and> r = r'))"
proof -
  have inj: "FDIR_ANOMALY_ID x r = FDIR_ANOMALY_ID y r' \<longleftrightarrow> x = y \<and> r = r'" for x y
    using assms by (auto simp: entity_key_eq dest: key_inject byte_reason_inject)
  have top: "bit (FDIR_ANOMALY_ID x q) 15 \<longleftrightarrow> 128 \<le> x" if "byte_reason q" for x q
    using that by (auto simp: entity_key_eq bit_simps high_bit dest: bit_imp_le_length)
  have "bit (0x80 OR x :: u8) 7" for x by (simp add: bit_simps bit_top del: bit_numeral_word_iff)
  then have big: "128 \<le> (0x80 OR x :: u8)" for x by (simp add: high_bit [symmetric])
  show ?thesis
    using inj top [OF assms(1)] top [OF assms(2)] big low_bits_inject
    by (auto simp: sub_key_eq) (metis big not_le)+
qed

theorem anomaly_keys_distinct_witness:
  "byte_reason FDIR_REASON_WATCHDOG \<and> byte_reason FDIR_REASON_IO_ERROR \<and>
   FDIR_ANOMALY_ID 3 FDIR_REASON_WATCHDOG \<noteq> FDIR_ANOMALY_ID 3 FDIR_REASON_IO_ERROR \<and>
   FDIR_ANOMALY_ID 3 FDIR_REASON_WATCHDOG \<noteq> FDIR_SUBSYSTEM_ANOMALY_ID 3 FDIR_REASON_IO_ERROR"
proof -
  have "byte_reason FDIR_REASON_WATCHDOG" "byte_reason FDIR_REASON_IO_ERROR"
    by (simp_all add: byte_reason_def)
  from this anomaly_keys_distinct [OF this, of 3 3 3 3] show ?thesis by simp
qed

text \<open>
  Outside that limit the two kinds of keys coincide: the key of an entity identifier with the top
  bit set is the key of the subsystem with that bit cleared. \<open>fdir_handle_failure\<close> emits entity events
  for such identifiers, which need not be registered.
\<close>

theorem entity_key_collision:
  assumes "128 \<le> e"
  shows "FDIR_ANOMALY_ID e r = FDIR_SUBSYSTEM_ANOMALY_ID (e AND 0x7F) r"
proof -
  have lo: "bit (0x7F :: u8) n \<longleftrightarrow> n < 7" for n
    using bit_mask_iff [of 7 n, where 'a = u8] by (auto simp: mask_eq_exp_minus_1)
  have "0x80 OR (e AND 0x7F) = e"
  proof (rule bit_word_eqI)
    fix n assume "n < LENGTH(8)"
    then show "bit (0x80 OR (e AND 0x7F)) n = bit e n"
      using assms high_bit [of e] by (cases "n = 7") (auto simp: bit_simps bit_top lo simp del: bit_numeral_word_iff)
  qed
  then show ?thesis by (simp add: sub_key_eq)
qed

theorem entity_key_collision_witness:
  "(128 :: fdir_entity_id) \<le> 131 \<and>
   FDIR_ANOMALY_ID 131 FDIR_REASON_TIMEOUT = FDIR_SUBSYSTEM_ANOMALY_ID 3 FDIR_REASON_TIMEOUT"
  using entity_key_collision [of 131 FDIR_REASON_TIMEOUT] by simp

end
