(* ===== verification/Fdir_State.thy ===== *)
theory Fdir_State
  imports Fdir_Types
begin

text \<open>
  The state of the library: the file-scope static variables of the C files, one record per file
  that keeps a data structure of its own (\<open>src/failure_queue.c\<close>, \<open>src/health.c\<close>,
  \<open>src/subsystem.c\<close>) and the single variables of \<open>src/port.c\<close>, \<open>src/internal.c\<close> and
  \<open>src/recovery.c\<close> beside them.

  Two fields stand for the world outside: \<open>env\<close> is the state of the application and the platform,
  which only the callbacks read and change, and \<open>calls\<close> is a history of the calls the library has
  made through function pointers, oldest first. No definition that models code reads the history;
  it is what the properties of events, locks and restarts talk about.
\<close>

datatype ext_call =
    Call_lock
  | Call_unlock
  | Call_now u32
  | Call_emit fdir_event
  | Call_reboot string
  | Call_restart fdir_entity_id user_ptr int
  | Call_decide fdir_entity_id fdir_failure_report u8 u8 user_ptr fdir_action
  | Call_exhausted fdir_subsystem_id fdir_entity_id fdir_failure_report user_ptr fdir_action
  | Call_escalation fdir_mode fdir_level "fdir_failure_report option" user_ptr

record failure_queue =
  g_slots :: "fdir_failure_report list"
  g_head :: u8
  g_tail :: u8
  g_count :: u8
  g_full_latched :: fdir_bool

record health_table =
  g_health :: "fdir_health_snapshot list"
  g_latched_reason :: "fdir_reason list"
  g_fault_latched :: "fdir_bool list"
  g_entity_limit :: u8

record 'e fdir_subsystem_slot =
  ss_desc :: "'e fdir_subsystem_desc"
  ss_name :: cbuf
  ss_available :: u8
  ss_degraded :: u8
  ss_used :: u8

record 'e subsystem_table =
  g_subs :: "'e fdir_subsystem_slot list"
  g_sub_count :: u8

record 'e fdir_entity_slot =
  es_desc :: "'e fdir_entity_desc"
  es_name :: cbuf
  es_used :: u8
  es_restart_count :: u8
  es_watchdog_restart_count :: u8

record 'e fdir =
  g_port :: "'e fdir_port"
  g_port_ready :: bool
  g_config :: "'e fdir_config"
  fq :: failure_queue
  hl :: health_table
  sb :: "'e subsystem_table"
  g_entities :: "'e fdir_entity_slot list"
  g_entity_count :: u8
  g_mode :: fdir_mode
  g_supervision_enabled :: fdir_bool
  env :: 'e
  calls :: "ext_call list"

definition zero_subsystem_slot :: "'e fdir_subsystem_slot" where
  "zero_subsystem_slot =
     \<lparr>ss_desc = zero_subsystem_desc, ss_name = zero_buf FDIR_NAME_SIZE, ss_available = 0,
      ss_degraded = 0, ss_used = 0\<rparr>"

definition zero_entity_slot :: "'e fdir_entity_slot" where
  "zero_entity_slot =
     \<lparr>es_desc = zero_entity_desc, es_name = zero_buf FDIR_NAME_SIZE, es_used = 0,
      es_restart_count = 0, es_watchdog_restart_count = 0\<rparr>"

definition zero_queue :: failure_queue where
  "zero_queue =
     \<lparr>g_slots = replicate FDIR_FAILURE_QUEUE_CAP zero_report, g_head = 0, g_tail = 0, g_count = 0,
      g_full_latched = 0\<rparr>"

definition zero_health :: health_table where
  "zero_health =
     \<lparr>g_health = replicate FDIR_ENTITY_CAP zero_snapshot,
      g_latched_reason = replicate FDIR_ENTITY_CAP FDIR_REASON_INIT_FAILED,
      g_fault_latched = replicate FDIR_ENTITY_CAP 0,
      g_entity_limit = 0\<rparr>"

definition zero_subsystems :: "'e subsystem_table" where
  "zero_subsystems =
     \<lparr>g_subs = replicate FDIR_SUBSYSTEM_CAP zero_subsystem_slot, g_sub_count = 0\<rparr>"

text \<open>The state in which the program starts: static storage is zero, the port is not bound.\<close>

definition fdir_boot :: "'e \<Rightarrow> 'e fdir" where
  "fdir_boot e =
     \<lparr>g_port = zero_port, g_port_ready = False, g_config = zero_config,
      fq = zero_queue, hl = zero_health, sb = zero_subsystems,
      g_entities = replicate FDIR_ENTITY_CAP zero_entity_slot, g_entity_count = 0,
      g_mode = FDIR_MODE_NOMINAL, g_supervision_enabled = 0, env = e, calls = []\<rparr>"

text \<open>A call through a function pointer: the callback changes the environment, the call is recorded.\<close>

definition ext :: "ext_call \<Rightarrow> 'e \<Rightarrow> 'e fdir \<Rightarrow> 'e fdir" where
  "ext c e s = s\<lparr>env := e, calls := calls s @ [c]\<rparr>"

lemma ext_simps [simp]:
  "g_port (ext c e s) = g_port s"
  "g_port_ready (ext c e s) = g_port_ready s"
  "g_config (ext c e s) = g_config s"
  "fq (ext c e s) = fq s"
  "hl (ext c e s) = hl s"
  "sb (ext c e s) = sb s"
  "g_entities (ext c e s) = g_entities s"
  "g_entity_count (ext c e s) = g_entity_count s"
  "g_mode (ext c e s) = g_mode s"
  "g_supervision_enabled (ext c e s) = g_supervision_enabled s"
  "env (ext c e s) = e"
  "calls (ext c e s) = calls s @ [c]"
  by (simp_all add: ext_def)

end
