(* ===== verification/Port.thy ===== *)
theory Port
  imports Fdir_State
begin

text \<open>
  \<open>src/port.c\<close> (the platform hooks and the optional lock) and \<open>src/internal.c\<close> (configuration and
  the bounded string copy). A hook called before a successful \<open>fdir_init\<close> is the \<open>abort()\<close> of the
  source, the value \<open>None\<close>.
\<close>

subsection \<open>src/port.c\<close>

definition port_is_valid :: "'e fdir_port option \<Rightarrow> bool" where
  "port_is_valid port =
     (case port of
        None \<Rightarrow> False
      | Some p \<Rightarrow> get_now_ms p \<noteq> None \<and> emit_event p \<noteq> None \<and> request_reboot p \<noteq> None)"

definition fdir_port_bind :: "'e fdir_port option \<Rightarrow> 'e fdir \<Rightarrow> fdir_status \<times> 'e fdir" where
  "fdir_port_bind port s =
     (if \<not> port_is_valid port then (FDIR_ERR_PORT, s\<lparr>g_port_ready := False\<rparr>)
      else (FDIR_OK, s\<lparr>g_port := the port, g_port_ready := True\<rparr>))"

definition fdir_port_sync_enter :: "'e fdir \<Rightarrow> 'e fdir" where
  "fdir_port_sync_enter s =
     (if g_port_ready s then
        (case lock (g_port s) of
           None \<Rightarrow> s
         | Some f \<Rightarrow> ext Call_lock (f (env s)) s)
      else s)"

definition fdir_port_sync_exit :: "'e fdir \<Rightarrow> 'e fdir" where
  "fdir_port_sync_exit s =
     (if g_port_ready s then
        (case unlock (g_port s) of
           None \<Rightarrow> s
         | Some f \<Rightarrow> ext Call_unlock (f (env s)) s)
      else s)"

definition fdir_get_now_ms :: "'e fdir \<Rightarrow> (u32 \<times> 'e fdir) option" where
  "fdir_get_now_ms s =
     (if \<not> g_port_ready s then None
      else case get_now_ms (g_port s) of
             None \<Rightarrow> None
           | Some f \<Rightarrow> (case f (env s) of (t, e) \<Rightarrow> Some (t, ext (Call_now t) e s)))"

definition fdir_emit_event :: "fdir_event \<Rightarrow> 'e fdir \<Rightarrow> 'e fdir option" where
  "fdir_emit_event event s =
     (if \<not> g_port_ready s then None
      else case emit_event (g_port s) of
             None \<Rightarrow> None
           | Some f \<Rightarrow> Some (ext (Call_emit event) (f event (env s)) s))"

definition fdir_request_reboot :: "string \<Rightarrow> 'e fdir \<Rightarrow> 'e fdir option" where
  "fdir_request_reboot reason s =
     (if \<not> g_port_ready s then None
      else case request_reboot (g_port s) of
             None \<Rightarrow> None
           | Some f \<Rightarrow> Some (ext (Call_reboot reason) (f reason (env s)) s))"


subsection \<open>src/internal.c\<close>

definition fdir_internal_set_config :: "'e fdir_config option \<Rightarrow> 'e fdir \<Rightarrow> 'e fdir" where
  "fdir_internal_set_config config s =
     (case config of
        None \<Rightarrow> s\<lparr>g_config := fdir_config_default\<rparr>
      | Some c \<Rightarrow> s\<lparr>g_config := c\<rparr>)"

definition fdir_internal_get_config :: "'e fdir \<Rightarrow> 'e fdir_config" where
  "fdir_internal_get_config s = g_config s"

definition fdir_internal_copy_detail ::
  "cbuf option \<Rightarrow> nat \<Rightarrow> string option \<Rightarrow> cbuf option option" where
  "fdir_internal_copy_detail dst dst_len src =
     (case dst of
        None \<Rightarrow> Some None
      | Some d \<Rightarrow>
          if dst_len = 0 then Some (Some d)
          else do {
            d \<leftarrow> arr_set d 0 NUL;
            case src of
              None \<Rightarrow> Some (Some d)
            | Some str \<Rightarrow> do {
                d \<leftarrow> c_strncpy d str (dst_len - 1);
                d \<leftarrow> arr_set d (dst_len - 1) NUL;
                Some (Some d)
              }
          })"

text \<open>The call sites of the library: \<open>fdir_internal_copy_detail (x, sizeof (x), src)\<close>.\<close>

definition copy_detail :: "cbuf \<Rightarrow> string option \<Rightarrow> cbuf option" where
  "copy_detail d src =
     do { r \<leftarrow> fdir_internal_copy_detail (Some d) (length d) src; r }"

definition fdir_internal_emit_event :: "fdir_event option \<Rightarrow> 'e fdir \<Rightarrow> 'e fdir option" where
  "fdir_internal_emit_event event s =
     (case event of None \<Rightarrow> Some s | Some e \<Rightarrow> fdir_emit_event e s)"


subsection \<open>Port invariant, frames, and what each hook call does\<close>

text \<open>A ready port is one that \<open>fdir_port_bind\<close> accepted.\<close>

definition port_inv :: "'e fdir \<Rightarrow> bool" where
  "port_inv s \<longleftrightarrow> (g_port_ready s \<longrightarrow> port_is_valid (Some (g_port s)))"

definition lock_paired :: "'e fdir \<Rightarrow> bool" where
  "lock_paired s \<longleftrightarrow> (lock (g_port s) = None \<longleftrightarrow> unlock (g_port s) = None)"

text \<open>\<open>outside s s'\<close>: the library's variables are the same in both states.\<close>

definition outside :: "'e fdir \<Rightarrow> 'e fdir \<Rightarrow> bool" where
  "outside s s' \<longleftrightarrow> s' = s\<lparr>env := env s', calls := calls s'\<rparr>"

lemma outside_iff:
  "outside s s' \<longleftrightarrow>
     g_port s' = g_port s \<and> g_port_ready s' = g_port_ready s \<and> g_config s' = g_config s \<and>
     fq s' = fq s \<and> hl s' = hl s \<and> sb s' = sb s \<and> g_entities s' = g_entities s \<and>
     g_entity_count s' = g_entity_count s \<and> g_mode s' = g_mode s \<and>
     g_supervision_enabled s' = g_supervision_enabled s"
  by (cases s; cases s') (auto simp: outside_def)

lemma outside_refl [simp, intro]: "outside s s"
  by (simp add: outside_iff)

lemma outside_trans [trans]: "outside s t \<Longrightarrow> outside t u \<Longrightarrow> outside s u"
  by (simp add: outside_iff)

lemma outside_ext [simp, intro]: "outside s (ext c e s)"
  by (simp add: outside_iff)

lemma outside_enter [simp, intro]: "outside s (fdir_port_sync_enter s)"
  by (simp add: fdir_port_sync_enter_def split: option.split)

lemma outside_exit [simp, intro]: "outside s (fdir_port_sync_exit s)"
  by (simp add: fdir_port_sync_exit_def split: option.split)

lemma sync_enter_simps [simp]:
  "g_port (fdir_port_sync_enter s) = g_port s"
  "g_port_ready (fdir_port_sync_enter s) = g_port_ready s"
  "g_config (fdir_port_sync_enter s) = g_config s"
  "fq (fdir_port_sync_enter s) = fq s"
  "hl (fdir_port_sync_enter s) = hl s"
  "sb (fdir_port_sync_enter s) = sb s"
  "g_entities (fdir_port_sync_enter s) = g_entities s"
  "g_entity_count (fdir_port_sync_enter s) = g_entity_count s"
  "g_mode (fdir_port_sync_enter s) = g_mode s"
  "g_supervision_enabled (fdir_port_sync_enter s) = g_supervision_enabled s"
  using outside_enter [of s] by (simp_all add: outside_iff)

lemma sync_exit_simps [simp]:
  "g_port (fdir_port_sync_exit s) = g_port s"
  "g_port_ready (fdir_port_sync_exit s) = g_port_ready s"
  "g_config (fdir_port_sync_exit s) = g_config s"
  "fq (fdir_port_sync_exit s) = fq s"
  "hl (fdir_port_sync_exit s) = hl s"
  "sb (fdir_port_sync_exit s) = sb s"
  "g_entities (fdir_port_sync_exit s) = g_entities s"
  "g_entity_count (fdir_port_sync_exit s) = g_entity_count s"
  "g_mode (fdir_port_sync_exit s) = g_mode s"
  "g_supervision_enabled (fdir_port_sync_exit s) = g_supervision_enabled s"
  using outside_exit [of s] by (simp_all add: outside_iff)

lemma calls_sync_enter:
  "calls (fdir_port_sync_enter s) =
     calls s @ (if g_port_ready s \<and> lock (g_port s) \<noteq> None then [Call_lock] else [])"
  by (auto simp: fdir_port_sync_enter_def split: option.split)

lemma calls_sync_exit:
  "calls (fdir_port_sync_exit s) =
     calls s @ (if g_port_ready s \<and> unlock (g_port s) \<noteq> None then [Call_unlock] else [])"
  by (auto simp: fdir_port_sync_exit_def split: option.split)

lemma get_now_returns:
  assumes "port_inv s" "g_port_ready s"
  shows "returns (fdir_get_now_ms s) (\<lambda>(t, s'). \<exists>e. s' = ext (Call_now t) e s)"
  using assms
  by (auto simp: fdir_get_now_ms_def port_inv_def port_is_valid_def split: prod.split)

lemma get_now_keeps: "keeps (fdir_get_now_ms s) (\<lambda>(t, s'). \<exists>e. s' = ext (Call_now t) e s)"
  by (auto simp: fdir_get_now_ms_def split: prod.split option.split)

lemma emit_returns:
  assumes "port_inv s" "g_port_ready s"
  shows "returns (fdir_emit_event ev s) (\<lambda>s'. \<exists>e. s' = ext (Call_emit ev) e s)"
  using assms by (auto simp: fdir_emit_event_def port_inv_def port_is_valid_def)

lemma emit_keeps: "keeps (fdir_emit_event ev s) (\<lambda>s'. \<exists>e. s' = ext (Call_emit ev) e s)"
  by (auto simp: fdir_emit_event_def split: option.split)

lemma reboot_returns:
  assumes "port_inv s" "g_port_ready s"
  shows "returns (fdir_request_reboot why s) (\<lambda>s'. \<exists>e. s' = ext (Call_reboot why) e s)"
  using assms by (auto simp: fdir_request_reboot_def port_inv_def port_is_valid_def)

lemma reboot_keeps: "keeps (fdir_request_reboot why s) (\<lambda>s'. \<exists>e. s' = ext (Call_reboot why) e s)"
  by (auto simp: fdir_request_reboot_def split: option.split)

text \<open>The only way a hook stops the program in a state the library can be in is an unbound port.\<close>

lemma hooks_abort_iff:
  assumes "port_inv s"
  shows "fdir_get_now_ms s = None \<longleftrightarrow> \<not> g_port_ready s"
    and "fdir_emit_event ev s = None \<longleftrightarrow> \<not> g_port_ready s"
    and "fdir_request_reboot why s = None \<longleftrightarrow> \<not> g_port_ready s"
  using assms
  by (auto simp: fdir_get_now_ms_def fdir_emit_event_def fdir_request_reboot_def port_inv_def
      port_is_valid_def split: prod.splits option.splits)


subsection \<open>The bounded copy\<close>

lemma last_drop_singleton: "xs \<noteq> [] \<Longrightarrow> drop (length xs - 1) xs = [last xs]"
  by (induction xs) (auto simp: drop_Cons')

lemma copy_detail_eq:
  assumes "d \<noteq> []"
  shows "copy_detail d src =
     Some (case src of
             None \<Rightarrow> d[0 := NUL]
           | Some str \<Rightarrow> take (length d - 1) (cstr str @ replicate (length d - 1) NUL) @ [NUL])"
proof (cases src)
  case None
  with assms show ?thesis
    by (simp add: copy_detail_def fdir_internal_copy_detail_def)
next
  case (Some str)
  let ?n = "length d - 1"
  let ?p = "take ?n (cstr str @ replicate ?n NUL)"
  have len: "length ?p = ?n" by simp
  have "drop ?n (d[0 := NUL]) = [last (d[0 := NUL])]"
    using assms last_drop_singleton [of "d[0 := NUL]"] by simp
  then have "arr_set (?p @ drop ?n (d[0 := NUL])) ?n NUL = Some (?p @ [NUL])"
    using len by (simp add: arr_set_Some list_update_append del: take_append)
  with assms Some show ?thesis
    by (simp add: copy_detail_def fdir_internal_copy_detail_def c_strncpy_def del: take_append)
qed

lemma copy_detail_Some:
  assumes "d \<noteq> []"
  obtains b where "copy_detail d src = Some b" "length b = length d" "terminated b"
    "cstr b = (case src of None \<Rightarrow> [] | Some str \<Rightarrow> take (length d - 1) (cstr str))"
proof -
  let ?n = "length d - 1"
  show ?thesis
  proof (cases src)
    case None
    with assms show ?thesis
      by (intro that [of "d[0 := NUL]"])
        (auto simp: copy_detail_eq terminated_def cstr_def takeWhile_eq_Nil_iff set_conv_nth
          hd_conv_nth intro: exI [of _ 0])
  next
    case (Some str)
    let ?c = "cstr str"
    let ?b = "take ?n (?c @ replicate ?n NUL) @ [NUL]"
    have "cstr ?b = take ?n ?c"
    proof (cases "length ?c < ?n")
      case True
      then obtain k where "?n = length ?c + Suc k"
        by (metis add_Suc_right less_iff_Suc_add)
      then have "?b = ?c @ NUL # replicate k NUL @ [NUL]" by simp
      then show ?thesis using True by (simp add: cstr_append_NUL)
    next
      case False
      then have "?b = take ?n ?c @ NUL # []" by simp
      moreover have "NUL \<notin> set (take ?n ?c)" by (meson NUL_notin_cstr in_set_takeD)
      ultimately show ?thesis by (metis cstr_append_NUL)
    qed
    moreover have "length ?b = length d"
      using assms by (simp del: take_append)
    ultimately show ?thesis
      using assms Some by (intro that [of ?b]) (simp_all add: copy_detail_eq terminated_def)
  qed
qed

lemma copy_detail_32:
  assumes "length d = 32"
  obtains b where "copy_detail d src = Some b" "length b = 32" "terminated b"
    "cstr b = (case src of None \<Rightarrow> [] | Some str \<Rightarrow> take 31 (cstr str))"
proof -
  from assms have "d \<noteq> []" by auto
  then show ?thesis
    by (rule copy_detail_Some [of d src]) (rule that, auto simp: assms split: option.splits)
qed

lemma copy_detail_returns:
  "d \<noteq> [] \<Longrightarrow>
   returns (copy_detail d src)
     (\<lambda>b. length b = length d \<and> terminated b \<and>
       cstr b = (case src of None \<Rightarrow> [] | Some str \<Rightarrow> take (length d - 1) (cstr str)))"
  by (rule copy_detail_Some [of d src]) auto

subsection \<open>Properties\<close>

text \<open>
  The bounded copy writes the longest prefix of the source that fits into the given length, pads
  it with NUL bytes up to that length and leaves the rest of the buffer alone, so the buffer holds
  exactly that prefix as a terminated string; a null source gives the empty string. It stays inside
  the buffer exactly when the given length does. A null destination or a length of zero writes nothing.
\<close>

theorem copy_detail_spec:
  "fdir_internal_copy_detail None n src = Some None \<and>
   fdir_internal_copy_detail (Some d) 0 src = Some (Some d) \<and>
   (0 < n \<and> n \<le> length d \<longrightarrow>
      returns (fdir_internal_copy_detail (Some d) n src)
        (\<lambda>r. \<exists>b. r = Some b \<and> length b = length d \<and> drop n b = drop n d \<and> terminated (take n b) \<and>
            cstr b = (case src of None \<Rightarrow> [] | Some str \<Rightarrow> take (n - 1) (cstr str)))) \<and>
   (length d < n \<longrightarrow> src \<noteq> None \<longrightarrow> fdir_internal_copy_detail (Some d) n src = None)"
proof (intro conjI impI)
  assume n: "0 < n \<and> n \<le> length d"
  show "returns (fdir_internal_copy_detail (Some d) n src)
        (\<lambda>r. \<exists>b. r = Some b \<and> length b = length d \<and> drop n b = drop n d \<and> terminated (take n b) \<and>
            cstr b = (case src of None \<Rightarrow> [] | Some str \<Rightarrow> take (n - 1) (cstr str)))"
  proof (cases src)
    case None
    with n show ?thesis
      by (cases d; cases n) (auto simp: fdir_internal_copy_detail_def terminated_def cstr_def)
  next
    case (Some str)
    let ?w = "take (n - 1) (cstr str @ replicate (n - 1) NUL)"
    have lt: "n - 1 < length (d[0 := NUL])" using n by simp linarith
    with n have x: "drop (n - 1) (d[0 := NUL]) = d[0 := NUL] ! (n - 1) # drop n d"
      using Cons_nth_drop_Suc [of "n - 1" "d[0 := NUL]"] by (simp add: drop_update_cancel)
    have copy: "fdir_internal_copy_detail (Some d) n (Some str) = Some (Some (?w @ NUL # drop n d))"
      using n x lt by (auto simp: fdir_internal_copy_detail_def c_strncpy_def arr_set_def list_update_append
          simp del: take_append)
    have w: "length ?w = n - 1" by simp
    have cw: "cstr (?w @ NUL # t) = take (n - 1) (cstr str)" for t
    proof (cases "length (cstr str) < n - 1")
      case True
      then obtain k where "n - 1 = length (cstr str) + Suc k"
        by (metis add_Suc_right less_iff_Suc_add)
      then have "?w @ NUL # t = cstr str @ NUL # replicate k NUL @ NUL # t" by simp
      then show ?thesis using True by (simp add: cstr_append_NUL)
    next
      case False
      moreover have "NUL \<notin> set (take (n - 1) (cstr str))" by (meson NUL_notin_cstr in_set_takeD)
      ultimately show ?thesis by (simp add: cstr_append_NUL)
    qed
    from n have len: "length (?w @ NUL # drop n d) = length d" using w by (auto simp del: take_append)
    moreover have "drop n (?w @ NUL # drop n d) = drop n d"
      using n w by (simp only: drop_append) (simp del: take_append)
    moreover have "NUL \<in> set (take n (?w @ NUL # drop n d))"
      using n w by (simp only: take_append) (simp add: take_Cons' del: take_append)
    ultimately show ?thesis
      unfolding Some copy using cw by (simp add: terminated_def del: take_append drop_append length_append)
  qed
next
  assume "length d < n" "src \<noteq> None"
  then show "fdir_internal_copy_detail (Some d) n src = None"
    by (auto simp: fdir_internal_copy_detail_def c_strncpy_def arr_set_def split: bind_splits)
qed (simp_all add: fdir_internal_copy_detail_def)

theorem copy_detail_spec_witness:
  "returns (fdir_internal_copy_detail (Some (zero_buf 8)) 4 (Some ''abcdef''))
     (\<lambda>r. \<exists>b. r = Some b \<and> length b = 8 \<and> drop 4 b = zero_buf 4 \<and> terminated (take 4 b) \<and> cstr b = ''abc'')"
proof -
  have "cstr ''abcdef'' = ''abcdef''" by (simp add: cstr_def)
  moreover have "drop 4 (zero_buf 8) = zero_buf 4" by (simp add: zero_buf_def)
  ultimately show ?thesis
    using copy_detail_spec [of 4 "Some ''abcdef''" "zero_buf 8"] by simp
qed

end
