(* ===== verification/Failure_Queue.thy ===== *)
theory Failure_Queue
  imports Bounded_Fifo Port
begin

text \<open>
  \<open>src/failure_queue.c\<close>: the ring buffer of pending failure reports. The operations that run with
  the lock held work on the queue record alone; the others take and release the port lock.
  The ring buffer refines a list of at most \<open>FDIR_FAILURE_QUEUE_CAP\<close> reports, which the
  interpretation \<open>ring\<close> of \<open>bounded_fifo\<close> states.
\<close>

definition fdir_failure_queue_init :: "failure_queue \<Rightarrow> failure_queue" where
  "fdir_failure_queue_init q =
     q\<lparr>g_slots := replicate FDIR_FAILURE_QUEUE_CAP zero_report,
       g_head := 0, g_tail := 0, g_count := 0, g_full_latched := 0\<rparr>"

definition fdir_failure_queue_put_unsafe ::
  "fdir_failure_report option \<Rightarrow> failure_queue \<Rightarrow> (int \<times> failure_queue) option" where
  "fdir_failure_queue_put_unsafe report q =
     (case report of
        None \<Rightarrow> Some (- 1, q)
      | Some r \<Rightarrow>
          if unat (g_count q) \<ge> FDIR_FAILURE_QUEUE_CAP then Some (- 1, q\<lparr>g_full_latched := 1\<rparr>)
          else do {
            slots \<leftarrow> arr_set (g_slots q) (unat (g_tail q)) r;
            Some (0, q\<lparr>g_slots := slots,
                       g_tail := of_nat ((unat (g_tail q) + 1) mod FDIR_FAILURE_QUEUE_CAP),
                       g_count := g_count q + 1\<rparr>)
          })"

definition fdir_failure_queue_put ::
  "fdir_failure_report option \<Rightarrow> 'e fdir \<Rightarrow> (int \<times> 'e fdir) option" where
  "fdir_failure_queue_put report s =
     do {
       let s = fdir_port_sync_enter s;
       (rc, q) \<leftarrow> fdir_failure_queue_put_unsafe report (fq s);
       let s = s\<lparr>fq := q\<rparr>;
       Some (rc, fdir_port_sync_exit s)
     }"

text \<open>The critical section of \<open>fdir_failure_queue_get\<close>; \<open>out\<close> is the old value of \<open>*out\<close>.\<close>

definition queue_get_locked ::
  "fdir_failure_report \<Rightarrow> failure_queue \<Rightarrow> (int \<times> fdir_failure_report \<times> failure_queue) option" where
  "queue_get_locked out q =
     (if g_count q = 0 then Some (- 1, out, q)
      else do {
        r \<leftarrow> arr_get (g_slots q) (unat (g_head q));
        Some (0, r, q\<lparr>g_head := of_nat ((unat (g_head q) + 1) mod FDIR_FAILURE_QUEUE_CAP),
                      g_count := g_count q - 1\<rparr>)
      })"

definition fdir_failure_queue_get ::
  "fdir_failure_report option \<Rightarrow> 'e fdir \<Rightarrow> ((int \<times> fdir_failure_report option) \<times> 'e fdir) option" where
  "fdir_failure_queue_get out s =
     (case out of
        None \<Rightarrow> Some ((- 1, None), s)
      | Some r \<Rightarrow> do {
          let s = fdir_port_sync_enter s;
          (rc, r, q) \<leftarrow> queue_get_locked r (fq s);
          let s = s\<lparr>fq := q\<rparr>;
          Some ((rc, Some r), fdir_port_sync_exit s)
        })"

definition fdir_failure_queue_full_latched :: "'e fdir \<Rightarrow> fdir_bool \<times> 'e fdir" where
  "fdir_failure_queue_full_latched s =
     (let s = fdir_port_sync_enter s; latched = g_full_latched (fq s)
      in (latched, fdir_port_sync_exit s))"

definition fdir_failure_queue_pending_count :: "'e fdir \<Rightarrow> u8 \<times> 'e fdir" where
  "fdir_failure_queue_pending_count s =
     (let s = fdir_port_sync_enter s; count = g_count (fq s)
      in (count, fdir_port_sync_exit s))"


subsection \<open>Invariant and abstraction\<close>

definition queue_inv :: "failure_queue \<Rightarrow> bool" where
  "queue_inv q \<longleftrightarrow>
     length (g_slots q) = FDIR_FAILURE_QUEUE_CAP \<and>
     unat (g_head q) < FDIR_FAILURE_QUEUE_CAP \<and>
     unat (g_count q) \<le> FDIR_FAILURE_QUEUE_CAP \<and>
     unat (g_tail q) = (unat (g_head q) + unat (g_count q)) mod FDIR_FAILURE_QUEUE_CAP"

definition pending :: "failure_queue \<Rightarrow> fdir_failure_report list" where
  "pending q =
     map (\<lambda>k. g_slots q ! ((unat (g_head q) + k) mod FDIR_FAILURE_QUEUE_CAP)) [0..<unat (g_count q)]"

lemma length_pending [simp]: "length (pending q) = unat (g_count q)"
  by (simp add: pending_def)

lemma pending_Nil_iff: "pending q = [] \<longleftrightarrow> g_count q = 0"
  by (simp add: pending_def unat_eq_zero)

lemma queue_inv_init [simp]: "queue_inv (fdir_failure_queue_init q)"
  by (simp add: queue_inv_def fdir_failure_queue_init_def)

lemma queue_inv_zero [simp]: "queue_inv zero_queue"
  by (simp add: queue_inv_def zero_queue_def)

lemma pending_init [simp]: "pending (fdir_failure_queue_init q) = []"
  by (simp add: pending_def fdir_failure_queue_init_def)

lemma unat_ring_index [simp]: "unat (of_nat (n mod 8) :: u8) = n mod 8"
  by (simp add: unat_of_nat)

lemma put_unsafe_room:
  assumes inv: "queue_inv q" and room: "unat (g_count q) < FDIR_FAILURE_QUEUE_CAP"
  obtains q' where "fdir_failure_queue_put_unsafe (Some r) q = Some (0, q')"
    "queue_inv q'" "pending q' = pending q @ [r]" "g_full_latched q' = g_full_latched q"
proof -
  let ?h = "unat (g_head q)" and ?c = "unat (g_count q)" and ?t = "unat (g_tail q)"
  define q' where "q' = q\<lparr>g_slots := (g_slots q)[?t := r],
                 g_tail := of_nat ((?t + 1) mod 8), g_count := g_count q + 1\<rparr>"
  have t: "?t = (?h + ?c) mod 8" and len: "length (g_slots q) = 8"
    using inv by (simp_all add: queue_inv_def)
  have c1: "unat (g_count q + 1) = Suc ?c"
    using room by (simp add: unat_word_ariths)
  have put: "fdir_failure_queue_put_unsafe (Some r) q = Some (0, q')"
    using room t len by (simp add: fdir_failure_queue_put_unsafe_def q'_def)
  have inv': "queue_inv q'"
    using inv room t c1 by (simp add: queue_inv_def q'_def mod_Suc_eq)
  have same: "(g_slots q)[?t := r] ! ((?h + k) mod 8) = g_slots q ! ((?h + k) mod 8)" if "k < ?c" for k
    unfolding t by (rule nth_list_update_neq) (use that room in \<open>simp add: ring_index_distinct\<close>)
  have "pending q' = map (\<lambda>k. (g_slots q)[?t := r] ! ((?h + k) mod 8)) [0..<?c] @ [r]"
    using c1 len t by (simp add: pending_def q'_def)
  also have "map (\<lambda>k. (g_slots q)[?t := r] ! ((?h + k) mod 8)) [0..<?c] = pending q"
    using same by (simp add: pending_def)
  finally show ?thesis
    using that put inv' by (simp add: q'_def)
qed

lemma put_unsafe_full:
  assumes "queue_inv q" and "unat (g_count q) = FDIR_FAILURE_QUEUE_CAP"
  shows "fdir_failure_queue_put_unsafe (Some r) q = Some (- 1, q\<lparr>g_full_latched := 1\<rparr>)"
    and "queue_inv (q\<lparr>g_full_latched := 1\<rparr>)" and "pending (q\<lparr>g_full_latched := 1\<rparr>) = pending q"
  using assms by (simp_all add: fdir_failure_queue_put_unsafe_def queue_inv_def pending_def)

lemma get_locked_some:
  assumes inv: "queue_inv q" and ne: "pending q \<noteq> []"
  obtains q' where "queue_get_locked out q = Some (0, hd (pending q), q')"
    "queue_inv q'" "pending q' = tl (pending q)" "g_full_latched q' = g_full_latched q"
    "unat (g_count q) = Suc (unat (g_count q'))"
proof -
  let ?h = "unat (g_head q)" and ?c = "unat (g_count q)"
  define q' where "q' = q\<lparr>g_head := of_nat ((?h + 1) mod 8), g_count := g_count q - 1\<rparr>"
  have c: "g_count q \<noteq> 0" using ne by (simp add: pending_Nil_iff)
  then have c1: "unat (g_count q - 1) = ?c - 1" and cpos: "0 < ?c"
    by (simp_all add: unat_dec unat_gt_0)
  obtain n where n: "?c = Suc n" using cpos by (cases ?c) auto
  have h: "?h < 8" and len: "length (g_slots q) = 8" using inv by (simp_all add: queue_inv_def)
  have step: "pending q = g_slots q ! ?h # map (\<lambda>k. g_slots q ! ((?h + Suc k) mod 8)) [0..<n]"
    using h by (simp add: pending_def n map_upt_Suc del: upt_Suc)
  have "queue_get_locked out q = Some (0, hd (pending q), q')"
    using c h len step by (simp add: queue_get_locked_def q'_def)
  moreover have "queue_inv q'"
    using inv c1 cpos n by (simp add: queue_inv_def q'_def) presburger
  moreover have "pending q' = tl (pending q)"
    unfolding step using c1 n by (simp add: pending_def q'_def mod_simps)
  ultimately show ?thesis
    using that c1 n by (simp add: q'_def)
qed

lemma get_locked_empty: "pending q = [] \<Longrightarrow> queue_get_locked out q = Some (- 1, out, q)"
  by (simp add: queue_get_locked_def pending_Nil_iff)

interpretation ring: bounded_fifo FDIR_FAILURE_QUEUE_CAP zero_queue
  "\<lambda>r. fdir_failure_queue_put_unsafe (Some r)" queue_get_locked pending queue_inv
proof unfold_locales
  show "queue_inv zero_queue" by simp
next
  show "pending zero_queue = []" by (simp add: pending_def zero_queue_def)
next
  fix q assume "queue_inv q"
  then show "length (pending q) \<le> 8" by (simp add: queue_inv_def)
next
  fix q x assume "queue_inv q" "length (pending q) < 8"
  then obtain q' where "fdir_failure_queue_put_unsafe (Some x) q = Some (0, q')"
    "queue_inv q'" "pending q' = pending q @ [x]"
    using put_unsafe_room [of q] by auto
  then show "returns (fdir_failure_queue_put_unsafe (Some x) q)
     (\<lambda>(rc, q'). rc = 0 \<and> queue_inv q' \<and> pending q' = pending q @ [x])" by simp
next
  fix q x assume "queue_inv q" "length (pending q) = 8"
  then show "returns (fdir_failure_queue_put_unsafe (Some x) q)
     (\<lambda>(rc, q'). rc \<noteq> 0 \<and> queue_inv q' \<and> pending q' = pending q)"
    using put_unsafe_full [of q] by simp
next
  fix q x assume "queue_inv q" "pending q \<noteq> []"
  then obtain q' where "queue_get_locked x q = Some (0, hd (pending q), q')"
    "queue_inv q'" "pending q' = tl (pending q)"
    using get_locked_some [of q] by auto
  then show "returns (queue_get_locked x q)
     (\<lambda>(rc, y, q'). rc = 0 \<and> y = hd (pending q) \<and> queue_inv q' \<and> pending q' = tl (pending q))"
    by simp
next
  fix q x assume "queue_inv q" "pending q = []"
  then show "returns (queue_get_locked x q) (\<lambda>(rc, y, q'). rc \<noteq> 0 \<and> y = x \<and> q' = q)"
    by (simp add: get_locked_empty)
qed


subsection \<open>Properties\<close>

text \<open>
  C7. Reports put into a queue with room come out again in the order they went in, after the ones
  that were already waiting, and leave the queue empty: the ring buffer with its wrapping head, tail
  and count is a first-in first-out queue.
\<close>

theorem queue_put_get_order:
  assumes "queue_inv q" "length (pending q) + length rs \<le> FDIR_FAILURE_QUEUE_CAP"
  shows "returns
     (do {
        q \<leftarrow> put_all (\<lambda>r. fdir_failure_queue_put_unsafe (Some r)) rs q;
        get_n queue_get_locked (length (pending q)) x q
      })
     (\<lambda>(ys, q'). ys = pending q @ rs \<and> pending q' = [])"
  using assms by (rule ring.put_get_order)

theorem queue_put_get_order_witness:
  "queue_inv zero_queue \<and>
   length (pending zero_queue) + length [zero_report, zero_report\<lparr>rep_entity := 1\<rparr>] \<le> 8 \<and>
   returns
     (do {
        q \<leftarrow> put_all (\<lambda>r. fdir_failure_queue_put_unsafe (Some r)) [zero_report, zero_report\<lparr>rep_entity := 1\<rparr>] zero_queue;
        get_n queue_get_locked (length (pending q)) zero_report q
      })
     (\<lambda>(ys, q'). ys = pending zero_queue @ [zero_report, zero_report\<lparr>rep_entity := 1\<rparr>] \<and> pending q' = [])"
proof (intro conjI)
  show room: "length (pending zero_queue) + length [zero_report, zero_report\<lparr>rep_entity := 1\<rparr>] \<le> 8"
    by (simp add: zero_queue_def)
  show "returns
     (do {
        q \<leftarrow> put_all (\<lambda>r. fdir_failure_queue_put_unsafe (Some r)) [zero_report, zero_report\<lparr>rep_entity := 1\<rparr>] zero_queue;
        get_n queue_get_locked (length (pending q)) zero_report q
      })
     (\<lambda>(ys, q'). ys = pending zero_queue @ [zero_report, zero_report\<lparr>rep_entity := 1\<rparr>] \<and> pending q' = [])"
    by (rule queue_put_get_order [OF queue_inv_zero room])
qed simp

text \<open>
  Putting a report into the queue succeeds exactly when fewer than eight wait; then it waits
  behind them. A refused report leaves the queue as it was and sets the overflow latch.
\<close>

theorem queue_put_spec:
  assumes "queue_inv (fq s)"
  shows "returns (fdir_failure_queue_put (Some r) s)
     (\<lambda>(rc, s').
        queue_inv (fq s') \<and>
        (if length (pending (fq s)) < FDIR_FAILURE_QUEUE_CAP
         then rc = 0 \<and> pending (fq s') = pending (fq s) @ [r] \<and>
              g_full_latched (fq s') = g_full_latched (fq s)
         else rc = - 1 \<and> pending (fq s') = pending (fq s) \<and> g_full_latched (fq s') = 1))"
proof (cases "unat (g_count (fq s)) < FDIR_FAILURE_QUEUE_CAP")
  case True
  obtain q' where "fdir_failure_queue_put_unsafe (Some r) (fq s) = Some (0, q')"
    "queue_inv q'" "pending q' = pending (fq s) @ [r]" "g_full_latched q' = g_full_latched (fq s)"
    by (rule put_unsafe_room [OF assms True])
  with True show ?thesis by (simp add: fdir_failure_queue_put_def)
next
  case False
  then have "unat (g_count (fq s)) = FDIR_FAILURE_QUEUE_CAP"
    using assms by (simp add: queue_inv_def)
  with False put_unsafe_full [OF assms this] show ?thesis by (simp add: fdir_failure_queue_put_def)
qed

theorem queue_put_spec_witness:
  "queue_inv (fq (fdir_boot ())) \<and>
   returns (fdir_failure_queue_put (Some zero_report) (fdir_boot ()))
     (\<lambda>(rc, s'). rc = 0 \<and> pending (fq s') = [zero_report])"
proof -
  have inv: "queue_inv (fq (fdir_boot ()))" and empty: "pending (fq (fdir_boot ())) = []"
    by (simp_all add: fdir_boot_def ring.items_empty)
  show ?thesis
    using inv queue_put_spec [OF inv, of zero_report] empty by (auto elim!: returns_mono)
qed

text \<open>
  Taking a report fails exactly on the empty queue, and then writes nothing; otherwise it hands
  out the oldest report. The overflow latch stays as it is.
\<close>

theorem queue_get_spec:
  assumes "queue_inv (fq s)"
  shows "returns (fdir_failure_queue_get (Some old) s)
     (\<lambda>((rc, out), s').
        queue_inv (fq s') \<and> g_full_latched (fq s') = g_full_latched (fq s) \<and>
        (case pending (fq s) of
           [] \<Rightarrow> rc = - 1 \<and> out = Some old \<and> pending (fq s') = []
         | r # rs \<Rightarrow> rc = 0 \<and> out = Some r \<and> pending (fq s') = rs))"
proof (cases "pending (fq s)")
  case Nil
  with assms show ?thesis by (simp add: fdir_failure_queue_get_def get_locked_empty)
next
  case (Cons r rs)
  obtain q' where "queue_get_locked old (fq s) = Some (0, hd (pending (fq s)), q')"
    "queue_inv q'" "pending q' = tl (pending (fq s))" "g_full_latched q' = g_full_latched (fq s)"
    using get_locked_some [OF assms] Cons by (metis list.distinct(1))
  with Cons show ?thesis by (simp add: fdir_failure_queue_get_def)
qed

theorem queue_get_spec_witness:
  "queue_inv (fq (fdir_boot ())) \<and>
   returns (fdir_failure_queue_get (Some zero_report) (fdir_boot ()))
     (\<lambda>((rc, out), s'). rc = - 1 \<and> out = Some zero_report \<and> pending (fq s') = [])"
proof -
  have inv: "queue_inv (fq (fdir_boot ()))" and empty: "pending (fq (fdir_boot ())) = []"
    by (simp_all add: fdir_boot_def ring.items_empty)
  show ?thesis
    using inv queue_get_spec [OF inv, of zero_report] empty by (auto elim!: returns_mono)
qed

end
