(* ===== verification/Health.thy ===== *)
theory Health
  imports Port
begin

text \<open>
  \<open>src/health.c\<close>: the health snapshot, heartbeat and fault latch of every entity. Functions that
  only touch the health arrays work on the health record; the others, which read the clock or take
  the lock, on the whole state. Array accesses are checked: an index outside an array is \<open>None\<close>.
\<close>

definition fdir_health_init :: "health_table \<Rightarrow> health_table" where
  "fdir_health_init h =
     h\<lparr>g_health := replicate FDIR_ENTITY_CAP zero_snapshot,
       g_latched_reason := replicate FDIR_ENTITY_CAP FDIR_REASON_INIT_FAILED,
       g_fault_latched := replicate FDIR_ENTITY_CAP 0,
       g_entity_limit := 0\<rparr>"

definition fdir_health_set_entity_limit :: "u8 \<Rightarrow> health_table \<Rightarrow> health_table" where
  "fdir_health_set_entity_limit limit h = h\<lparr>g_entity_limit := limit\<rparr>"

definition fdir_health_fault_is_latched_unsafe ::
  "fdir_entity_id \<Rightarrow> fdir_reason \<Rightarrow> health_table \<Rightarrow> fdir_bool option" where
  "fdir_health_fault_is_latched_unsafe eid reason h =
     (if eid \<ge> g_entity_limit h then Some 0
      else do {
        l \<leftarrow> arr_get (g_fault_latched h) (unat eid);
        r \<leftarrow> arr_get (g_latched_reason h) (unat eid);
        Some (if l \<noteq> 0 \<and> r = reason then 1 else 0)
      })"

definition fdir_health_latch_fault_unsafe ::
  "fdir_entity_id \<Rightarrow> fdir_reason \<Rightarrow> health_table \<Rightarrow> (fdir_bool \<times> health_table) option" where
  "fdir_health_latch_fault_unsafe eid reason h =
     (if eid \<ge> g_entity_limit h then Some (0, h)
      else do {
        l \<leftarrow> arr_get (g_fault_latched h) (unat eid);
        r \<leftarrow> arr_get (g_latched_reason h) (unat eid);
        if l \<noteq> 0 \<and> r = reason then Some (1, h)
        else do {
          ls \<leftarrow> arr_set (g_fault_latched h) (unat eid) 1;
          rs \<leftarrow> arr_set (g_latched_reason h) (unat eid) reason;
          Some (0, h\<lparr>g_fault_latched := ls, g_latched_reason := rs\<rparr>)
        }
      })"

definition fdir_health_clear_latch_unsafe ::
  "fdir_entity_id \<Rightarrow> health_table \<Rightarrow> (fdir_reason \<times> health_table) option" where
  "fdir_health_clear_latch_unsafe eid h =
     (if eid \<ge> g_entity_limit h then Some (reason_0xFF, h)
      else do {
        l \<leftarrow> arr_get (g_fault_latched h) (unat eid);
        r \<leftarrow> arr_get (g_latched_reason h) (unat eid);
        let prev = (if l \<noteq> 0 then r else reason_0xFF);
        ls \<leftarrow> arr_set (g_fault_latched h) (unat eid) 0;
        rs \<leftarrow> arr_set (g_latched_reason h) (unat eid) FDIR_REASON_INIT_FAILED;
        Some (prev, h\<lparr>g_fault_latched := ls, g_latched_reason := rs\<rparr>)
      })"

definition fdir_health_fault_is_latched ::
  "fdir_entity_id \<Rightarrow> fdir_reason \<Rightarrow> 'e fdir \<Rightarrow> (fdir_bool \<times> 'e fdir) option" where
  "fdir_health_fault_is_latched eid reason s =
     do {
       let s = fdir_port_sync_enter s;
       latched \<leftarrow> fdir_health_fault_is_latched_unsafe eid reason (hl s);
       Some (latched, fdir_port_sync_exit s)
     }"

definition fdir_health_heartbeat_notify :: "fdir_entity_id \<Rightarrow> 'e fdir \<Rightarrow> 'e fdir option" where
  "fdir_health_heartbeat_notify eid s =
     do {
       let s = fdir_port_sync_enter s;
       if eid \<ge> g_entity_limit (hl s) then Some (fdir_port_sync_exit s)
       else do {
         (now, s) \<leftarrow> fdir_get_now_ms s;
         snap \<leftarrow> arr_get (g_health (hl s)) (unat eid);
         hs \<leftarrow> arr_set (g_health (hl s)) (unat eid) (snap\<lparr>hs_last_heartbeat_ms := now\<rparr>);
         let s = s\<lparr>hl := (hl s)\<lparr>g_health := hs\<rparr>\<rparr>;
         snap \<leftarrow> arr_get (g_health (hl s)) (unat eid);
         if hs_health snap = FDIR_HEALTH_FAILED then Some (fdir_port_sync_exit s)
         else do {
           hs \<leftarrow> arr_set (g_health (hl s)) (unat eid) (snap\<lparr>hs_health := FDIR_HEALTH_OK\<rparr>);
           let s = s\<lparr>hl := (hl s)\<lparr>g_health := hs\<rparr>\<rparr>;
           Some (fdir_port_sync_exit s)
         }
       }
     }"

definition fdir_health_set_unsafe ::
  "fdir_entity_id \<Rightarrow> fdir_health \<Rightarrow> u16 \<Rightarrow> string option \<Rightarrow> health_table \<Rightarrow> health_table option" where
  "fdir_health_set_unsafe eid health error_code detail h =
     (if eid \<ge> g_entity_limit h then Some h
      else do {
        snap \<leftarrow> arr_get (g_health h) (unat eid);
        d \<leftarrow> copy_detail (hs_detail snap) detail;
        hs \<leftarrow> arr_set (g_health h) (unat eid)
          (snap\<lparr>hs_health := health, hs_error_code := error_code, hs_detail := d\<rparr>);
        Some (h\<lparr>g_health := hs\<rparr>)
      })"

definition fdir_health_set ::
  "fdir_entity_id \<Rightarrow> fdir_health \<Rightarrow> u16 \<Rightarrow> string option \<Rightarrow> 'e fdir \<Rightarrow> 'e fdir option" where
  "fdir_health_set eid health error_code detail s =
     do {
       let s = fdir_port_sync_enter s;
       if eid \<ge> g_entity_limit (hl s) then Some (fdir_port_sync_exit s)
       else do {
         snap \<leftarrow> arr_get (g_health (hl s)) (unat eid);
         d \<leftarrow> copy_detail (hs_detail snap) detail;
         hs \<leftarrow> arr_set (g_health (hl s)) (unat eid)
           (snap\<lparr>hs_health := health, hs_error_code := error_code, hs_detail := d\<rparr>);
         let s = s\<lparr>hl := (hl s)\<lparr>g_health := hs\<rparr>\<rparr>;
         Some (fdir_port_sync_exit s)
       }
     }"

definition fdir_health_reset_unsafe :: "fdir_entity_id \<Rightarrow> 'e fdir \<Rightarrow> 'e fdir option" where
  "fdir_health_reset_unsafe eid s =
     (if eid \<ge> g_entity_limit (hl s) then Some s
      else do {
        snap \<leftarrow> arr_get (g_health (hl s)) (unat eid);
        d \<leftarrow> arr_set (hs_detail snap) 0 NUL;
        (now, s) \<leftarrow> fdir_get_now_ms s;
        hs \<leftarrow> arr_set (g_health (hl s)) (unat eid)
          (snap\<lparr>hs_health := FDIR_HEALTH_OK, hs_error_code := 0, hs_detail := d,
                hs_last_heartbeat_ms := now\<rparr>);
        Some (s\<lparr>hl := (hl s)\<lparr>g_health := hs\<rparr>\<rparr>)
      })"

definition fdir_health_reset :: "fdir_entity_id \<Rightarrow> 'e fdir \<Rightarrow> 'e fdir option" where
  "fdir_health_reset eid s =
     do {
       let s = fdir_port_sync_enter s;
       if eid \<ge> g_entity_limit (hl s) then Some (fdir_port_sync_exit s)
       else do {
         snap \<leftarrow> arr_get (g_health (hl s)) (unat eid);
         d \<leftarrow> arr_set (hs_detail snap) 0 NUL;
         (now, s) \<leftarrow> fdir_get_now_ms s;
         hs \<leftarrow> arr_set (g_health (hl s)) (unat eid)
           (snap\<lparr>hs_health := FDIR_HEALTH_OK, hs_error_code := 0, hs_detail := d,
                 hs_last_heartbeat_ms := now\<rparr>);
         let s = s\<lparr>hl := (hl s)\<lparr>g_health := hs\<rparr>\<rparr>;
         Some (fdir_port_sync_exit s)
       }
     }"

text \<open>The returned pointer is read at once by every caller; the inner \<open>None\<close> is the null pointer.\<close>

definition fdir_health_snapshot ::
  "fdir_entity_id \<Rightarrow> health_table \<Rightarrow> fdir_health_snapshot option option" where
  "fdir_health_snapshot eid h =
     (if eid \<ge> g_entity_limit h then Some None
      else do { snap \<leftarrow> arr_get (g_health h) (unat eid); Some (Some snap) })"

definition fdir_health_snapshot_copy ::
  "fdir_entity_id \<Rightarrow> fdir_health_snapshot option \<Rightarrow> 'e fdir
     \<Rightarrow> ((fdir_bool \<times> fdir_health_snapshot option) \<times> 'e fdir) option" where
  "fdir_health_snapshot_copy eid out s =
     (if out = None \<or> eid \<ge> g_entity_limit (hl s) then Some ((0, out), s)
      else do {
        let s = fdir_port_sync_enter s;
        snap \<leftarrow> arr_get (g_health (hl s)) (unat eid);
        Some ((1, Some snap), fdir_port_sync_exit s)
      })"

definition fdir_health_is_stale ::
  "fdir_entity_id \<Rightarrow> u32 \<Rightarrow> u32 \<Rightarrow> health_table \<Rightarrow> fdir_bool option" where
  "fdir_health_is_stale eid now_ms max_age_ms h =
     do {
       snapshot \<leftarrow> fdir_health_snapshot eid h;
       case snapshot of
         None \<Rightarrow> Some 0
       | Some snap \<Rightarrow>
           if hs_health snap = FDIR_HEALTH_FAILED then Some 0
           else Some (if now_ms - hs_last_heartbeat_ms snap > max_age_ms then 1 else 0)
     }"


subsection \<open>Invariant\<close>

definition snapshot_inv :: "fdir_health_snapshot \<Rightarrow> bool" where
  "snapshot_inv snap \<longleftrightarrow> length (hs_detail snap) = FDIR_DETAIL_SIZE \<and> terminated (hs_detail snap)"

definition health_inv :: "health_table \<Rightarrow> bool" where
  "health_inv h \<longleftrightarrow>
     length (g_health h) = FDIR_ENTITY_CAP \<and>
     length (g_latched_reason h) = FDIR_ENTITY_CAP \<and>
     length (g_fault_latched h) = FDIR_ENTITY_CAP \<and>
     unat (g_entity_limit h) \<le> FDIR_ENTITY_CAP \<and>
     (\<forall>snap \<in> set (g_health h). snapshot_inv snap)"

text \<open>Whether entity \<open>eid\<close> is registered with the health table, latched for \<open>reason\<close>, or failed.\<close>

definition tracked :: "fdir_entity_id \<Rightarrow> health_table \<Rightarrow> bool" where
  "tracked eid h \<longleftrightarrow> eid < g_entity_limit h"

definition latched :: "fdir_entity_id \<Rightarrow> fdir_reason \<Rightarrow> health_table \<Rightarrow> bool" where
  "latched eid reason h \<longleftrightarrow>
     tracked eid h \<and> g_fault_latched h ! unat eid \<noteq> 0 \<and> g_latched_reason h ! unat eid = reason"

definition failed :: "fdir_entity_id \<Rightarrow> health_table \<Rightarrow> bool" where
  "failed eid h \<longleftrightarrow> tracked eid h \<and> hs_health (g_health h ! unat eid) = FDIR_HEALTH_FAILED"

lemma health_inv_zero [simp]: "health_inv zero_health"
  by (simp add: health_inv_def zero_health_def snapshot_inv_def zero_snapshot_def zero_buf_def
      terminated_def)

lemma health_inv_init [simp]: "health_inv (fdir_health_init h)"
  by (simp add: health_inv_def fdir_health_init_def snapshot_inv_def zero_snapshot_def zero_buf_def
      terminated_def)

lemma tracked_index:
  assumes "health_inv h" "tracked eid h"
  shows "unat eid < length (g_health h)" "unat eid < length (g_latched_reason h)"
    "unat eid < length (g_fault_latched h)"
  using assms by (auto simp: health_inv_def tracked_def word_less_nat_alt)

lemma health_inv_update:
  assumes "health_inv h" "snapshot_inv snap"
  shows "health_inv (h\<lparr>g_health := (g_health h)[i := snap]\<rparr>)"
  using assms by (auto simp: health_inv_def dest!: set_update_subset_insert [THEN subsetD])

lemma health_inv_latch:
  "health_inv h \<Longrightarrow>
   health_inv (h\<lparr>g_fault_latched := (g_fault_latched h)[i := l], g_latched_reason := (g_latched_reason h)[j := r]\<rparr>)"
  by (simp add: health_inv_def)

lemma snapshot_inv_nth: "health_inv h \<Longrightarrow> tracked eid h \<Longrightarrow> snapshot_inv (g_health h ! unat eid)"
  using tracked_index [of h eid] by (auto simp: health_inv_def)

lemma snapshot_inv_clear:
  "snapshot_inv snap \<Longrightarrow> snapshot_inv (snap\<lparr>hs_detail := (hs_detail snap)[0 := NUL]\<rparr>)"
  by (auto simp: snapshot_inv_def terminated_def set_conv_nth intro: exI [of _ 0])


subsection \<open>What the operations do\<close>

lemma is_latched_unsafe_eq:
  "health_inv h \<Longrightarrow>
   fdir_health_fault_is_latched_unsafe eid reason h = Some (if latched eid reason h then 1 else 0)"
  using tracked_index [of h eid]
  by (auto simp: fdir_health_fault_is_latched_unsafe_def latched_def tracked_def)

lemma snapshot_eq:
  "health_inv h \<Longrightarrow>
   fdir_health_snapshot eid h = Some (if tracked eid h then Some (g_health h ! unat eid) else None)"
  using tracked_index [of h eid] by (auto simp: fdir_health_snapshot_def tracked_def)

lemma is_stale_eq:
  "health_inv h \<Longrightarrow>
   fdir_health_is_stale eid now max_age h =
     Some (if tracked eid h \<and> \<not> failed eid h \<and>
              now - hs_last_heartbeat_ms (g_health h ! unat eid) > max_age then 1 else 0)"
  by (auto simp: fdir_health_is_stale_def snapshot_eq failed_def)

lemma latch_fault_eq:
  assumes "health_inv h" "tracked eid h"
  shows "fdir_health_latch_fault_unsafe eid reason h =
     Some (if latched eid reason h then (1, h)
           else (0, h\<lparr>g_fault_latched := (g_fault_latched h)[unat eid := 1],
                      g_latched_reason := (g_latched_reason h)[unat eid := reason]\<rparr>))"
  using assms tracked_index [of h eid]
  by (auto simp: fdir_health_latch_fault_unsafe_def latched_def tracked_def)

lemma clear_latch_eq:
  assumes "health_inv h" "tracked eid h"
  shows "fdir_health_clear_latch_unsafe eid h =
     Some (if g_fault_latched h ! unat eid \<noteq> 0 then g_latched_reason h ! unat eid else reason_0xFF,
           h\<lparr>g_fault_latched := (g_fault_latched h)[unat eid := 0],
             g_latched_reason := (g_latched_reason h)[unat eid := FDIR_REASON_INIT_FAILED]\<rparr>)"
  using assms tracked_index [of h eid]
  by (auto simp: fdir_health_clear_latch_unsafe_def tracked_def)

lemma set_unsafe_cases:
  assumes "health_inv h"
  obtains (tracked) snap where
      "fdir_health_set_unsafe eid health code detail h = Some (h\<lparr>g_health := (g_health h)[unat eid := snap]\<rparr>)"
      "tracked eid h" "snapshot_inv snap" "hs_health snap = health" "hs_error_code snap = code"
      "hs_last_heartbeat_ms snap = hs_last_heartbeat_ms (g_health h ! unat eid)"
      "cstr (hs_detail snap) = (case detail of None \<Rightarrow> [] | Some d \<Rightarrow> take 31 (cstr d))"
  | (untracked) "fdir_health_set_unsafe eid health code detail h = Some h" "\<not> tracked eid h"
proof (cases "tracked eid h")
  case True
  let ?old = "g_health h ! unat eid"
  have len: "length (hs_detail ?old) = 32"
    using snapshot_inv_nth [OF assms True] by (simp add: snapshot_inv_def)
  then obtain b where b: "copy_detail (hs_detail ?old) detail = Some b" "length b = 32" "terminated b"
    "cstr b = (case detail of None \<Rightarrow> [] | Some d \<Rightarrow> take 31 (cstr d))"
    by (rule copy_detail_32)
  show ?thesis
  proof (rule that(1) [of "?old\<lparr>hs_health := health, hs_error_code := code, hs_detail := b\<rparr>"])
    show "fdir_health_set_unsafe eid health code detail h = Some (h\<lparr>g_health :=
      (g_health h)[unat eid := ?old\<lparr>hs_health := health, hs_error_code := code, hs_detail := b\<rparr>]\<rparr>)"
      using True b tracked_index [OF assms True]
      by (simp add: fdir_health_set_unsafe_def tracked_def)
  qed (use True b in \<open>auto simp: snapshot_inv_def\<close>)
next
  case False
  then show ?thesis
    using that(2) by (simp add: fdir_health_set_unsafe_def tracked_def not_less)
qed

lemma reset_unsafe_tracked:
  assumes "health_inv (hl s)" "port_inv s" "g_port_ready s" "tracked eid (hl s)"
  obtains t e snap where
    "fdir_health_reset_unsafe eid s =
       Some ((ext (Call_now t) e s)\<lparr>hl := (hl s)\<lparr>g_health := (g_health (hl s))[unat eid := snap]\<rparr>\<rparr>)"
    "snapshot_inv snap" "hs_health snap = FDIR_HEALTH_OK" "hs_error_code snap = 0"
    "hs_last_heartbeat_ms snap = t" "cstr (hs_detail snap) = []"
proof -
  let ?old = "g_health (hl s) ! unat eid"
  have old: "snapshot_inv ?old" by (rule snapshot_inv_nth [OF assms(1,4)])
  then have d: "0 < length (hs_detail ?old)" by (simp add: snapshot_inv_def)
  obtain t e where now: "fdir_get_now_ms s = Some (t, ext (Call_now t) e s)"
    using get_now_returns [OF assms(2,3)] by (auto simp: returns_def)
  let ?new = "?old\<lparr>hs_health := FDIR_HEALTH_OK, hs_error_code := 0,
      hs_detail := (hs_detail ?old)[0 := NUL], hs_last_heartbeat_ms := t\<rparr>"
  have eq: "fdir_health_reset_unsafe eid s =
     Some ((ext (Call_now t) e s)\<lparr>hl := (hl s)\<lparr>g_health := (g_health (hl s))[unat eid := ?new]\<rparr>\<rparr>)"
    using assms(4) d now tracked_index [OF assms(1,4)]
    by (simp add: fdir_health_reset_unsafe_def tracked_def)
  show ?thesis
  proof (rule that [OF eq])
    show "snapshot_inv ?new"
      using snapshot_inv_clear [OF old] by (simp add: snapshot_inv_def)
    show "cstr (hs_detail ?new) = []"
      using d by (cases "hs_detail ?old") (auto simp: cstr_def)
  qed simp_all
qed

lemma reset_unsafe_untracked: "\<not> tracked eid (hl s) \<Longrightarrow> fdir_health_reset_unsafe eid s = Some s"
  by (simp add: fdir_health_reset_unsafe_def tracked_def not_less)

subsection \<open>Properties\<close>

lemma word_diff_later:
  "d < 2 ^ 32 \<Longrightarrow> unat (of_nat (t + d) - of_nat t :: u32) = d"
  by (simp add: unat_of_nat)

text \<open>
  C22. The stale test is right across the 32-bit wrap of the millisecond clock: for a heartbeat at
  time \<open>t\<close> and a test \<open>d\<close> milliseconds later, \<open>d < 2 ^ 32\<close>, a tracked entity that is not FAILED is
  stale exactly when \<open>d\<close> exceeds the permitted age. An entity that is FAILED or not tracked is never
  stale.
\<close>

theorem stale_across_wrap:
  assumes "health_inv h" "d < 2 ^ 32"
    "hs_last_heartbeat_ms (g_health h ! unat eid) = of_nat t"
  shows "fdir_health_is_stale eid (of_nat (t + d)) max_age h =
     Some (if tracked eid h \<and> \<not> failed eid h \<and> d > unat max_age then 1 else 0)"
proof -
  have "(of_nat (t + d) - of_nat t > max_age) = (d > unat max_age)"
    using word_diff_later [OF assms(2), of t] by (simp add: word_less_nat_alt)
  then show ?thesis using assms(1,3) by (simp add: is_stale_eq)
qed

text \<open>A table with one tracked entity whose last heartbeat came five milliseconds before the wrap.\<close>

definition late_health :: health_table where
  "late_health = zero_health\<lparr>g_entity_limit := 1,
     g_health := (g_health zero_health)[0 := zero_snapshot\<lparr>hs_last_heartbeat_ms := of_nat (2 ^ 32 - 5)\<rparr>]\<rparr>"

lemma late_health_facts:
  "health_inv late_health" "hs_last_heartbeat_ms (g_health late_health ! unat (0 :: u8)) = of_nat (2 ^ 32 - 5)"
  "tracked 0 late_health" "\<not> failed 0 late_health"
  by (auto simp: late_health_def health_inv_def zero_health_def snapshot_inv_def zero_snapshot_def
      zero_buf_def terminated_def tracked_def failed_def
      dest!: set_update_subset_insert [THEN subsetD])

theorem stale_across_wrap_witness:
  "health_inv late_health \<and>
   fdir_health_is_stale 0 6 10 late_health = Some 1 \<and> fdir_health_is_stale 0 5 10 late_health = Some 0"
proof -
  have wrap: "(of_nat (2 ^ 32 - 5 + 11) :: u32) = 6" "(of_nat (2 ^ 32 - 5 + 10) :: u32) = 5" by simp_all
  show ?thesis
    using stale_across_wrap [OF late_health_facts(1) _ late_health_facts(2), of 11 10, unfolded wrap]
      stale_across_wrap [OF late_health_facts(1) _ late_health_facts(2), of 10 10, unfolded wrap] late_health_facts
    by simp
qed

text \<open>
  The stale test takes a clock reading that is older than the heartbeat for one that is almost a
  whole clock period newer: a heartbeat one millisecond after the reading makes a healthy entity
  stale for every permitted age short of the full range. \<open>fdir_check_watchdogs\<close> reads the clock
  before it takes the lock, so a heartbeat that lands in between has this effect.
\<close>

theorem heartbeat_after_reading_is_stale:
  assumes "health_inv h" "tracked eid h" "\<not> failed eid h"
    "hs_last_heartbeat_ms (g_health h ! unat eid) = now + 1" "max_age < 2 ^ 32 - 1"
  shows "fdir_health_is_stale eid now max_age h = Some 1"
proof -
  have "now - (now + 1) = (2 ^ 32 - 1 :: u32)" by simp
  then have "max_age < now - (now + 1)" using assms(5) by (simp only:)
  then show ?thesis using assms by (simp add: is_stale_eq)
qed

theorem heartbeat_after_reading_is_stale_witness:
  "tracked 0 late_health \<and> \<not> failed 0 late_health \<and>
   fdir_health_is_stale 0 (of_nat (2 ^ 32 - 6)) 1500 late_health = Some 1"
  using heartbeat_after_reading_is_stale [OF late_health_facts(1,3,4), of "of_nat (2 ^ 32 - 6)" 1500]
    late_health_facts by simp

end
