(* ===== verification/Events.thy ===== *)
theory Events
  imports Port
begin

text \<open>
  The event emission of \<open>src/recovery.c\<close>: the severity of an event, entity and system events
  (\<open>emit_event_full\<close>) and subsystem events (\<open>fdir_internal_emit_subsystem_state\<close>). What leaves the
  library is collected in the call history, so the lemmas state the exact event handed to the port.
\<close>

definition severity_for_event :: "fdir_event_kind \<Rightarrow> fdir_reason \<Rightarrow> fdir_mode \<Rightarrow> fdir_severity" where
  "severity_for_event kind reason mode =
     (if kind = FDIR_EVENT_MODE_CHANGE then
        (if mode \<ge> FDIR_MODE_SAFE then FDIR_SEVERITY_CRITICAL
         else if mode = FDIR_MODE_DEGRADED then FDIR_SEVERITY_WARNING
         else FDIR_SEVERITY_INFO)
      else if kind = FDIR_EVENT_RESTART then FDIR_SEVERITY_INFO
      else if kind = FDIR_EVENT_QUEUE_OVERFLOW then FDIR_SEVERITY_WARNING
      else if reason = FDIR_REASON_WATCHDOG \<or> reason = FDIR_REASON_INIT_FAILED then FDIR_SEVERITY_ERROR
      else if kind = FDIR_EVENT_FAILURE \<or> kind = FDIR_EVENT_WATCHDOG then FDIR_SEVERITY_ERROR
      else FDIR_SEVERITY_INFO)"

definition emit_event_full ::
  "fdir_event_kind \<Rightarrow> fdir_mode \<Rightarrow> fdir_entity_id \<Rightarrow> fdir_reason \<Rightarrow> u16 \<Rightarrow> fdir_level
     \<Rightarrow> fdir_anomaly_phase \<Rightarrow> string option \<Rightarrow> 'e fdir \<Rightarrow> 'e fdir option" where
  "emit_event_full kind mode entity reason error_code level phase detail s =
     do {
       let event = zero_event\<lparr>ev_kind := kind, ev_mode := mode, ev_entity := entity,
             ev_reason := reason, ev_error_code := error_code\<rparr>;
       (now, s) \<leftarrow> fdir_get_now_ms s;
       let event = event\<lparr>ev_timestamp_ms := now, ev_level := level, ev_phase := phase,
             ev_subsystem := FDIR_SUBSYSTEM_NONE,
             ev_severity := severity_for_event kind reason mode\<rparr>;
       let event = (if entity \<noteq> FDIR_ENTITY_NONE
                    then event\<lparr>ev_anomaly_id := FDIR_ANOMALY_ID entity reason\<rparr> else event);
       d \<leftarrow> copy_detail (ev_detail event) detail;
       fdir_internal_emit_event (Some (event\<lparr>ev_detail := d\<rparr>)) s
     }"

definition fdir_internal_emit_subsystem_state ::
  "fdir_subsystem_id \<Rightarrow> fdir_entity_id \<Rightarrow> fdir_reason \<Rightarrow> u16 \<Rightarrow> fdir_anomaly_phase
     \<Rightarrow> string option \<Rightarrow> 'e fdir \<Rightarrow> 'e fdir option" where
  "fdir_internal_emit_subsystem_state sub entity reason error_code phase detail s =
     do {
       let severity =
         (if phase = FDIR_ANOMALY_CLEARED then FDIR_SEVERITY_INFO
          else case detail of
                 None \<Rightarrow> FDIR_SEVERITY_WARNING
               | Some d \<Rightarrow>
                   if cstr d = ''unavailable'' \<or> cstr d = ''policy_override''
                   then FDIR_SEVERITY_ERROR else FDIR_SEVERITY_WARNING);
       let event = zero_event\<lparr>ev_kind := FDIR_EVENT_FAILURE, ev_mode := g_mode s, ev_entity := entity,
             ev_subsystem := sub, ev_reason := reason, ev_error_code := error_code\<rparr>;
       (now, s) \<leftarrow> fdir_get_now_ms s;
       let event = event\<lparr>ev_timestamp_ms := now, ev_level := FDIR_LEVEL_SUBSYSTEM, ev_phase := phase,
             ev_severity := severity, ev_anomaly_id := FDIR_SUBSYSTEM_ANOMALY_ID sub reason\<rparr>;
       d \<leftarrow> copy_detail (ev_detail event) detail;
       fdir_internal_emit_event (Some (event\<lparr>ev_detail := d\<rparr>)) s
     }"


subsection \<open>What is emitted\<close>

text \<open>
  The event table of \<open>docs/api.md\<close>: the detail is a terminated string, a subsystem is named exactly
  on events of the subsystem level, the anomaly key belongs to the level, and mode changes are
  system events.
\<close>

definition event_wf :: "fdir_event \<Rightarrow> bool" where
  "event_wf ev \<longleftrightarrow>
     length (ev_detail ev) = FDIR_DETAIL_SIZE \<and> terminated (ev_detail ev) \<and>
     (ev_level ev = FDIR_LEVEL_SUBSYSTEM \<longrightarrow>
        ev_kind ev = FDIR_EVENT_FAILURE \<and>
        ev_anomaly_id ev = FDIR_SUBSYSTEM_ANOMALY_ID (ev_subsystem ev) (ev_reason ev)) \<and>
     (ev_level ev \<noteq> FDIR_LEVEL_SUBSYSTEM \<longrightarrow>
        ev_subsystem ev = FDIR_SUBSYSTEM_NONE \<and>
        ev_severity ev = severity_for_event (ev_kind ev) (ev_reason ev) (ev_mode ev) \<and>
        ev_anomaly_id ev =
          (if ev_entity ev = FDIR_ENTITY_NONE then 0 else FDIR_ANOMALY_ID (ev_entity ev) (ev_reason ev))) \<and>
     (ev_kind ev = FDIR_EVENT_MODE_CHANGE \<longrightarrow> ev_level ev = FDIR_LEVEL_SYSTEM)"

lemma zero_event_detail [simp]: "ev_detail zero_event = zero_buf 32"
  by (simp add: zero_event_def)

lemma zero_event_anomaly [simp]: "ev_anomaly_id zero_event = 0"
  by (simp add: zero_event_def)

text \<open>The events the two emitters build, with \<open>t\<close> the clock reading.\<close>

definition full_event ::
  "fdir_event_kind \<Rightarrow> fdir_mode \<Rightarrow> fdir_entity_id \<Rightarrow> fdir_reason \<Rightarrow> u16 \<Rightarrow> fdir_level
     \<Rightarrow> fdir_anomaly_phase \<Rightarrow> string option \<Rightarrow> u32 \<Rightarrow> fdir_event \<Rightarrow> bool" where
  "full_event kind mode entity reason code level phase detail t ev \<longleftrightarrow>
     ev_kind ev = kind \<and> ev_mode ev = mode \<and> ev_entity ev = entity \<and> ev_reason ev = reason \<and>
     ev_error_code ev = code \<and> ev_level ev = level \<and> ev_phase ev = phase \<and> ev_timestamp_ms ev = t \<and>
     ev_subsystem ev = FDIR_SUBSYSTEM_NONE \<and>
     ev_severity ev = severity_for_event kind reason mode \<and>
     ev_anomaly_id ev = (if entity = FDIR_ENTITY_NONE then 0 else FDIR_ANOMALY_ID entity reason) \<and>
     length (ev_detail ev) = 32 \<and> terminated (ev_detail ev) \<and>
     cstr (ev_detail ev) = (case detail of None \<Rightarrow> [] | Some d \<Rightarrow> take 31 (cstr d))"

definition sub_event ::
  "fdir_mode \<Rightarrow> fdir_subsystem_id \<Rightarrow> fdir_entity_id \<Rightarrow> fdir_reason \<Rightarrow> u16 \<Rightarrow> fdir_anomaly_phase
     \<Rightarrow> string option \<Rightarrow> u32 \<Rightarrow> fdir_event \<Rightarrow> bool" where
  "sub_event mode sub entity reason code phase detail t ev \<longleftrightarrow>
     ev_kind ev = FDIR_EVENT_FAILURE \<and> ev_mode ev = mode \<and> ev_entity ev = entity \<and>
     ev_reason ev = reason \<and> ev_error_code ev = code \<and> ev_level ev = FDIR_LEVEL_SUBSYSTEM \<and>
     ev_phase ev = phase \<and> ev_subsystem ev = sub \<and> ev_timestamp_ms ev = t \<and>
     ev_anomaly_id ev = FDIR_SUBSYSTEM_ANOMALY_ID sub reason \<and>
     length (ev_detail ev) = 32 \<and> terminated (ev_detail ev) \<and>
     cstr (ev_detail ev) = (case detail of None \<Rightarrow> [] | Some d \<Rightarrow> take 31 (cstr d))"

text \<open>Both emitters read the clock once and hand over one event.\<close>

lemma stamp_emit_keeps:
  assumes "\<And>t. P t (mk t)"
  shows "keeps (Option.bind (fdir_get_now_ms s) (\<lambda>(t, s). fdir_emit_event (mk t) s))
     (\<lambda>s'. \<exists>t e e' ev. s' = ext (Call_emit ev) e' (ext (Call_now t) e s) \<and> P t ev)"
proof (rule keeps_bindI [OF get_now_keeps])
  fix r :: "u32 \<times> 'a fdir"
  assume "case r of (t, s') \<Rightarrow> \<exists>e. s' = ext (Call_now t) e s"
  then obtain t e where r: "r = (t, ext (Call_now t) e s)" by auto
  show "keeps (case r of (t, s) \<Rightarrow> fdir_emit_event (mk t) s)
     (\<lambda>s'. \<exists>t e e' ev. s' = ext (Call_emit ev) e' (ext (Call_now t) e s) \<and> P t ev)"
    unfolding r prod.case by (rule keeps_mono [OF emit_keeps]) (use assms in blast)
qed

lemma emit_event_full_keeps:
  "keeps (emit_event_full kind mode entity reason code level phase detail s)
     (\<lambda>s'. \<exists>t e e' ev. s' = ext (Call_emit ev) e' (ext (Call_now t) e s) \<and>
        full_event kind mode entity reason code level phase detail t ev)"
proof -
  obtain b where b: "copy_detail (zero_buf 32) detail = Some b" "length b = 32" "terminated b"
    "cstr b = (case detail of None \<Rightarrow> [] | Some d \<Rightarrow> take 31 (cstr d))"
    by (rule copy_detail_32 [OF length_zero_buf])
  define mk where "mk t = zero_event\<lparr>ev_kind := kind, ev_mode := mode, ev_entity := entity,
      ev_reason := reason, ev_error_code := code, ev_timestamp_ms := t, ev_level := level,
      ev_phase := phase, ev_subsystem := FDIR_SUBSYSTEM_NONE,
      ev_severity := severity_for_event kind reason mode,
      ev_anomaly_id := (if entity = FDIR_ENTITY_NONE then 0 else FDIR_ANOMALY_ID entity reason),
      ev_detail := b\<rparr>" for t
  have mk: "full_event kind mode entity reason code level phase detail t (mk t)" for t
    using b by (simp add: full_event_def mk_def)
  have eq: "emit_event_full kind mode entity reason code level phase detail s =
      Option.bind (fdir_get_now_ms s) (\<lambda>(t, s). fdir_emit_event (mk t) s)"
    using b by (cases "entity = FDIR_ENTITY_NONE")
      (simp_all add: emit_event_full_def fdir_internal_emit_event_def mk_def zero_event_def)
  show ?thesis
    unfolding eq by (rule stamp_emit_keeps) (rule mk)
qed

lemma emit_subsystem_state_keeps:
  "keeps (fdir_internal_emit_subsystem_state sub entity reason code phase detail s)
     (\<lambda>s'. \<exists>t e e' ev. s' = ext (Call_emit ev) e' (ext (Call_now t) e s) \<and>
        sub_event (g_mode s) sub entity reason code phase detail t ev)"
proof -
  obtain b where b: "copy_detail (zero_buf 32) detail = Some b" "length b = 32" "terminated b"
    "cstr b = (case detail of None \<Rightarrow> [] | Some d \<Rightarrow> take 31 (cstr d))"
    by (rule copy_detail_32 [OF length_zero_buf])
  define sev where "sev = (if phase = FDIR_ANOMALY_CLEARED then FDIR_SEVERITY_INFO
          else case detail of
                 None \<Rightarrow> FDIR_SEVERITY_WARNING
               | Some d \<Rightarrow>
                   if cstr d = ''unavailable'' \<or> cstr d = ''policy_override''
                   then FDIR_SEVERITY_ERROR else FDIR_SEVERITY_WARNING)"
  define mk where "mk t = zero_event\<lparr>ev_kind := FDIR_EVENT_FAILURE, ev_mode := g_mode s,
      ev_entity := entity, ev_subsystem := sub, ev_reason := reason, ev_error_code := code,
      ev_timestamp_ms := t, ev_level := FDIR_LEVEL_SUBSYSTEM, ev_phase := phase, ev_severity := sev,
      ev_anomaly_id := FDIR_SUBSYSTEM_ANOMALY_ID sub reason, ev_detail := b\<rparr>" for t
  have eq: "fdir_internal_emit_subsystem_state sub entity reason code phase detail s =
      Option.bind (fdir_get_now_ms s) (\<lambda>(t, s). fdir_emit_event (mk t) s)"
    using b by (simp add: fdir_internal_emit_subsystem_state_def fdir_internal_emit_event_def mk_def
        sev_def [symmetric])
  show ?thesis
    unfolding eq by (rule stamp_emit_keeps) (use b in \<open>simp add: sub_event_def mk_def\<close>)
qed

lemma emits_return:
  assumes "port_inv s" "g_port_ready s"
  shows "returns (emit_event_full kind mode entity reason code level phase detail s) (\<lambda>_. True)"
    and "returns (fdir_internal_emit_subsystem_state sub entity reason code phase detail s) (\<lambda>_. True)"
proof -
  obtain t e where now: "fdir_get_now_ms s = Some (t, ext (Call_now t) e s)"
    using get_now_returns [OF assms] by (auto simp: returns_def)
  obtain b where b: "copy_detail (zero_buf 32) detail = Some b"
    by (rule copy_detail_32 [OF length_zero_buf])
  have "returns (fdir_emit_event ev (ext (Call_now t) e s)) (\<lambda>_. True)" for ev
    using assms by (intro emit_returns [THEN returns_mono]) (simp_all add: port_inv_def)
  with now b show "returns (emit_event_full kind mode entity reason code level phase detail s) (\<lambda>_. True)"
    and "returns (fdir_internal_emit_subsystem_state sub entity reason code phase detail s) (\<lambda>_. True)"
    by (simp_all add: emit_event_full_def fdir_internal_emit_subsystem_state_def
        fdir_internal_emit_event_def Let_def)
qed

lemma full_event_wf:
  "full_event kind mode entity reason code level phase detail t ev \<Longrightarrow> level \<noteq> FDIR_LEVEL_SUBSYSTEM \<Longrightarrow>
   (kind = FDIR_EVENT_MODE_CHANGE \<longrightarrow> level = FDIR_LEVEL_SYSTEM) \<Longrightarrow> event_wf ev"
  by (simp add: full_event_def event_wf_def)

lemma sub_event_wf: "sub_event mode sub entity reason code phase detail t ev \<Longrightarrow> event_wf ev"
  by (simp add: sub_event_def event_wf_def)

end
