(* ===== verification/Subsystem.thy ===== *)
theory Subsystem
  imports Events
begin

text \<open>
  \<open>src/subsystem.c\<close>: the table of subsystems, their availability and degradation marks, and the
  count of unavailable critical-path subsystems that drives the SAFE threshold. Functions that only
  touch the table work on its record; those that lock or emit events on the whole state.
\<close>

definition fdir_subsystems_init :: "'e subsystem_table \<Rightarrow> 'e subsystem_table" where
  "fdir_subsystems_init t =
     t\<lparr>g_subs := replicate FDIR_SUBSYSTEM_CAP zero_subsystem_slot, g_sub_count := 0\<rparr>"

text \<open>The inner \<open>None\<close> is the null pointer.\<close>

definition slot_of ::
  "fdir_subsystem_id \<Rightarrow> 'e subsystem_table \<Rightarrow> 'e fdir_subsystem_slot option option" where
  "slot_of sid t =
     (if sid \<ge> g_sub_count t then Some None
      else do {
        slot \<leftarrow> arr_get (g_subs t) (unat sid);
        Some (if ss_used slot = 0 then None else Some slot)
      })"

text \<open>The loop of \<open>fdir_subsystems_critical_unavailable_count\<close>, with its counters \<open>i\<close> and \<open>count\<close>.\<close>

function critical_count_loop :: "u8 \<Rightarrow> u8 \<Rightarrow> 'e subsystem_table \<Rightarrow> u8 option" where
  "critical_count_loop i count t =
     (if i < g_sub_count t then
        do {
          slot \<leftarrow> arr_get (g_subs t) (unat i);
          critical_count_loop (i + 1)
            (if ss_used slot \<noteq> 0 \<and> sd_is_critical_path (ss_desc slot) \<noteq> 0 \<and> ss_available slot = 0
             then count + 1 else count) t
        }
      else Some count)"
  by pat_completeness auto
termination
proof (relation "measure (\<lambda>(i, _, _). 256 - unat i)")
  fix i count :: u8 and t :: "'e subsystem_table" and slot
  assume "i < g_sub_count t"
  then have "unat (i + 1) = Suc (unat i)" by (rule unat_inc)
  then show "((i + 1, if ss_used slot \<noteq> 0 \<and> sd_is_critical_path (ss_desc slot) \<noteq> 0 \<and> ss_available slot = 0
      then count + 1 else count, t), (i, count, t)) \<in> measure (\<lambda>(i, _, _). 256 - unat i)"
    using unat_u8_bound [of i] by auto
qed simp

declare critical_count_loop.simps [simp del]

definition fdir_subsystems_critical_unavailable_count :: "'e subsystem_table \<Rightarrow> u8 option" where
  "fdir_subsystems_critical_unavailable_count t = critical_count_loop 0 0 t"

definition fdir_subsystem_register ::
  "'e fdir_subsystem_desc option \<Rightarrow> fdir_subsystem_id option \<Rightarrow> 'e fdir
     \<Rightarrow> ((fdir_status \<times> fdir_subsystem_id option) \<times> 'e fdir) option" where
  "fdir_subsystem_register desc out_id s =
     do {
       let s = fdir_port_sync_enter s;
       case desc of
         None \<Rightarrow> Some ((FDIR_ERR_PARAM, out_id), fdir_port_sync_exit s)
       | Some d \<Rightarrow>
           if out_id = None then Some ((FDIR_ERR_PARAM, out_id), fdir_port_sync_exit s)
           else if unat (g_sub_count (sb s)) \<ge> FDIR_SUBSYSTEM_CAP then
             Some ((FDIR_ERR_FULL, out_id), fdir_port_sync_exit s)
           else do {
             let sid = g_sub_count (sb s);
             slot \<leftarrow> arr_get (g_subs (sb s)) (unat sid);
             nm \<leftarrow> copy_detail (ss_name slot) (sd_name d);
             let slot = slot\<lparr>ss_name := nm,
                   ss_desc := zero_subsystem_desc\<lparr>sd_name := Some (cstr nm),
                     sd_is_critical_path := sd_is_critical_path d,
                     sd_on_entity_exhausted := sd_on_entity_exhausted d,
                     sd_user := sd_user d\<rparr>,
                   ss_used := 1, ss_available := 1, ss_degraded := 0\<rparr>;
             subs \<leftarrow> arr_set (g_subs (sb s)) (unat sid) slot;
             let s = s\<lparr>sb := (sb s)\<lparr>g_subs := subs, g_sub_count := sid + 1\<rparr>\<rparr>;
             Some ((FDIR_OK, Some sid), fdir_port_sync_exit s)
           }
     }"

definition fdir_subsystem_name :: "fdir_subsystem_id \<Rightarrow> 'e subsystem_table \<Rightarrow> string option" where
  "fdir_subsystem_name sid t =
     do {
       slot \<leftarrow> slot_of sid t;
       case slot of
         None \<Rightarrow> Some ''unknown''
       | Some sl \<Rightarrow> (case sd_name (ss_desc sl) of None \<Rightarrow> Some ''unnamed'' | Some n \<Rightarrow> Some n)
     }"

definition fdir_subsystem_is_available :: "fdir_subsystem_id \<Rightarrow> 'e subsystem_table \<Rightarrow> fdir_bool option" where
  "fdir_subsystem_is_available sid t =
     do {
       slot \<leftarrow> slot_of sid t;
       Some (case slot of None \<Rightarrow> 0 | Some sl \<Rightarrow> if ss_available sl \<noteq> 0 then 1 else 0)
     }"

definition fdir_subsystem_is_degraded :: "fdir_subsystem_id \<Rightarrow> 'e subsystem_table \<Rightarrow> fdir_bool option" where
  "fdir_subsystem_is_degraded sid t =
     do {
       slot \<leftarrow> slot_of sid t;
       Some (case slot of None \<Rightarrow> 0 | Some sl \<Rightarrow> if ss_degraded sl \<noteq> 0 then 1 else 0)
     }"

definition fdir_subsystem_is_critical_path ::
  "fdir_subsystem_id \<Rightarrow> 'e subsystem_table \<Rightarrow> fdir_bool option" where
  "fdir_subsystem_is_critical_path sid t =
     do {
       slot \<leftarrow> slot_of sid t;
       Some (case slot of None \<Rightarrow> 0 | Some sl \<Rightarrow> if sd_is_critical_path (ss_desc sl) \<noteq> 0 then 1 else 0)
     }"

definition fdir_subsystem_mark_available_unsafe ::
  "fdir_subsystem_id \<Rightarrow> 'e subsystem_table \<Rightarrow> 'e subsystem_table option" where
  "fdir_subsystem_mark_available_unsafe sid t =
     do {
       slot \<leftarrow> slot_of sid t;
       case slot of
         None \<Rightarrow> Some t
       | Some sl \<Rightarrow> do {
           subs \<leftarrow> arr_set (g_subs t) (unat sid) (sl\<lparr>ss_available := 1, ss_degraded := 0\<rparr>);
           Some (t\<lparr>g_subs := subs\<rparr>)
         }
     }"

definition fdir_subsystem_mark_unavailable_unsafe ::
  "fdir_subsystem_id \<Rightarrow> 'e subsystem_table \<Rightarrow> 'e subsystem_table option" where
  "fdir_subsystem_mark_unavailable_unsafe sid t =
     do {
       slot \<leftarrow> slot_of sid t;
       case slot of
         None \<Rightarrow> Some t
       | Some sl \<Rightarrow> do {
           subs \<leftarrow> arr_set (g_subs t) (unat sid) (sl\<lparr>ss_available := 0, ss_degraded := 1\<rparr>);
           Some (t\<lparr>g_subs := subs\<rparr>)
         }
     }"

definition fdir_subsystem_mark_degraded_unsafe ::
  "fdir_subsystem_id \<Rightarrow> 'e subsystem_table \<Rightarrow> 'e subsystem_table option" where
  "fdir_subsystem_mark_degraded_unsafe sid t =
     do {
       slot \<leftarrow> slot_of sid t;
       case slot of
         None \<Rightarrow> Some t
       | Some sl \<Rightarrow> do {
           subs \<leftarrow> arr_set (g_subs t) (unat sid) (sl\<lparr>ss_degraded := 1\<rparr>);
           Some (t\<lparr>g_subs := subs\<rparr>)
         }
     }"

definition fdir_subsystem_mark_available :: "fdir_subsystem_id \<Rightarrow> 'e fdir \<Rightarrow> 'e fdir option" where
  "fdir_subsystem_mark_available sid s =
     do {
       let s = fdir_port_sync_enter s;
       slot \<leftarrow> slot_of sid (sb s);
       s \<leftarrow> (if slot \<noteq> None then do {
                 t \<leftarrow> fdir_subsystem_mark_available_unsafe sid (sb s);
                 let s = s\<lparr>sb := t\<rparr>;
                 fdir_internal_emit_subsystem_state sid FDIR_ENTITY_NONE FDIR_REASON_USER 0
                   FDIR_ANOMALY_CLEARED (Some ''available'') s
               } else Some s);
       Some (fdir_port_sync_exit s)
     }"

definition fdir_subsystem_mark_unavailable :: "fdir_subsystem_id \<Rightarrow> 'e fdir \<Rightarrow> 'e fdir option" where
  "fdir_subsystem_mark_unavailable sid s =
     do {
       let s = fdir_port_sync_enter s;
       slot \<leftarrow> slot_of sid (sb s);
       s \<leftarrow> (if slot \<noteq> None then do {
                 t \<leftarrow> fdir_subsystem_mark_unavailable_unsafe sid (sb s);
                 let s = s\<lparr>sb := t\<rparr>;
                 fdir_internal_emit_subsystem_state sid FDIR_ENTITY_NONE FDIR_REASON_USER 0
                   FDIR_ANOMALY_RAISED (Some ''unavailable'') s
               } else Some s);
       Some (fdir_port_sync_exit s)
     }"

definition fdir_subsystem_mark_degraded :: "fdir_subsystem_id \<Rightarrow> 'e fdir \<Rightarrow> 'e fdir option" where
  "fdir_subsystem_mark_degraded sid s =
     do {
       let s = fdir_port_sync_enter s;
       slot \<leftarrow> slot_of sid (sb s);
       s \<leftarrow> (if slot \<noteq> None then do {
                 t \<leftarrow> fdir_subsystem_mark_degraded_unsafe sid (sb s);
                 let s = s\<lparr>sb := t\<rparr>;
                 fdir_internal_emit_subsystem_state sid FDIR_ENTITY_NONE FDIR_REASON_USER 0
                   FDIR_ANOMALY_RAISED (Some ''degraded'') s
               } else Some s);
       Some (fdir_port_sync_exit s)
     }"

definition fdir_subsystem_on_entity_exhausted ::
  "fdir_subsystem_id \<Rightarrow> fdir_entity_id \<Rightarrow> fdir_failure_report \<Rightarrow> 'e fdir
     \<Rightarrow> (fdir_action \<times> 'e fdir) option" where
  "fdir_subsystem_on_entity_exhausted sub entity report s =
     do {
       slot \<leftarrow> slot_of sub (sb s);
       case slot of
         None \<Rightarrow> Some (FDIR_ACTION_NONE, s)
       | Some sl \<Rightarrow>
           (case sd_on_entity_exhausted (ss_desc sl) of
              None \<Rightarrow> Some (FDIR_ACTION_NONE, s)
            | Some f \<Rightarrow>
                (case f sub entity report (sd_user (ss_desc sl)) (env s) of
                   (a, e) \<Rightarrow>
                     Some (a, ext (Call_exhausted sub entity report (sd_user (ss_desc sl)) a) e s)))
     }"


subsection \<open>Invariant\<close>

definition subs_inv :: "'e subsystem_table \<Rightarrow> bool" where
  "subs_inv t \<longleftrightarrow>
     length (g_subs t) = FDIR_SUBSYSTEM_CAP \<and>
     unat (g_sub_count t) \<le> FDIR_SUBSYSTEM_CAP \<and>
     (\<forall>i < FDIR_SUBSYSTEM_CAP. length (ss_name (g_subs t ! i)) = FDIR_NAME_SIZE) \<and>
     (\<forall>i < unat (g_sub_count t). ss_used (g_subs t ! i) = 1)"

definition known_sub :: "fdir_subsystem_id \<Rightarrow> 'e subsystem_table \<Rightarrow> bool" where
  "known_sub sid t \<longleftrightarrow> sid < g_sub_count t"

text \<open>The critical-path subsystems that are out of service.\<close>

definition critical_down :: "'e subsystem_table \<Rightarrow> nat set" where
  "critical_down t =
     {i. i < unat (g_sub_count t) \<and> sd_is_critical_path (ss_desc (g_subs t ! i)) \<noteq> 0 \<and>
         ss_available (g_subs t ! i) = 0}"

lemma subs_inv_zero [simp]: "subs_inv zero_subsystems"
  by (simp add: subs_inv_def zero_subsystems_def zero_subsystem_slot_def zero_buf_def)

lemma subs_inv_init [simp]: "subs_inv (fdir_subsystems_init t)"
  by (simp add: subs_inv_def fdir_subsystems_init_def zero_subsystem_slot_def zero_buf_def)

lemma known_sub_index: "subs_inv t \<Longrightarrow> known_sub sid t \<Longrightarrow> unat sid < length (g_subs t)"
  by (auto simp: subs_inv_def known_sub_def word_less_nat_alt)

lemma slot_of_eq:
  "subs_inv t \<Longrightarrow> slot_of sid t = Some (if known_sub sid t then Some (g_subs t ! unat sid) else None)"
  using known_sub_index [of t sid]
  by (auto simp: slot_of_def known_sub_def subs_inv_def word_less_nat_alt not_le)

lemma subs_inv_update:
  assumes "subs_inv t" "length (ss_name sl) = FDIR_NAME_SIZE" "ss_used sl = 1"
  shows "subs_inv (t\<lparr>g_subs := (g_subs t)[i := sl]\<rparr>)"
  using assms by (auto simp: subs_inv_def nth_list_update_if)

lemma subs_inv_slot:
  assumes "subs_inv t" "known_sub sid t"
  shows "length (ss_name (g_subs t ! unat sid)) = 32" "ss_used (g_subs t ! unat sid) = 1"
  using assms by (auto simp: subs_inv_def known_sub_def word_less_nat_alt)


subsection \<open>Marks\<close>

lemmas sub_marks =
  fdir_subsystem_mark_available_unsafe_def fdir_subsystem_mark_unavailable_unsafe_def
  fdir_subsystem_mark_degraded_unsafe_def

lemma mark_available_eq:
  "subs_inv t \<Longrightarrow> fdir_subsystem_mark_available_unsafe sid t =
     Some (if known_sub sid t
           then t\<lparr>g_subs := (g_subs t)[unat sid := (g_subs t ! unat sid)\<lparr>ss_available := 1, ss_degraded := 0\<rparr>]\<rparr>
           else t)"
  using known_sub_index [of t sid] by (simp add: sub_marks slot_of_eq)

lemma mark_unavailable_eq:
  "subs_inv t \<Longrightarrow> fdir_subsystem_mark_unavailable_unsafe sid t =
     Some (if known_sub sid t
           then t\<lparr>g_subs := (g_subs t)[unat sid := (g_subs t ! unat sid)\<lparr>ss_available := 0, ss_degraded := 1\<rparr>]\<rparr>
           else t)"
  using known_sub_index [of t sid] by (simp add: sub_marks slot_of_eq)

lemma mark_degraded_eq:
  "subs_inv t \<Longrightarrow> fdir_subsystem_mark_degraded_unsafe sid t =
     Some (if known_sub sid t
           then t\<lparr>g_subs := (g_subs t)[unat sid := (g_subs t ! unat sid)\<lparr>ss_degraded := 1\<rparr>]\<rparr>
           else t)"
  using known_sub_index [of t sid] by (simp add: sub_marks slot_of_eq)

text \<open>A mark touches the availability and degradation of one slot and nothing else.\<close>

definition same_subs :: "'e subsystem_table \<Rightarrow> 'e subsystem_table \<Rightarrow> bool" where
  "same_subs t t' \<longleftrightarrow>
     g_sub_count t' = g_sub_count t \<and> map ss_desc (g_subs t') = map ss_desc (g_subs t)"

lemma same_subs_refl [simp]: "same_subs t t"
  by (simp add: same_subs_def)

lemma same_subs_trans: "same_subs t u \<Longrightarrow> same_subs u v \<Longrightarrow> same_subs t v"
  by (simp add: same_subs_def)

lemma same_subs_update:
  "ss_desc sl = ss_desc (g_subs t ! i) \<Longrightarrow> same_subs t (t\<lparr>g_subs := (g_subs t)[i := sl]\<rparr>)"
  by (cases "i < length (g_subs t)") (simp_all add: same_subs_def map_update list_update_same_conv list_update_beyond)

lemma marks_return:
  assumes "subs_inv t"
  shows "returns (fdir_subsystem_mark_available_unsafe sid t) (\<lambda>t'. subs_inv t' \<and> same_subs t t')"
    and "returns (fdir_subsystem_mark_unavailable_unsafe sid t) (\<lambda>t'. subs_inv t' \<and> same_subs t t')"
    and "returns (fdir_subsystem_mark_degraded_unsafe sid t) (\<lambda>t'. subs_inv t' \<and> same_subs t t')"
  using assms subs_inv_slot [OF assms]
  by (auto simp: mark_available_eq mark_unavailable_eq mark_degraded_eq
      intro!: subs_inv_update same_subs_update)


subsection \<open>The critical-path count\<close>

lemma critical_down_finite: "finite (critical_down t)"
  by (rule finite_subset [of _ "{..<unat (g_sub_count t)}"]) (auto simp: critical_down_def)

lemma critical_down_step:
  "card {j \<in> critical_down t. k \<le> j} =
     (if k \<in> critical_down t then 1 else 0) + card {j \<in> critical_down t. Suc k \<le> j}"
proof (cases "k \<in> critical_down t")
  case True
  then have "{j \<in> critical_down t. k \<le> j} = insert k {j \<in> critical_down t. Suc k \<le> j}" by auto
  with True critical_down_finite [of t] show ?thesis by simp
next
  case False
  then have "{j \<in> critical_down t. k \<le> j} = {j \<in> critical_down t. Suc k \<le> j}"
    using le_Suc_eq by (metis (no_types, lifting) Suc_le_eq nat_less_le)
  with False show ?thesis by simp
qed

lemma critical_count_loop_card:
  "subs_inv t \<Longrightarrow> unat i \<le> unat (g_sub_count t) \<Longrightarrow> unat count \<le> unat i \<Longrightarrow>
   returns (critical_count_loop i count t)
     (\<lambda>n. unat n = unat count + card {j \<in> critical_down t. unat i \<le> j})"
proof (induction i count t rule: critical_count_loop.induct)
  case (1 i count t)
  show ?case
  proof (cases "i < g_sub_count t")
    case False
    then have "{j \<in> critical_down t. unat i \<le> j} = {}"
      by (auto simp: critical_down_def word_less_nat_alt)
    with False show ?thesis by (simp only: critical_count_loop.simps [of i count t]) simp
  next
    case True
    let ?slot = "g_subs t ! unat i"
    let ?hit = "ss_used ?slot \<noteq> 0 \<and> sd_is_critical_path (ss_desc ?slot) \<noteq> 0 \<and> ss_available ?slot = 0"
    let ?count = "if ?hit then count + 1 else count"
    have known: "known_sub i t" using True by (simp add: known_sub_def)
    have get: "arr_get (g_subs t) (unat i) = Some ?slot"
      using known_sub_index [OF "1.prems"(1) known] by simp
    have i: "unat (i + 1) = Suc (unat i)" using True by (rule unat_inc)
    have lt: "unat i < unat (g_sub_count t)" using True by (simp add: word_less_nat_alt)
    have hit: "?hit \<longleftrightarrow> unat i \<in> critical_down t"
      using subs_inv_slot(2) [OF "1.prems"(1) known] lt by (simp add: critical_down_def)
    have c: "unat ?count = unat count + (if unat i \<in> critical_down t then 1 else 0)"
      unfolding hit
      using "1.prems"(3) lt unat_u8_bound [of "g_sub_count t"] by (simp add: unat_word_ariths)
    have "returns (critical_count_loop (i + 1) ?count t)
       (\<lambda>n. unat n = unat ?count + card {j \<in> critical_down t. unat (i + 1) \<le> j})"
      using "1.prems" lt i c by (intro "1.IH" [OF True get]) auto
    then have "returns (critical_count_loop (i + 1) ?count t)
       (\<lambda>n. unat n = unat count + card {j \<in> critical_down t. unat i \<le> j})"
      by (rule returns_mono) (simp only: c i critical_down_step [of t "unat i"] add.assoc)
    then show ?thesis
      by (simp only: critical_count_loop.simps [of i count t] True get if_True Option.bind.simps)
  qed
qed

lemma critical_count_card:
  assumes "subs_inv t"
  shows "returns (fdir_subsystems_critical_unavailable_count t) (\<lambda>n. unat n = card (critical_down t))"
  using critical_count_loop_card [OF assms, of 0 0]
  by (simp add: fdir_subsystems_critical_unavailable_count_def)

subsection \<open>Properties\<close>

text \<open>
  \<open>fdir_subsystems_critical_unavailable_count\<close> counts: its loop over the 8-bit index returns,
  without leaving the table, the number of registered critical-path subsystems that are unavailable.
\<close>

theorem critical_unavailable_count_spec:
  assumes "subs_inv t"
  shows "returns (fdir_subsystems_critical_unavailable_count t)
     (\<lambda>n. unat n = card (critical_down t) \<and> unat n \<le> FDIR_SUBSYSTEM_CAP)"
proof -
  have "card (critical_down t) \<le> card {..<unat (g_sub_count t)}"
    by (rule card_mono) (auto simp: critical_down_def)
  also have "\<dots> \<le> 8" using assms by (simp add: subs_inv_def)
  finally show ?thesis by (auto intro: returns_mono [OF critical_count_card [OF assms]])
qed

definition one_critical_down :: "unit subsystem_table" where
  "one_critical_down =
     zero_subsystems\<lparr>g_sub_count := 1,
       g_subs := (g_subs zero_subsystems)[0 := zero_subsystem_slot\<lparr>ss_used := 1,
         ss_desc := zero_subsystem_desc\<lparr>sd_is_critical_path := 1\<rparr>\<rparr>]\<rparr>"

lemma one_critical_down_facts: "subs_inv one_critical_down" "critical_down one_critical_down = {0}"
  by (auto simp: one_critical_down_def subs_inv_def zero_subsystems_def zero_subsystem_slot_def
      critical_down_def nth_list_update_if)

theorem critical_unavailable_count_spec_witness:
  "subs_inv one_critical_down \<and>
   returns (fdir_subsystems_critical_unavailable_count one_critical_down) (\<lambda>n. unat n = 1)"
  using returns_mono [OF critical_unavailable_count_spec [OF one_critical_down_facts(1)], of "\<lambda>n. unat n = 1"]
    one_critical_down_facts
  by simp

text \<open>
  C21. The marks and the queries of a subsystem agree: marking available, unavailable or degraded is
  what the three queries read afterwards for that subsystem, an unavailable one counts as degraded,
  and every other subsystem reads as before. Marks on an unknown subsystem change nothing.
\<close>

definition sub_state :: "fdir_subsystem_id \<Rightarrow> 'e subsystem_table \<Rightarrow> (fdir_bool \<times> fdir_bool \<times> fdir_bool) option" where
  "sub_state sid t =
     do {
       a \<leftarrow> fdir_subsystem_is_available sid t;
       d \<leftarrow> fdir_subsystem_is_degraded sid t;
       c \<leftarrow> fdir_subsystem_is_critical_path sid t;
       Some (a, d, c)
     }"

theorem marks_read_back:
  assumes "subs_inv t"
  shows "returns (fdir_subsystem_mark_available_unsafe sid t) (\<lambda>t'. \<forall>k. sub_state k t' =
       (if k = sid \<and> known_sub sid t then map_option (\<lambda>(_, _, c). (1, 0, c)) (sub_state k t) else sub_state k t)) \<and>
     returns (fdir_subsystem_mark_unavailable_unsafe sid t) (\<lambda>t'. \<forall>k. sub_state k t' =
       (if k = sid \<and> known_sub sid t then map_option (\<lambda>(_, _, c). (0, 1, c)) (sub_state k t) else sub_state k t)) \<and>
     returns (fdir_subsystem_mark_degraded_unsafe sid t) (\<lambda>t'. \<forall>k. sub_state k t' =
       (if k = sid \<and> known_sub sid t then map_option (\<lambda>(a, _, c). (a, 1, c)) (sub_state k t) else sub_state k t))"
proof -
  have read: "sub_state k u = Some (if known_sub k u
      then (let sl = g_subs u ! unat k in (if ss_available sl \<noteq> 0 then 1 else 0, if ss_degraded sl \<noteq> 0 then 1 else 0,
         if sd_is_critical_path (ss_desc sl) \<noteq> 0 then 1 else 0))
      else (0, 0, 0))" if "subs_inv u" for k and u :: "'a subsystem_table"
    using slot_of_eq [OF that, of k]
    by (simp add: sub_state_def fdir_subsystem_is_available_def fdir_subsystem_is_degraded_def
        fdir_subsystem_is_critical_path_def Let_def)
  have upd: "sub_state k (t\<lparr>g_subs := (g_subs t)[unat sid := sl]\<rparr>) =
      (if k = sid then Some (if ss_available sl \<noteq> 0 then 1 else 0, if ss_degraded sl \<noteq> 0 then 1 else 0,
         if sd_is_critical_path (ss_desc sl) \<noteq> 0 then 1 else 0) else sub_state k t)"
    if "known_sub sid t" "length (ss_name sl) = 32" "ss_used sl = 1" for k sl
    using that read [OF assms, of k] read [OF subs_inv_update [OF assms that(2,3), of "unat sid"], of k]
      known_sub_index [OF assms that(1)]
    by (cases "k = sid", simp add: known_sub_def Let_def)
      (auto simp: known_sub_def Let_def nth_list_update_if dest: word_unat_eq_iff [THEN iffD2])
  have sl: "known_sub sid t \<Longrightarrow> length (ss_name (g_subs t ! unat sid)) = 32"
    "known_sub sid t \<Longrightarrow> ss_used (g_subs t ! unat sid) = 1"
    using subs_inv_slot [OF assms] by simp_all
  show ?thesis
    using sl read [OF assms, of sid]
    by (intro conjI; cases "known_sub sid t")
      (simp_all add: mark_available_eq [OF assms] mark_unavailable_eq [OF assms] mark_degraded_eq [OF assms]
        upd Let_def)
qed

theorem marks_read_back_witness:
  "subs_inv one_critical_down \<and>
   returns (fdir_subsystem_mark_available_unsafe 0 one_critical_down)
     (\<lambda>t'. sub_state 0 t' = Some (1, 0, 1))"
proof -
  have "sub_state 0 one_critical_down = Some (0, 0, 1)" "known_sub 0 one_critical_down"
    by (simp_all add: sub_state_def fdir_subsystem_is_available_def fdir_subsystem_is_degraded_def
        fdir_subsystem_is_critical_path_def slot_of_def one_critical_down_def zero_subsystems_def
        zero_subsystem_slot_def zero_subsystem_desc_def known_sub_def)
  then show ?thesis
    using one_critical_down_facts(1)
      returns_mono [OF conjunct1 [OF marks_read_back [OF one_critical_down_facts(1), of 0]],
        of "\<lambda>t'. sub_state 0 t' = Some (1, 0, 1)"]
    by simp
qed

end
