(* ===== verification/Contracts.thy ===== *)
theory Contracts
  imports Failure_Queue Health Subsystem
begin

text \<open>
  The invariant of the library's state, the vocabulary for the call history, and the two-state
  contract \<open>rec_step\<close> that every function running under the lock satisfies. The interface
  \<open>two_state\<close> collects the rules that compose such contracts along a computation; it is used with
  \<open>rec_step\<close> here and with the contract of whole API calls later.
\<close>

subsection \<open>The invariant\<close>

definition ents_inv :: "'e fdir \<Rightarrow> bool" where
  "ents_inv s \<longleftrightarrow>
     length (g_entities s) = FDIR_ENTITY_CAP \<and>
     unat (g_entity_count s) \<le> FDIR_ENTITY_CAP \<and>
     (\<forall>i < FDIR_ENTITY_CAP. length (es_name (g_entities s ! i)) = FDIR_NAME_SIZE) \<and>
     (\<forall>i < unat (g_entity_count s).
        es_used (g_entities s ! i) = 1 \<and>
        ed_on_exhausted (es_desc (g_entities s ! i)) \<noteq> FDIR_ACTION_RESTART)"

definition fdir_inv :: "'e fdir \<Rightarrow> bool" where
  "fdir_inv s \<longleftrightarrow>
     port_inv s \<and> queue_inv (fq s) \<and> health_inv (hl s) \<and> subs_inv (sb s) \<and> ents_inv s \<and>
     mode_ok (g_mode s) \<and> g_entity_limit (hl s) = g_entity_count s"

lemma fdir_invD:
  assumes "fdir_inv s"
  shows "port_inv s" "queue_inv (fq s)" "health_inv (hl s)" "subs_inv (sb s)" "ents_inv s"
    "mode_ok (g_mode s)" "g_entity_limit (hl s) = g_entity_count s"
  using assms by (simp_all add: fdir_inv_def)

lemma fdir_inv_boot: "fdir_inv (fdir_boot e)"
  by (simp add: fdir_inv_def fdir_boot_def port_inv_def ents_inv_def mode_ok_cases zero_health_def
      zero_entity_slot_def health_inv_zero [unfolded zero_health_def])

lemma fdir_inv_outside: "outside s s' \<Longrightarrow> fdir_inv s' = fdir_inv s"
  by (simp add: outside_iff fdir_inv_def port_inv_def ents_inv_def)

lemma fdir_inv_sync [simp]:
  "fdir_inv (fdir_port_sync_enter s) = fdir_inv s"
  "fdir_inv (fdir_port_sync_exit s) = fdir_inv s"
  by (simp_all add: fdir_inv_outside [OF outside_enter] fdir_inv_outside [OF outside_exit])

definition registered :: "fdir_entity_id \<Rightarrow> 'e fdir \<Rightarrow> bool" where
  "registered eid s \<longleftrightarrow> eid < g_entity_count s"

lemma registered_tracked: "fdir_inv s \<Longrightarrow> registered eid s \<longleftrightarrow> tracked eid (hl s)"
  by (simp add: fdir_inv_def registered_def tracked_def)

lemma registered_index: "fdir_inv s \<Longrightarrow> registered eid s \<Longrightarrow> unat eid < length (g_entities s)"
  by (auto simp: fdir_inv_def ents_inv_def registered_def word_less_nat_alt)

lemma registered_slot:
  assumes "fdir_inv s" "registered eid s"
  shows "es_used (g_entities s ! unat eid) = 1"
    and "ed_on_exhausted (es_desc (g_entities s ! unat eid)) \<noteq> FDIR_ACTION_RESTART"
  using assms by (auto simp: fdir_inv_def ents_inv_def registered_def word_less_nat_alt)


subsection \<open>Reading the call history\<close>

text \<open>
  \<open>lock_run\<close> follows the port lock through a history: taking a held lock or releasing a free one
  is the value \<open>None\<close>. \<open>replay\<close> follows the mode through the MODE_CHANGE events.
\<close>

fun lock_run :: "bool \<Rightarrow> ext_call list \<Rightarrow> bool option" where
  "lock_run held [] = Some held"
| "lock_run held (Call_lock # cs) = (if held then None else lock_run True cs)"
| "lock_run held (Call_unlock # cs) = (if held then lock_run False cs else None)"
| "lock_run held (_ # cs) = lock_run held cs"

definition quiet :: "ext_call \<Rightarrow> bool" where
  "quiet c \<longleftrightarrow> c \<noteq> Call_lock \<and> c \<noteq> Call_unlock"

fun replay :: "fdir_mode \<Rightarrow> ext_call list \<Rightarrow> fdir_mode" where
  "replay m [] = m"
| "replay m (Call_emit ev # cs) =
     replay (if ev_kind ev = FDIR_EVENT_MODE_CHANGE then ev_mode ev else m) cs"
| "replay m (_ # cs) = replay m cs"

text \<open>Every event is well formed, carries the mode in force, and a MODE_CHANGE changes the mode.\<close>

fun events_ok :: "fdir_mode \<Rightarrow> ext_call list \<Rightarrow> bool" where
  "events_ok m [] = True"
| "events_ok m (Call_emit ev # cs) =
     (event_wf ev \<and> (ev_kind ev = FDIR_EVENT_MODE_CHANGE \<longleftrightarrow> ev_mode ev \<noteq> m) \<and>
      events_ok (ev_mode ev) cs)"
| "events_ok m (_ # cs) = events_ok m cs"

definition restarts :: "fdir_entity_id \<Rightarrow> ext_call list \<Rightarrow> nat" where
  "restarts eid cs = length (filter (\<lambda>c. case c of Call_restart i _ _ \<Rightarrow> i = eid | _ \<Rightarrow> False) cs)"

lemma lock_run_append:
  "lock_run h (xs @ ys) = Option.bind (lock_run h xs) (\<lambda>h. lock_run h ys)"
  by (induction h xs rule: lock_run.induct) auto

lemma lock_run_quiet: "list_all quiet cs \<Longrightarrow> lock_run h cs = Some h"
  by (induction h cs rule: lock_run.induct) (auto simp: quiet_def)

lemma replay_append: "replay m (xs @ ys) = replay (replay m xs) ys"
  by (induction m xs rule: replay.induct) auto

lemma events_ok_append:
  "events_ok m xs \<Longrightarrow> events_ok m (xs @ ys) \<longleftrightarrow> events_ok (replay m xs) ys"
  by (induction m xs rule: events_ok.induct) (auto split: if_splits)

lemma restarts_append [simp]: "restarts eid (xs @ ys) = restarts eid xs + restarts eid ys"
  by (simp add: restarts_def)

lemma restarts_Nil [simp]: "restarts eid [] = 0"
  by (simp add: restarts_def)


subsection \<open>Composing two-state contracts\<close>

locale two_state =
  fixes R :: "'s \<Rightarrow> 's \<Rightarrow> bool"
  assumes refl: "R s s"
    and trans: "R s t \<Longrightarrow> R t u \<Longrightarrow> R s u"
begin

lemma keeps_from: "R s t \<Longrightarrow> keeps m (R t) \<Longrightarrow> keeps m (R s)"
  by (auto simp: keeps_def intro: trans)

lemma keeps_from_pair: "R s t \<Longrightarrow> keeps m (\<lambda>(x, u). R t u) \<Longrightarrow> keeps m (\<lambda>(x, u). R s u)"
  by (auto simp: keeps_def intro: trans)

lemma keeps_seq:
  "keeps m (R s) \<Longrightarrow> (\<And>t. R s t \<Longrightarrow> keeps (k t) (R t)) \<Longrightarrow> keeps (Option.bind m k) (R s)"
  by (auto simp: keeps_def split: bind_splits intro: trans)

lemma keeps_seq_pair:
  "keeps m (\<lambda>(x, t). R s t) \<Longrightarrow> (\<And>x t. R s t \<Longrightarrow> keeps (k (x, t)) (R t)) \<Longrightarrow>
   keeps (Option.bind m k) (R s)"
  by (auto simp: keeps_def split: bind_splits intro: trans)

lemma keeps_seq_to_pair:
  "keeps m (R s) \<Longrightarrow> (\<And>t. R s t \<Longrightarrow> keeps (k t) (\<lambda>(x, u). R t u)) \<Longrightarrow>
   keeps (Option.bind m k) (\<lambda>(x, u). R s u)"
  by (fastforce simp: keeps_def split: bind_splits intro: trans)

lemma returns_seq:
  assumes "returns m Q" "keeps m (R s)" "\<And>t. R s t \<Longrightarrow> Q t \<Longrightarrow> returns (k t) P"
  shows "returns (Option.bind m k) P"
  using assms by (auto simp: returns_def keeps_def)

lemma returns_seq_pair:
  assumes "returns m Q" "keeps m (\<lambda>(x, t). R s t)" "\<And>x t. R s t \<Longrightarrow> Q (x, t) \<Longrightarrow> returns (k (x, t)) P"
  shows "returns (Option.bind m k) P"
  using assms by (auto simp: returns_def keeps_def)

end


subsection \<open>The contract of code that runs under the lock\<close>

text \<open>How the restart counters of two entity tables relate to the restart calls in between.\<close>

definition slot_counted :: "'e fdir_entity_slot \<Rightarrow> 'e fdir_entity_slot \<Rightarrow> nat \<Rightarrow> bool" where
  "slot_counted a b n \<longleftrightarrow>
     es_restart_count a \<le> es_restart_count b \<and>
     es_watchdog_restart_count a \<le> es_watchdog_restart_count b \<and>
     (es_restart_count b < 255 \<and> es_watchdog_restart_count b < 255 \<longrightarrow>
        unat (es_restart_count b) + unat (es_watchdog_restart_count b) =
        unat (es_restart_count a) + unat (es_watchdog_restart_count a) + n)"

definition counted :: "'e fdir_entity_slot list \<Rightarrow> 'e fdir_entity_slot list \<Rightarrow> ext_call list \<Rightarrow> bool" where
  "counted es es' cs \<longleftrightarrow>
     (\<forall>i. unat i < length es \<longrightarrow> slot_counted (es ! unat i) (es' ! unat i) (restarts i cs))"

text \<open>
  \<open>sys_step\<close> is what any code under the lock keeps; \<open>rec_step\<close> adds that the mode never goes down,
  which all code but the ground commands keeps.
\<close>

definition sys_step :: "'e fdir \<Rightarrow> 'e fdir \<Rightarrow> bool" where
  "sys_step s s' \<longleftrightarrow>
     g_port s' = g_port s \<and> g_port_ready s' = g_port_ready s \<and> g_config s' = g_config s \<and>
     fq s' = fq s \<and> g_supervision_enabled s' = g_supervision_enabled s \<and>
     g_entity_count s' = g_entity_count s \<and>
     map es_desc (g_entities s') = map es_desc (g_entities s) \<and>
     same_subs (sb s) (sb s') \<and>
     (fdir_inv s \<longrightarrow> fdir_inv s') \<and>
     (mode_ok (g_mode s) \<longrightarrow> mode_ok (g_mode s')) \<and>
     (\<exists>cs. calls s' = calls s @ cs \<and> list_all quiet cs \<and>
           events_ok (g_mode s) cs \<and> replay (g_mode s) cs = g_mode s' \<and>
           counted (g_entities s) (g_entities s') cs)"

definition rec_step :: "'e fdir \<Rightarrow> 'e fdir \<Rightarrow> bool" where
  "rec_step s s' \<longleftrightarrow> sys_step s s' \<and> (mode_ok (g_mode s) \<longrightarrow> g_mode s \<le> g_mode s')"

lemma slot_counted_refl [simp]: "slot_counted a a 0"
  by (simp add: slot_counted_def)

lemma slot_counted_trans: "slot_counted a b m \<Longrightarrow> slot_counted b c n \<Longrightarrow> slot_counted a c (m + n)"
  unfolding slot_counted_def by (auto dest: le_less_trans)

lemma counted_refl [simp]: "counted es es []"
  by (simp add: counted_def)

lemma counted_trans:
  "counted es es' cs \<Longrightarrow> counted es' es'' cs' \<Longrightarrow> length es' = length es \<Longrightarrow> counted es es'' (cs @ cs')"
  by (simp add: counted_def) (blast intro: slot_counted_trans)

lemma sys_step_length: "sys_step s s' \<Longrightarrow> length (g_entities s') = length (g_entities s)"
  unfolding sys_step_def by (metis length_map)

interpretation sys: two_state sys_step
proof unfold_locales
  fix s :: "'a fdir"
  show "sys_step s s"
    by (auto simp: sys_step_def intro: exI [of _ "[]"])
next
  fix s t u :: "'a fdir"
  assume st: "sys_step s t" and tu: "sys_step t u"
  obtain cs where cs: "calls t = calls s @ cs" "list_all quiet cs" "events_ok (g_mode s) cs"
    "replay (g_mode s) cs = g_mode t" "counted (g_entities s) (g_entities t) cs"
    using st by (auto simp: sys_step_def)
  obtain ds where ds: "calls u = calls t @ ds" "list_all quiet ds" "events_ok (g_mode t) ds"
    "replay (g_mode t) ds = g_mode u" "counted (g_entities t) (g_entities u) ds"
    using tu by (auto simp: sys_step_def)
  have "\<exists>es. calls u = calls s @ es \<and> list_all quiet es \<and> events_ok (g_mode s) es \<and>
          replay (g_mode s) es = g_mode u \<and> counted (g_entities s) (g_entities u) es"
    using cs ds sys_step_length [OF st]
    by (intro exI [of _ "cs @ ds"])
      (simp add: events_ok_append replay_append counted_trans)
  then show "sys_step s u"
    using st tu by (auto simp: sys_step_def intro: same_subs_trans)
qed

interpretation rec: two_state rec_step
proof unfold_locales
  fix s :: "'a fdir"
  show "rec_step s s" by (simp add: rec_step_def sys.refl)
next
  fix s t u :: "'a fdir"
  assume "rec_step s t" "rec_step t u"
  then show "rec_step s u"
    using sys.trans [of s t u] by (auto simp: rec_step_def sys_step_def [of s t])
qed

lemmas rec_step_refl [simp, intro] = rec.refl
lemmas rec_step_trans [trans] = rec.trans

lemma rec_sys: "rec_step s s' \<Longrightarrow> sys_step s s'"
  by (simp add: rec_step_def)

lemma keeps_rec_sys: "keeps m (rec_step s) \<Longrightarrow> keeps m (sys_step s)"
  by (erule keeps_mono) (rule rec_sys)

lemma sys_step_frame:
  assumes "sys_step s s'"
  shows "g_port s' = g_port s" "g_port_ready s' = g_port_ready s" "g_config s' = g_config s"
    "fq s' = fq s" "g_supervision_enabled s' = g_supervision_enabled s"
    "g_entity_count s' = g_entity_count s" "map es_desc (g_entities s') = map es_desc (g_entities s)"
    "same_subs (sb s) (sb s')" "fdir_inv s \<Longrightarrow> fdir_inv s'"
  using assms by (simp_all add: sys_step_def)

lemmas rec_step_frame = sys_step_frame [OF rec_sys]

text \<open>A call through a function pointer that is not a lock, an event or a restart.\<close>

lemma rec_step_ext:
  assumes "quiet c" "\<And>ev. c \<noteq> Call_emit ev" "\<And>i u r. c \<noteq> Call_restart i u r"
  shows "rec_step s (ext c e s)"
proof -
  have "events_ok (g_mode s) [c] \<and> replay (g_mode s) [c] = g_mode s"
    using assms(2) by (cases c) auto
  moreover have "restarts i [c] = 0" for i
    using assms(3) by (cases c) (auto simp: restarts_def)
  ultimately show ?thesis
    using assms(1) fdir_inv_outside [OF outside_ext [of s c e]]
    by (auto simp: rec_step_def sys_step_def counted_def)
qed

lemma rec_step_emit:
  assumes "event_wf ev" "ev_kind ev = FDIR_EVENT_MODE_CHANGE \<longleftrightarrow> ev_mode ev \<noteq> g_mode s"
    "ev_kind ev \<noteq> FDIR_EVENT_MODE_CHANGE"
  shows "rec_step s (ext (Call_emit ev) e s)"
  using assms fdir_inv_outside [OF outside_ext [of s "Call_emit ev" e]]
  by (auto simp: rec_step_def sys_step_def counted_def quiet_def restarts_def)

end
