(* ===== verification/Recovery.thy ===== *)
theory Recovery
  imports Contracts
begin

text \<open>
  The recovery engine of \<open>src/recovery.c\<close>: mode changes, the restart budget, the choice and the
  execution of a recovery action, and \<open>fdir_handle_failure\<close>. The functions named \<open>_unsafe\<close> and the
  static helpers run with the port lock held. A pointer to an entity slot is the entity's index:
  the slot is read and written in the table, as through \<open>&g_entities[id]\<close>.
\<close>

subsection \<open>Mode changes\<close>

definition notify_system_handler ::
  "fdir_mode \<Rightarrow> fdir_failure_report option \<Rightarrow> 'e fdir \<Rightarrow> 'e fdir" where
  "notify_system_handler mode report s =
     (let cfg = fdir_internal_get_config s in
      case on_system_escalation cfg of
        None \<Rightarrow> s
      | Some f \<Rightarrow> ext (Call_escalation mode FDIR_LEVEL_SYSTEM report (system_user cfg))
                     (f mode FDIR_LEVEL_SYSTEM report (system_user cfg) (env s)) s)"

definition set_mode ::
  "fdir_mode \<Rightarrow> fdir_entity_id \<Rightarrow> string option \<Rightarrow> fdir_failure_report option \<Rightarrow> 'e fdir \<Rightarrow> 'e fdir option" where
  "set_mode mode entity detail report s =
     (if g_mode s = mode then Some s
      else do {
        let s = s\<lparr>g_mode := mode\<rparr>;
        s \<leftarrow> emit_event_full FDIR_EVENT_MODE_CHANGE (g_mode s) entity FDIR_REASON_USER 0
               FDIR_LEVEL_SYSTEM FDIR_ANOMALY_RAISED detail s;
        Some (notify_system_handler (g_mode s) report s)
      })"

definition enter_degraded_mode_unsafe :: "'e fdir \<Rightarrow> 'e fdir option" where
  "enter_degraded_mode_unsafe s =
     (if g_mode s = FDIR_MODE_NOMINAL
      then set_mode FDIR_MODE_DEGRADED FDIR_ENTITY_NONE (Some ''degraded'') None s else Some s)"

definition enter_safe_mode_unsafe :: "'e fdir \<Rightarrow> 'e fdir option" where
  "enter_safe_mode_unsafe s =
     (if g_mode s \<noteq> FDIR_MODE_REBOOT_PENDING
      then set_mode FDIR_MODE_SAFE FDIR_ENTITY_NONE (Some ''safe'') None s else Some s)"

definition try_reboot_unsafe :: "string option \<Rightarrow> 'e fdir \<Rightarrow> 'e fdir option" where
  "try_reboot_unsafe reason s =
     do {
       let why = (case reason of None \<Rightarrow> ''reboot'' | Some r \<Rightarrow> r);
       s \<leftarrow> set_mode FDIR_MODE_REBOOT_PENDING FDIR_ENTITY_NONE (Some why) None s;
       fdir_request_reboot why s
     }"

definition evaluate_dual_path :: "'e fdir \<Rightarrow> 'e fdir option" where
  "evaluate_dual_path s =
     do {
       n \<leftarrow> fdir_subsystems_critical_unavailable_count (sb s);
       if n \<ge> safe_mode_critical_failure_threshold (fdir_internal_get_config s)
       then enter_safe_mode_unsafe s else Some s
     }"


subsection \<open>Choosing a recovery action\<close>

definition default_decide :: "'e fdir_entity_slot \<Rightarrow> fdir_failure_report \<Rightarrow> fdir_action" where
  "default_decide slot report =
     (if rep_reason report = FDIR_REASON_WATCHDOG then
        (if ed_max_watchdog_restarts (es_desc slot) = FDIR_RESTART_UNLIMITED
            \<or> es_watchdog_restart_count slot < ed_max_watchdog_restarts (es_desc slot)
         then FDIR_ACTION_RESTART else ed_on_exhausted (es_desc slot))
      else if ed_max_restarts (es_desc slot) = FDIR_RESTART_UNLIMITED
              \<or> es_restart_count slot < ed_max_restarts (es_desc slot)
           then FDIR_ACTION_RESTART else ed_on_exhausted (es_desc slot))"

definition bump_restart :: "fdir_reason \<Rightarrow> 'e fdir_entity_slot \<Rightarrow> 'e fdir_entity_slot" where
  "bump_restart reason slot =
     (if reason = FDIR_REASON_WATCHDOG then
        (if es_watchdog_restart_count slot < 255
         then slot\<lparr>es_watchdog_restart_count := es_watchdog_restart_count slot + 1\<rparr> else slot)
      else if es_restart_count slot < 255
           then slot\<lparr>es_restart_count := es_restart_count slot + 1\<rparr> else slot)"

definition try_restart ::
  "fdir_entity_id \<Rightarrow> fdir_reason \<Rightarrow> 'e fdir \<Rightarrow> (fdir_status \<times> 'e fdir) option" where
  "try_restart eid reason s =
     do {
       slot \<leftarrow> arr_get (g_entities s) (unat eid);
       case ed_restart (es_desc slot) of
         None \<Rightarrow> Some (FDIR_ERR_PORT, s)
       | Some f \<Rightarrow> do {
           ents \<leftarrow> arr_set (g_entities s) (unat eid) (bump_restart reason slot);
           let s = s\<lparr>g_entities := ents\<rparr>;
           let (rc, e) = f eid (ed_user (es_desc slot)) (env s);
           let s = ext (Call_restart eid (ed_user (es_desc slot)) rc) e s;
           if rc \<noteq> 0 then Some (FDIR_ERR_STATE, s)
           else do {
             (cleared, h) \<leftarrow> fdir_health_clear_latch_unsafe eid (hl s);
             let s = s\<lparr>hl := h\<rparr>;
             s \<leftarrow> fdir_health_reset_unsafe eid s;
             s \<leftarrow> (if cleared \<noteq> reason_0xFF
                    then emit_event_full FDIR_EVENT_FAILURE (g_mode s) eid cleared 0 FDIR_LEVEL_ENTITY
                           FDIR_ANOMALY_CLEARED (ed_name (es_desc slot)) s
                    else Some s);
             s \<leftarrow> emit_event_full FDIR_EVENT_RESTART (g_mode s) eid reason 0 FDIR_LEVEL_ENTITY
                    FDIR_ANOMALY_RAISED (ed_name (es_desc slot)) s;
             Some (FDIR_OK, s)
           }
         }
     }"

definition resolve_exhausted_action ::
  "fdir_entity_id \<Rightarrow> fdir_action \<Rightarrow> fdir_failure_report \<Rightarrow> 'e fdir \<Rightarrow> (fdir_action \<times> 'e fdir) option" where
  "resolve_exhausted_action eid action report s =
     (if action = FDIR_ACTION_RESTART \<or> action = FDIR_ACTION_NONE then Some (action, s)
      else do {
        slot \<leftarrow> arr_get (g_entities s) (unat eid);
        let sub = ed_linked_subsystem (es_desc slot);
        if sub = FDIR_SUBSYSTEM_NONE then Some (action, s)
        else do {
          (sub_action, s) \<leftarrow> fdir_subsystem_on_entity_exhausted sub eid report s;
          if sub_action \<noteq> FDIR_ACTION_NONE then do {
            s \<leftarrow> fdir_internal_emit_subsystem_state sub eid (rep_reason report)
                   (rep_error_code report) FDIR_ANOMALY_RAISED (Some ''policy_override'') s;
            Some (sub_action, s)
          }
          else Some (action, s)
        }
      })"


subsection \<open>Executing a recovery action\<close>

text \<open>The first step of the DEGRADE case.\<close>

definition mark_linked_degraded ::
  "fdir_subsystem_id \<Rightarrow> fdir_entity_id \<Rightarrow> fdir_failure_report \<Rightarrow> 'e fdir \<Rightarrow> 'e fdir option" where
  "mark_linked_degraded sub eid report s =
     (if sub \<noteq> FDIR_SUBSYSTEM_NONE then do {
        t \<leftarrow> fdir_subsystem_mark_degraded_unsafe sub (sb s);
        let s = s\<lparr>sb := t\<rparr>;
        fdir_internal_emit_subsystem_state sub eid (rep_reason report) (rep_error_code report)
          FDIR_ANOMALY_RAISED (Some ''degraded'') s
      } else Some s)"

text \<open>The three cases that first mark the linked subsystem unavailable share this piece.\<close>

definition mark_linked_unavailable ::
  "fdir_subsystem_id \<Rightarrow> fdir_entity_id \<Rightarrow> fdir_failure_report \<Rightarrow> 'e fdir \<Rightarrow> 'e fdir option" where
  "mark_linked_unavailable sub eid report s =
     (if sub \<noteq> FDIR_SUBSYSTEM_NONE then do {
        t \<leftarrow> fdir_subsystem_mark_unavailable_unsafe sub (sb s);
        let s = s\<lparr>sb := t\<rparr>;
        fdir_internal_emit_subsystem_state sub eid (rep_reason report) (rep_error_code report)
          FDIR_ANOMALY_RAISED (Some ''unavailable'') s
      } else Some s)"

function apply_action ::
  "fdir_entity_id \<Rightarrow> fdir_action \<Rightarrow> fdir_failure_report \<Rightarrow> 'e fdir \<Rightarrow> 'e fdir option" where
  "apply_action eid action report s =
     do {
       slot \<leftarrow> arr_get (g_entities s) (unat eid);
       let sub = ed_linked_subsystem (es_desc slot);
       if action = FDIR_ACTION_RESTART then
         do {
           (status, s) \<leftarrow> try_restart eid (rep_reason report) s;
           if status \<noteq> FDIR_OK then
             do {
               slot \<leftarrow> arr_get (g_entities s) (unat eid);
               let fallback = ed_on_exhausted (es_desc slot);
               let fallback = (if fallback = FDIR_ACTION_RESTART then FDIR_ACTION_NONE else fallback);
               apply_action eid fallback report s
             }
           else Some s
         }
       else if action = FDIR_ACTION_DEGRADE then
         do {
           s \<leftarrow> mark_linked_degraded sub eid report s;
           enter_degraded_mode_unsafe s
         }
       else if action = FDIR_ACTION_UNAVAILABLE then
         do {
           s \<leftarrow> mark_linked_unavailable sub eid report s;
           s \<leftarrow> enter_degraded_mode_unsafe s;
           evaluate_dual_path s
         }
       else if action = FDIR_ACTION_SAFE then
         do {
           s \<leftarrow> mark_linked_unavailable sub eid report s;
           enter_safe_mode_unsafe s
         }
       else if action = FDIR_ACTION_REBOOT then
         do {
           s \<leftarrow> mark_linked_unavailable sub eid report s;
           try_reboot_unsafe
             (Some (if cstr (rep_detail report) \<noteq> [] then cstr (rep_detail report) else ''fdir_reboot'')) s
         }
       else Some s
     }"
  by pat_completeness auto
termination
  by (relation "measure (\<lambda>(_, action, _, _). if action = FDIR_ACTION_RESTART then 1 else 0)") auto

declare apply_action.simps [simp del]


subsection \<open>Handling one failure report\<close>

definition fdir_supervision_enabled :: "'e fdir \<Rightarrow> fdir_bool \<times> 'e fdir" where
  "fdir_supervision_enabled s =
     (let s = fdir_port_sync_enter s; enabled = g_supervision_enabled s
      in (enabled, fdir_port_sync_exit s))"

text \<open>The call of an entity's \<open>decide\<close> hook, if there is one.\<close>

definition call_decide ::
  "fdir_entity_id \<Rightarrow> 'e fdir_entity_slot \<Rightarrow> fdir_failure_report \<Rightarrow> 'e fdir \<Rightarrow> fdir_action \<times> 'e fdir" where
  "call_decide eid slot report s =
     (case ed_decide (es_desc slot) of
        None \<Rightarrow> (FDIR_ACTION_NONE, s)
      | Some f \<Rightarrow>
          let u = ed_user (es_desc slot);
              (a, e) = f eid report (es_restart_count slot) (es_watchdog_restart_count slot) u (env s)
          in (a, ext (Call_decide eid report (es_restart_count slot) (es_watchdog_restart_count slot) u a) e s))"

text \<open>The rest of the critical section for a registered entity: latch, mark failed, decide and act.\<close>

definition recover_entity :: "fdir_failure_report \<Rightarrow> 'e fdir \<Rightarrow> 'e fdir option" where
  "recover_entity r s =
     do {
       (_, h) \<leftarrow> fdir_health_latch_fault_unsafe (rep_entity r) (rep_reason r) (hl s);
       h \<leftarrow> fdir_health_set_unsafe (rep_entity r) FDIR_HEALTH_FAILED (rep_error_code r)
              (Some (cstr (rep_detail r))) h;
       let s = s\<lparr>hl := h\<rparr>;
       slot \<leftarrow> arr_get (g_entities s) (unat (rep_entity r));
       let (action, s) = call_decide (rep_entity r) slot r s;
       let action = (if action = FDIR_ACTION_NONE then default_decide slot r else action);
       (action, s) \<leftarrow> resolve_exhausted_action (rep_entity r) action r s;
       s \<leftarrow> apply_action (rep_entity r) action r s;
       evaluate_dual_path s
     }"

definition fdir_handle_failure :: "fdir_failure_report option \<Rightarrow> 'e fdir \<Rightarrow> 'e fdir option" where
  "fdir_handle_failure report s =
     (case report of
        None \<Rightarrow> Some s
      | Some r \<Rightarrow> do {
          let (enabled, s) = fdir_supervision_enabled s;
          if enabled = 0 then Some s
          else do {
            let s = fdir_port_sync_enter s;
            latched \<leftarrow> fdir_health_fault_is_latched_unsafe (rep_entity r) (rep_reason r) (hl s);
            if latched \<noteq> 0 then Some (fdir_port_sync_exit s)
            else do {
              let event_kind = (if rep_reason r = FDIR_REASON_WATCHDOG
                                then FDIR_EVENT_WATCHDOG else FDIR_EVENT_FAILURE);
              s \<leftarrow> emit_event_full event_kind (g_mode s) (rep_entity r) (rep_reason r)
                     (rep_error_code r) FDIR_LEVEL_ENTITY FDIR_ANOMALY_RAISED
                     (Some (cstr (rep_detail r))) s;
              registered \<leftarrow> (if rep_entity r \<ge> g_entity_count s then Some False
                 else do {
                   slot \<leftarrow> arr_get (g_entities s) (unat (rep_entity r));
                   Some (es_used slot \<noteq> 0)
                 });
              if \<not> registered then do {
                s \<leftarrow> enter_degraded_mode_unsafe s;
                Some (fdir_port_sync_exit s)
              }
              else do {
                s \<leftarrow> recover_entity r s;
                Some (fdir_port_sync_exit s)
              }
            }
          }
        })"

end
