(* ===== verification/Recovery_Contract.thy ===== *)
theory Recovery_Contract
  imports Recovery
begin

text \<open>
  Every function of the recovery engine keeps the contract \<open>rec_step\<close> whenever it returns, and
  returns whenever the invariant holds and the port is bound: no \<open>abort()\<close>, no access outside an
  array, no call through a null pointer.
\<close>

named_theorems rec_keeps \<open>contract of a function of the recovery engine\<close>
named_theorems rec_total \<open>a function of the recovery engine returns\<close>

subsection \<open>Elementary changes\<close>

lemma rec_step_hl:
  assumes "g_entity_limit h = g_entity_limit (hl s)" "health_inv (hl s) \<longrightarrow> health_inv h"
  shows "rec_step s (s\<lparr>hl := h\<rparr>)"
proof -
  have "fdir_inv s \<longrightarrow> fdir_inv (s\<lparr>hl := h\<rparr>)"
    using assms by (auto simp: fdir_inv_def port_inv_def ents_inv_def)
  then show ?thesis by (auto simp: rec_step_def sys_step_def)
qed

lemma rec_step_sb:
  assumes "same_subs (sb s) t" "subs_inv (sb s) \<longrightarrow> subs_inv t"
  shows "rec_step s (s\<lparr>sb := t\<rparr>)"
proof -
  have "fdir_inv s \<longrightarrow> fdir_inv (s\<lparr>sb := t\<rparr>)"
    using assms by (auto simp: fdir_inv_def port_inv_def ents_inv_def)
  then show ?thesis using assms by (auto simp: rec_step_def sys_step_def)
qed

lemma bump_restart_simps [simp]:
  "es_desc (bump_restart reason slot) = es_desc slot"
  "es_name (bump_restart reason slot) = es_name slot"
  "es_used (bump_restart reason slot) = es_used slot"
  by (simp_all add: bump_restart_def)

lemma unat_u8_inc: "(x :: u8) < 255 \<Longrightarrow> unat (x + 1) = Suc (unat x)"
  by (rule unat_inc)

lemma u8_le_inc: "(x :: u8) < 255 \<Longrightarrow> x \<le> x + 1"
  by (simp add: word_le_nat_alt unat_u8_inc)

lemma bump_restart_counted: "slot_counted slot (bump_restart reason slot) 1"
  by (auto simp: slot_counted_def bump_restart_def u8_le_inc unat_u8_inc)

lemma restarts_Call_restart [simp]:
  "restarts i [Call_restart j u rc] = (if i = j then 1 else 0)"
  by (simp add: restarts_def)

lemma rec_step_restart:
  assumes "unat eid < length (g_entities s)" "slot = g_entities s ! unat eid"
  shows "rec_step s (ext (Call_restart eid u rc) e
           (s\<lparr>g_entities := (g_entities s)[unat eid := bump_restart reason slot]\<rparr>))"
proof -
  let ?es = "(g_entities s)[unat eid := bump_restart reason slot]"
  have desc: "map es_desc ?es = map es_desc (g_entities s)"
    using assms by (simp add: map_update list_update_same_conv)
  have "counted (g_entities s) ?es [Call_restart eid u rc]"
    using assms bump_restart_counted [of slot reason]
    by (auto simp: counted_def nth_list_update word_unat_eq_iff)
  moreover have "fdir_inv s \<longrightarrow> fdir_inv (s\<lparr>g_entities := ?es\<rparr>)"
    using assms by (auto simp: fdir_inv_def port_inv_def ents_inv_def nth_list_update_if)
  ultimately show ?thesis
    using desc fdir_inv_outside [OF outside_ext [of "s\<lparr>g_entities := ?es\<rparr>"]]
    by (auto simp: rec_step_def sys_step_def quiet_def)
qed

lemma emit_rec_keeps [rec_keeps]:
  assumes "kind \<noteq> FDIR_EVENT_MODE_CHANGE" "level \<noteq> FDIR_LEVEL_SUBSYSTEM" "mode = g_mode s"
  shows "keeps (emit_event_full kind mode entity reason code level phase detail s) (rec_step s)"
proof (rule keeps_mono [OF emit_event_full_keeps], elim exE conjE)
  fix s' t e e' ev
  assume s': "s' = ext (Call_emit ev) e' (ext (Call_now t) e s)"
    and ev: "full_event kind mode entity reason code level phase detail t ev"
  have "rec_step s (ext (Call_now t) e s)"
    by (rule rec_step_ext) (auto simp: quiet_def)
  also have "rec_step (ext (Call_now t) e s) s'"
    unfolding s' using full_event_wf [OF ev] ev assms
    by (intro rec_step_emit) (auto simp: full_event_def)
  finally show "rec_step s s'" .
qed

lemma emit_sub_rec_keeps [rec_keeps]:
  "keeps (fdir_internal_emit_subsystem_state sub entity reason code phase detail s) (rec_step s)"
proof (rule keeps_mono [OF emit_subsystem_state_keeps], elim exE conjE)
  fix s' t e e' ev
  assume s': "s' = ext (Call_emit ev) e' (ext (Call_now t) e s)"
    and ev: "sub_event (g_mode s) sub entity reason code phase detail t ev"
  have "rec_step s (ext (Call_now t) e s)"
    by (rule rec_step_ext) (auto simp: quiet_def)
  also have "rec_step (ext (Call_now t) e s) s'"
    unfolding s' using sub_event_wf [OF ev] ev
    by (intro rec_step_emit) (auto simp: sub_event_def)
  finally show "rec_step s s'" .
qed


subsection \<open>Health and subsystem helpers\<close>

definition hl_step :: "health_table \<Rightarrow> health_table \<Rightarrow> bool" where
  "hl_step h h' \<longleftrightarrow> g_entity_limit h' = g_entity_limit h \<and> (health_inv h \<longrightarrow> health_inv h')"

lemma latch_keeps: "keeps (fdir_health_latch_fault_unsafe eid reason h) (\<lambda>(_, h'). hl_step h h')"
  by (auto simp: fdir_health_latch_fault_unsafe_def hl_step_def keeps_def arr_get_Some arr_set_Some
      health_inv_latch split: bind_splits if_splits)

lemma clear_latch_keeps: "keeps (fdir_health_clear_latch_unsafe eid h) (\<lambda>(_, h'). hl_step h h')"
  by (auto simp: fdir_health_clear_latch_unsafe_def hl_step_def keeps_def arr_get_Some arr_set_Some
      health_inv_latch split: bind_splits if_splits)

lemma set_unsafe_keeps: "keeps (fdir_health_set_unsafe eid health code detail h) (hl_step h)"
proof (unfold keeps_def, intro allI impI)
  fix h' assume eq: "fdir_health_set_unsafe eid health code detail h = Some h'"
  have "health_inv h'" if "health_inv h"
    using that
  proof (cases rule: set_unsafe_cases [of h eid health code detail])
    case (tracked snap)
    then show ?thesis using eq health_inv_update [OF that] by simp
  next
    case untracked
    then show ?thesis using eq that by simp
  qed
  moreover have "g_entity_limit h' = g_entity_limit h"
    using eq by (auto simp: fdir_health_set_unsafe_def split: bind_splits if_splits)
  ultimately show "hl_step h h'" by (simp add: hl_step_def)
qed

lemma reset_unsafe_keeps [rec_keeps]: "keeps (fdir_health_reset_unsafe eid s) (rec_step s)"
proof (unfold keeps_def, intro allI impI)
  fix s' assume eq: "fdir_health_reset_unsafe eid s = Some s'"
  show "rec_step s s'"
  proof (cases "tracked eid (hl s)")
    case False
    with eq show ?thesis by (simp add: reset_unsafe_untracked)
  next
    case True
    let ?old = "g_health (hl s) ! unat eid"
    obtain t s1 where now: "fdir_get_now_ms s = Some (t, s1)"
      and s': "s' = s1\<lparr>hl := (hl s1)\<lparr>g_health := (g_health (hl s1))[unat eid :=
         ?old\<lparr>hs_health := FDIR_HEALTH_OK, hs_error_code := 0, hs_detail := (hs_detail ?old)[0 := NUL],
              hs_last_heartbeat_ms := t\<rparr>]\<rparr>\<rparr>"
      using eq True
      by (auto simp: fdir_health_reset_unsafe_def tracked_def arr_get_Some arr_set_Some
          split: bind_splits if_splits)
    obtain e where s1: "s1 = ext (Call_now t) e s"
      using keepsD [OF get_now_keeps now] by auto
    have "rec_step s s1"
      unfolding s1 by (rule rec_step_ext) (auto simp: quiet_def)
    also have "rec_step s1 s'"
      unfolding s'
    proof (rule rec_step_hl)
      show "health_inv (hl s1) \<longrightarrow> health_inv ((hl s1)\<lparr>g_health := (g_health (hl s1))[unat eid :=
         ?old\<lparr>hs_health := FDIR_HEALTH_OK, hs_error_code := 0, hs_detail := (hs_detail ?old)[0 := NUL],
              hs_last_heartbeat_ms := t\<rparr>]\<rparr>)"
        using True snapshot_inv_clear [OF snapshot_inv_nth, of "hl s" eid]
        by (auto simp: s1 snapshot_inv_def intro!: health_inv_update)
    qed simp
    finally show ?thesis .
  qed
qed

lemma sub_marks_keep:
  "keeps (fdir_subsystem_mark_available_unsafe sid t) (\<lambda>t'. same_subs t t' \<and> (subs_inv t \<longrightarrow> subs_inv t'))"
  "keeps (fdir_subsystem_mark_unavailable_unsafe sid t) (\<lambda>t'. same_subs t t' \<and> (subs_inv t \<longrightarrow> subs_inv t'))"
  "keeps (fdir_subsystem_mark_degraded_unsafe sid t) (\<lambda>t'. same_subs t t' \<and> (subs_inv t \<longrightarrow> subs_inv t'))"
proof -
  have "keeps (fdir_subsystem_mark_available_unsafe sid t) (same_subs t)"
    "keeps (fdir_subsystem_mark_unavailable_unsafe sid t) (same_subs t)"
    "keeps (fdir_subsystem_mark_degraded_unsafe sid t) (same_subs t)"
    by (auto simp: keeps_def sub_marks slot_of_def arr_get_Some arr_set_Some
        split: bind_splits if_splits option.splits intro!: same_subs_update)
  then show "keeps (fdir_subsystem_mark_available_unsafe sid t) (\<lambda>t'. same_subs t t' \<and> (subs_inv t \<longrightarrow> subs_inv t'))"
    "keeps (fdir_subsystem_mark_unavailable_unsafe sid t) (\<lambda>t'. same_subs t t' \<and> (subs_inv t \<longrightarrow> subs_inv t'))"
    "keeps (fdir_subsystem_mark_degraded_unsafe sid t) (\<lambda>t'. same_subs t t' \<and> (subs_inv t \<longrightarrow> subs_inv t'))"
    using marks_return [of t sid] by (auto simp: keeps_def returns_def)
qed

lemma on_entity_exhausted_keeps [rec_keeps]:
  "keeps (fdir_subsystem_on_entity_exhausted sub entity report s) (\<lambda>(_, s'). rec_step s s')"
  by (auto simp: fdir_subsystem_on_entity_exhausted_def keeps_def
      split: bind_splits option.splits prod.splits intro!: rec_step_ext simp: quiet_def)


subsection \<open>Mode changes\<close>

lemma notify_keeps: "rec_step s (notify_system_handler mode report s)"
  by (auto simp: notify_system_handler_def Let_def quiet_def split: option.split intro!: rec_step_ext)

lemma set_mode_sys:
  assumes "mode_ok mode"
  shows "keeps (set_mode mode entity detail report s) (\<lambda>s'. sys_step s s' \<and> g_mode s' = mode)"
proof (cases "g_mode s = mode")
  case True
  then show ?thesis by (simp add: set_mode_def sys.refl)
next
  case False
  let ?s = "s\<lparr>g_mode := mode\<rparr>"
  have emit: "keeps (emit_event_full FDIR_EVENT_MODE_CHANGE mode entity FDIR_REASON_USER 0
      FDIR_LEVEL_SYSTEM FDIR_ANOMALY_RAISED detail ?s) (\<lambda>s'. sys_step s s' \<and> g_mode s' = mode)"
  proof (rule keeps_mono [OF emit_event_full_keeps], elim exE conjE)
    fix s' t e e' ev
    assume s': "s' = ext (Call_emit ev) e' (ext (Call_now t) e ?s)"
      and ev: "full_event FDIR_EVENT_MODE_CHANGE mode entity FDIR_REASON_USER 0
        FDIR_LEVEL_SYSTEM FDIR_ANOMALY_RAISED detail t ev"
    have "event_wf ev" using full_event_wf [OF ev] by simp
    moreover have "ev_kind ev = FDIR_EVENT_MODE_CHANGE" "ev_mode ev = mode"
      using ev by (simp_all add: full_event_def)
    moreover have "fdir_inv s \<longrightarrow> fdir_inv s'"
      using assms by (auto simp: s' fdir_inv_def port_inv_def ents_inv_def)
    ultimately show "sys_step s s' \<and> g_mode s' = mode"
      using False assms by (auto simp: s' sys_step_def counted_def quiet_def restarts_def)
  qed
  have notify: "sys_step t (notify_system_handler m report t) \<and> g_mode (notify_system_handler m report t) = g_mode t" for t m
    using notify_keeps [of t m report]
    by (auto simp: rec_step_def notify_system_handler_def Let_def split: option.split)
  show ?thesis
    using False emit notify
    by (auto simp: set_mode_def keeps_def split: bind_splits intro: sys.trans)
qed

lemma set_mode_rec:
  assumes "mode_ok mode" "mode_ok (g_mode s) \<Longrightarrow> g_mode s \<le> mode"
  shows "keeps (set_mode mode entity detail report s) (\<lambda>s'. rec_step s s' \<and> g_mode s' = mode)"
  by (rule keeps_mono [OF set_mode_sys [OF assms(1)]]) (use assms(2) in \<open>auto simp: rec_step_def\<close>)

lemma enter_degraded_keeps [rec_keeps]: "keeps (enter_degraded_mode_unsafe s) (rec_step s)"
  by (auto simp: enter_degraded_mode_unsafe_def mode_ok_cases fdir_mode_order
      intro!: keeps_mono [OF set_mode_rec])

lemma enter_safe_keeps [rec_keeps]: "keeps (enter_safe_mode_unsafe s) (rec_step s)"
  by (auto simp: enter_safe_mode_unsafe_def mode_ok_cases fdir_mode_order
      intro!: keeps_mono [OF set_mode_rec])

lemma reboot_rec_keeps [rec_keeps]: "keeps (fdir_request_reboot why s) (rec_step s)"
  by (rule keeps_mono [OF reboot_keeps]) (auto simp: quiet_def intro!: rec_step_ext)

lemma try_reboot_keeps [rec_keeps]: "keeps (try_reboot_unsafe reason s) (rec_step s)"
proof -
  have "keeps (set_mode FDIR_MODE_REBOOT_PENDING FDIR_ENTITY_NONE detail None s) (rec_step s)" for detail
    by (rule keeps_mono [OF set_mode_rec]) (auto simp: mode_ok_def)
  then show ?thesis
    by (auto simp: try_reboot_unsafe_def Let_def intro!: rec.keeps_seq reboot_rec_keeps)
qed

lemma evaluate_dual_path_keeps [rec_keeps]: "keeps (evaluate_dual_path s) (rec_step s)"
  using enter_safe_keeps [of s]
  by (auto simp: evaluate_dual_path_def keeps_def split: bind_splits if_splits)


subsection \<open>Restart, override and action\<close>

lemma try_restart_keeps [rec_keeps]:
  "keeps (try_restart eid reason s) (\<lambda>(_, s'). rec_step s s')"
proof (unfold keeps_def, intro allI impI, clarify)
  fix status s'
  assume eq: "try_restart eid reason s = Some (status, s')"
  show "rec_step s s'"
  proof (cases "ed_restart (es_desc (g_entities s ! unat eid))")
    case None
    with eq show ?thesis by (auto simp: try_restart_def arr_get_Some split: bind_splits)
  next
    case (Some f)
    let ?slot = "g_entities s ! unat eid" and ?nm = "ed_name (es_desc (g_entities s ! unat eid))"
    let ?u = "ed_user (es_desc ?slot)"
    obtain rc e where f: "f eid ?u (env s) = (rc, e)" by fastforce
    define s1 where "s1 = ext (Call_restart eid ?u rc) e
        (s\<lparr>g_entities := (g_entities s)[unat eid := bump_restart reason ?slot]\<rparr>)"
    have ix: "unat eid < length (g_entities s)"
      using eq by (auto simp: try_restart_def arr_get_Some split: bind_splits)
    have s1: "rec_step s s1" unfolding s1_def using ix by (rule rec_step_restart) simp
    show ?thesis
    proof (cases "rc = 0")
      case False
      with eq Some f ix have "s' = s1" by (simp add: try_restart_def s1_def)
      with s1 show ?thesis by simp
    next
      case True
      with eq Some f ix obtain cleared h s2 s3 where
        h: "fdir_health_clear_latch_unsafe eid (hl s1) = Some (cleared, h)" and
        s2: "fdir_health_reset_unsafe eid (s1\<lparr>hl := h\<rparr>) = Some s2" and
        s3: "(if cleared \<noteq> reason_0xFF then emit_event_full FDIR_EVENT_FAILURE (g_mode s2) eid cleared 0
               FDIR_LEVEL_ENTITY FDIR_ANOMALY_CLEARED ?nm s2 else Some s2) = Some s3" and
        s': "emit_event_full FDIR_EVENT_RESTART (g_mode s3) eid reason 0 FDIR_LEVEL_ENTITY
               FDIR_ANOMALY_RAISED ?nm s3 = Some s'"
        by (auto simp: try_restart_def s1_def split: bind_splits)
      note s1
      also have "rec_step s1 (s1\<lparr>hl := h\<rparr>)"
        using keepsD [OF clear_latch_keeps h] by (auto simp: hl_step_def intro: rec_step_hl)
      also have "rec_step (s1\<lparr>hl := h\<rparr>) s2"
        by (rule keepsD [OF reset_unsafe_keeps s2])
      also have "rec_step s2 s3"
        using s3 by (auto split: if_splits intro: keepsD [OF emit_rec_keeps])
      also have "rec_step s3 s'"
        by (rule keepsD [OF emit_rec_keeps s']) simp_all
      finally show ?thesis .
    qed
  qed
qed

lemma resolve_keeps [rec_keeps]:
  "keeps (resolve_exhausted_action eid action report s) (\<lambda>(_, s'). rec_step s s')"
proof (unfold keeps_def, intro allI impI, clarify)
  fix a s'
  assume eq: "resolve_exhausted_action eid action report s = Some (a, s')"
  let ?sub = "ed_linked_subsystem (es_desc (g_entities s ! unat eid))"
  show "rec_step s s'"
  proof (cases "s' = s")
    case False
    with eq obtain sub_action s1 where
      s1: "fdir_subsystem_on_entity_exhausted ?sub eid report s = Some (sub_action, s1)" and
      s': "s' = s1 \<or> fdir_internal_emit_subsystem_state ?sub eid (rep_reason report)
             (rep_error_code report) FDIR_ANOMALY_RAISED (Some ''policy_override'') s1 = Some s'"
      by (auto simp: resolve_exhausted_action_def Let_def arr_get_Some split: bind_splits if_splits)
    have "rec_step s s1" using keepsD [OF on_entity_exhausted_keeps s1] by simp
    also have "rec_step s1 s'" using s' by (auto intro: keepsD [OF emit_sub_rec_keeps])
    finally show ?thesis .
  qed simp
qed

lemma mark_and_emit_keeps:
  assumes "keeps m (\<lambda>t'. same_subs (sb s) t' \<and> (subs_inv (sb s) \<longrightarrow> subs_inv t'))"
  shows "keeps (Option.bind m (\<lambda>t. fdir_internal_emit_subsystem_state sub eid reason code
           phase detail (s\<lparr>sb := t\<rparr>))) (rec_step s)"
  by (rule keeps_bindI [OF assms]) (blast intro: rec.keeps_from [OF rec_step_sb] emit_sub_rec_keeps)

lemma mark_linked_keeps [rec_keeps]: "keeps (mark_linked_unavailable sub eid report s) (rec_step s)"
  by (auto simp: mark_linked_unavailable_def Let_def
      intro!: mark_and_emit_keeps [OF sub_marks_keep(2)])

lemma mark_linked_degraded_keeps [rec_keeps]: "keeps (mark_linked_degraded sub eid report s) (rec_step s)"
  by (auto simp: mark_linked_degraded_def Let_def
      intro!: mark_and_emit_keeps [OF sub_marks_keep(3)])

lemma apply_action_keeps [rec_keeps]: "keeps (apply_action eid action report s) (rec_step s)"
proof (induction eid action report s rule: apply_action.induct)
  case (1 eid action report s)
  have restart: "rec_step s u"
    if "action = FDIR_ACTION_RESTART" "arr_get (g_entities s) (unat eid) = Some slot"
      "try_restart eid (rep_reason report) s = Some (status, t)" "status \<noteq> FDIR_OK"
      "arr_get (g_entities t) (unat eid) = Some slot'"
      "apply_action eid (if ed_on_exhausted (es_desc slot') = FDIR_ACTION_RESTART then FDIR_ACTION_NONE
         else ed_on_exhausted (es_desc slot')) report t = Some u" for slot status t slot' u
  proof -
    have "rec_step s t" using keepsD [OF try_restart_keeps that(3)] by simp
    also have "rec_step t u"
      by (rule keepsD [OF "1.IH" that(6)]) (use that in auto)
    finally show ?thesis .
  qed
  show ?case
  proof (cases "action = FDIR_ACTION_RESTART")
    case True
    then show ?thesis
      using restart keepsD [OF try_restart_keeps]
      by (subst apply_action.simps) (auto simp: keeps_def Let_def split: bind_splits if_splits)
  next
    case False
    then show ?thesis
      by (subst apply_action.simps)
        (auto simp: Let_def keeps_if
          intro!: keeps_bindI [of "arr_get _ _" "\<lambda>_. True"] rec.keeps_seq [OF mark_linked_keeps]
            rec.keeps_seq [OF enter_degraded_keeps] rec.keeps_seq [OF mark_linked_degraded_keeps] rec_keeps
          simp: keeps_def [of "arr_get _ _"])
  qed
qed


subsection \<open>The engine returns\<close>

text \<open>The library is initialised and its invariant holds.\<close>

definition live :: "'e fdir \<Rightarrow> bool" where
  "live s \<longleftrightarrow> fdir_inv s \<and> g_port_ready s"

lemma liveD:
  assumes "live s"
  shows "fdir_inv s" "g_port_ready s" "port_inv s" "queue_inv (fq s)" "health_inv (hl s)"
    "subs_inv (sb s)" "ents_inv s" "mode_ok (g_mode s)"
  using assms by (simp_all add: live_def fdir_inv_def)

lemma sys_step_live: "sys_step s s' \<Longrightarrow> live s \<Longrightarrow> live s'"
  by (simp add: live_def sys_step_def)

lemmas rec_step_live = sys_step_live [OF rec_sys]

lemma sys_step_registered: "sys_step s s' \<Longrightarrow> registered eid s' = registered eid s"
  by (simp add: registered_def sys_step_def)

lemmas rec_step_registered = sys_step_registered [OF rec_sys]

lemma live_sync [simp]:
  "live (fdir_port_sync_enter s) = live s" "live (fdir_port_sync_exit s) = live s"
  by (simp_all add: live_def)

lemma live_hooks_return [rec_total]:
  assumes "live s"
  shows "returns (fdir_get_now_ms s) (\<lambda>_. True)"
    and "returns (fdir_request_reboot why s) (\<lambda>_. True)"
    and "returns (emit_event_full kind mode entity reason code level phase detail s) (\<lambda>_. True)"
    and "returns (fdir_internal_emit_subsystem_state sub entity reason code phase detail s) (\<lambda>_. True)"
  using get_now_returns [of s] reboot_returns [of s why] emits_return [of s] liveD [OF assms]
  by (auto elim: returns_mono)

lemma set_mode_returns [rec_total]:
  assumes "live s"
  shows "returns (set_mode mode entity detail report s) (\<lambda>_. True)"
proof -
  have "port_inv (s\<lparr>g_mode := mode\<rparr>)" "g_port_ready (s\<lparr>g_mode := mode\<rparr>)"
    using liveD [OF assms] by (simp_all add: port_inv_def)
  then show ?thesis
    by (auto simp: set_mode_def fdir_wp intro: returns_mono [OF emits_return(1)])
qed

lemma enter_modes_return [rec_total]:
  assumes "live s"
  shows "returns (enter_degraded_mode_unsafe s) (\<lambda>_. True)"
    and "returns (enter_safe_mode_unsafe s) (\<lambda>_. True)"
    and "returns (evaluate_dual_path s) (\<lambda>_. True)"
  using set_mode_returns [OF assms] critical_count_card [OF liveD(6) [OF assms]]
  by (auto simp: enter_degraded_mode_unsafe_def enter_safe_mode_unsafe_def evaluate_dual_path_def
      fdir_wp elim!: returns_mono)

lemma try_reboot_returns [rec_total]:
  assumes "live s"
  shows "returns (try_reboot_unsafe reason s) (\<lambda>_. True)"
proof -
  let ?why = "case reason of None \<Rightarrow> ''reboot'' | Some r \<Rightarrow> r"
  have "keeps (set_mode FDIR_MODE_REBOOT_PENDING FDIR_ENTITY_NONE (Some ?why) None s) (sys_step s)"
    by (rule keeps_mono [OF set_mode_sys]) (auto simp: mode_ok_def)
  then show ?thesis
    unfolding try_reboot_unsafe_def Let_def
    by (intro sys.returns_seq [OF set_mode_returns [OF assms]] live_hooks_return)
      (auto intro: sys_step_live assms)
qed

lemma latch_returns:
  assumes "live s" "registered eid s"
  shows "returns (fdir_health_latch_fault_unsafe eid reason (hl s)) (\<lambda>_. True)"
    and "returns (fdir_health_clear_latch_unsafe eid (hl s)) (\<lambda>_. True)"
  using assms registered_tracked [of s eid] liveD [OF assms(1)]
  by (simp_all add: latch_fault_eq clear_latch_eq)

lemma reset_unsafe_live [rec_total]:
  assumes "live s"
  shows "returns (fdir_health_reset_unsafe eid s) (\<lambda>_. True)"
proof (cases "tracked eid (hl s)")
  case True
  obtain s' where "fdir_health_reset_unsafe eid s = Some s'"
    by (rule reset_unsafe_tracked [OF liveD(5,3,2) [OF assms] True])
  then show ?thesis by simp
qed (simp add: reset_unsafe_untracked)

lemma try_restart_returns [rec_total]:
  assumes "live s" "registered eid s"
  shows "returns (try_restart eid reason s) (\<lambda>_. True)"
proof (cases "ed_restart (es_desc (g_entities s ! unat eid))")
  case None
  with registered_index [OF liveD(1) [OF assms(1)] assms(2)] show ?thesis
    by (simp add: try_restart_def)
next
  case (Some f)
  let ?slot = "g_entities s ! unat eid"
  let ?u = "ed_user (es_desc ?slot)" and ?nm = "ed_name (es_desc ?slot)"
  have ix: "unat eid < length (g_entities s)"
    by (rule registered_index [OF liveD(1) [OF assms(1)] assms(2)])
  obtain rc e where f: "f eid ?u (env s) = (rc, e)" by fastforce
  define s1 where "s1 = ext (Call_restart eid ?u rc) e
      (s\<lparr>g_entities := (g_entities s)[unat eid := bump_restart reason ?slot]\<rparr>)"
  have s1: "rec_step s s1" unfolding s1_def using ix by (rule rec_step_restart) simp
  then have live1: "live s1" and reg1: "registered eid s1"
    using assms rec_step_live rec_step_registered by blast+
  obtain cleared h where h: "fdir_health_clear_latch_unsafe eid (hl s1) = Some (cleared, h)"
    using latch_returns(2) [OF live1 reg1] by (auto simp: returns_def)
  have "rec_step s1 (s1\<lparr>hl := h\<rparr>)"
    using keepsD [OF clear_latch_keeps h] by (auto simp: hl_step_def intro: rec_step_hl)
  then have live2: "live (s1\<lparr>hl := h\<rparr>)" using live1 rec_step_live by blast
  have eq: "try_restart eid reason s =
     (if rc \<noteq> 0 then Some (FDIR_ERR_STATE, s1)
      else Option.bind (fdir_health_reset_unsafe eid (s1\<lparr>hl := h\<rparr>)) (\<lambda>s.
           Option.bind (if cleared \<noteq> reason_0xFF
             then emit_event_full FDIR_EVENT_FAILURE (g_mode s) eid cleared 0 FDIR_LEVEL_ENTITY
                    FDIR_ANOMALY_CLEARED ?nm s else Some s) (\<lambda>s.
           Option.bind (emit_event_full FDIR_EVENT_RESTART (g_mode s) eid reason 0 FDIR_LEVEL_ENTITY
             FDIR_ANOMALY_RAISED ?nm s) (\<lambda>s. Some (FDIR_OK, s)))))"
    using Some f ix h by (simp add: try_restart_def s1_def)
  have emit1: "returns (if c then emit_event_full FDIR_EVENT_FAILURE (g_mode v) eid cleared 0
      FDIR_LEVEL_ENTITY FDIR_ANOMALY_CLEARED ?nm v else Some v) (\<lambda>_. True)"
    "keeps (if c then emit_event_full FDIR_EVENT_FAILURE (g_mode v) eid cleared 0
      FDIR_LEVEL_ENTITY FDIR_ANOMALY_CLEARED ?nm v else Some v) (rec_step v)"
    if "live v" for v c
    using live_hooks_return(3) [OF that]
    by (cases c; auto intro: emit_rec_keeps)+
  show ?thesis
    unfolding eq returns_if
  proof (intro conjI impI)
    have "returns (Option.bind (emit_event_full FDIR_EVENT_RESTART (g_mode w) eid reason 0
        FDIR_LEVEL_ENTITY FDIR_ANOMALY_RAISED ?nm w) (\<lambda>s. Some (FDIR_OK, s))) (\<lambda>_. True)"
      if "live w" for w
      by (rule returns_bindI [OF live_hooks_return(3) [OF that]]) simp
    then show "returns (Option.bind (fdir_health_reset_unsafe eid (s1\<lparr>hl := h\<rparr>)) (\<lambda>s.
           Option.bind (if cleared \<noteq> reason_0xFF
             then emit_event_full FDIR_EVENT_FAILURE (g_mode s) eid cleared 0 FDIR_LEVEL_ENTITY
                    FDIR_ANOMALY_CLEARED ?nm s else Some s) (\<lambda>s.
           Option.bind (emit_event_full FDIR_EVENT_RESTART (g_mode s) eid reason 0 FDIR_LEVEL_ENTITY
             FDIR_ANOMALY_RAISED ?nm s) (\<lambda>s. Some (FDIR_OK, s))))) (\<lambda>_. True)"
      by (intro rec.returns_seq [OF reset_unsafe_live [OF live2] reset_unsafe_keeps]
          rec.returns_seq [OF emit1]) (blast intro: rec_step_live live2)+
  qed simp
qed

lemma on_entity_exhausted_returns [rec_total]:
  assumes "live s"
  shows "returns (fdir_subsystem_on_entity_exhausted sub entity report s) (\<lambda>_. True)"
  using liveD(6) [OF assms]
  by (auto simp: fdir_subsystem_on_entity_exhausted_def slot_of_eq split: option.split prod.split)

lemma resolve_returns [rec_total]:
  assumes "live s" "registered eid s"
  shows "returns (resolve_exhausted_action eid action report s) (\<lambda>_. True)"
  using registered_index [OF liveD(1) [OF assms(1)] assms(2)]
  by (auto simp: resolve_exhausted_action_def Let_def
      intro!: rec.returns_seq_pair [OF on_entity_exhausted_returns [OF assms(1)] on_entity_exhausted_keeps]
        returns_bindI [OF live_hooks_return(4)]
      intro: rec_step_live [OF _ assms(1)])

lemma mark_linked_returns [rec_total]:
  assumes "live s"
  shows "returns (mark_linked_unavailable sub eid report s) (\<lambda>_. True)"
    and "returns (mark_linked_degraded sub eid report s) (\<lambda>_. True)"
proof -
  have "live (s\<lparr>sb := t\<rparr>)" if "subs_inv t \<and> same_subs (sb s) t" for t
    using that rec_step_live [OF rec_step_sb assms] by blast
  then show "returns (mark_linked_unavailable sub eid report s) (\<lambda>_. True)"
    and "returns (mark_linked_degraded sub eid report s) (\<lambda>_. True)"
    using marks_return [OF liveD(6) [OF assms], of sub]
    by (auto simp: mark_linked_unavailable_def mark_linked_degraded_def Let_def
        intro!: returns_bindI live_hooks_return)
qed

lemma apply_action_returns [rec_total]:
  "live s \<Longrightarrow> registered eid s \<Longrightarrow> returns (apply_action eid action report s) (\<lambda>_. True)"
proof (induction eid action report s rule: apply_action.induct)
  case (1 eid action report s)
  note ix = registered_index [OF liveD(1) [OF "1.prems"(1)] "1.prems"(2)]
  show ?case
  proof (cases "action = FDIR_ACTION_RESTART")
    case True
    obtain status t where t: "try_restart eid (rep_reason report) s = Some (status, t)"
      using try_restart_returns [OF "1.prems", of "rep_reason report"] by (auto simp: returns_def)
    then have st: "rec_step s t" using keepsD [OF try_restart_keeps] by fastforce
    then have lt: "live t" "registered eid t"
      using "1.prems" rec_step_live rec_step_registered by blast+
    note ixt = registered_index [OF liveD(1) [OF lt(1)] lt(2)]
    have "status \<noteq> FDIR_OK \<Longrightarrow> returns (apply_action eid
        (if ed_on_exhausted (es_desc (g_entities t ! unat eid)) = FDIR_ACTION_RESTART then FDIR_ACTION_NONE
         else ed_on_exhausted (es_desc (g_entities t ! unat eid))) report t) (\<lambda>_. True)"
      using ix ixt t True lt by (intro "1.IH") auto
    then show ?thesis
      using True t ix ixt by (subst apply_action.simps) (simp add: Let_def)
  next
    case False
    note live = "1.prems"(1)
    show ?thesis
      using ix False
      by (subst apply_action.simps,
          auto simp: Let_def intro!: rec.returns_seq [OF mark_linked_returns(1) [OF live] mark_linked_keeps]
            rec.returns_seq [OF mark_linked_returns(2) [OF live] mark_linked_degraded_keeps]
            rec.returns_seq [OF enter_modes_return(1) enter_degraded_keeps]
            enter_modes_return try_reboot_returns)
        (blast intro: rec_step_live live)+
  qed
qed

end
