(* ===== verification/Api_Contract.thy ===== *)
theory Api_Contract
  imports Recovery_Contract
begin

text \<open>
  The contract of a whole API call, and its first client \<open>fdir_handle_failure\<close>. A call consists of
  critical sections; \<open>cs_step\<close> is the contract of the code inside one, \<open>api_step\<close> the contract of
  a sequence of complete ones. Both are the same two-state relation \<open>lib_step\<close> with a different
  demand on the calls made to the lock. The flag \<open>up\<close> adds that the mode does not go down.
\<close>

definition lib_step :: "(ext_call list \<Rightarrow> bool) \<Rightarrow> bool \<Rightarrow> 'e fdir \<Rightarrow> 'e fdir \<Rightarrow> bool" where
  "lib_step L up s s' \<longleftrightarrow>
     g_port s' = g_port s \<and> g_port_ready s' = g_port_ready s \<and> g_config s' = g_config s \<and>
     g_entity_count s \<le> g_entity_count s' \<and> g_sub_count (sb s) \<le> g_sub_count (sb s') \<and>
     (fdir_inv s \<longrightarrow> fdir_inv s') \<and>
     (mode_ok (g_mode s) \<longrightarrow> mode_ok (g_mode s') \<and> (up \<longrightarrow> g_mode s \<le> g_mode s')) \<and>
     (\<forall>i < unat (g_sub_count (sb s)). ss_desc (g_subs (sb s') ! i) = ss_desc (g_subs (sb s) ! i)) \<and>
     (\<exists>cs. calls s' = calls s @ cs \<and> L cs \<and>
        events_ok (g_mode s) cs \<and> replay (g_mode s) cs = g_mode s' \<and>
        (\<forall>i. registered i s \<longrightarrow>
           es_desc (g_entities s' ! unat i) = es_desc (g_entities s ! unat i) \<and>
           slot_counted (g_entities s ! unat i) (g_entities s' ! unat i) (restarts i cs)))"

definition cs_step :: "bool \<Rightarrow> 'e fdir \<Rightarrow> 'e fdir \<Rightarrow> bool" where
  "cs_step = lib_step (list_all quiet)"

definition api_step :: "bool \<Rightarrow> 'e fdir \<Rightarrow> 'e fdir \<Rightarrow> bool" where
  "api_step up s s' \<longleftrightarrow> lib_step (\<lambda>cs. lock_paired s \<longrightarrow> lock_run False cs = Some False) up s s'"

lemma lib_step_refl: "L [] \<Longrightarrow> lib_step L up s s"
  by (auto simp: lib_step_def intro: exI [of _ "[]"])

lemma lib_step_comp:
  assumes st: "lib_step L up s t" and tu: "lib_step M up t u"
    and L: "\<And>xs ys. L xs \<Longrightarrow> M ys \<Longrightarrow> N (xs @ ys)"
  shows "lib_step N up s u"
proof -
  obtain cs where cs: "calls t = calls s @ cs" "L cs" "events_ok (g_mode s) cs"
    "replay (g_mode s) cs = g_mode t"
    and ct: "\<And>i. registered i s \<Longrightarrow> es_desc (g_entities t ! unat i) = es_desc (g_entities s ! unat i) \<and>
      slot_counted (g_entities s ! unat i) (g_entities t ! unat i) (restarts i cs)"
    using st unfolding lib_step_def by blast
  obtain ds where ds: "calls u = calls t @ ds" "M ds" "events_ok (g_mode t) ds"
    "replay (g_mode t) ds = g_mode u"
    and cu: "\<And>i. registered i t \<Longrightarrow> es_desc (g_entities u ! unat i) = es_desc (g_entities t ! unat i) \<and>
      slot_counted (g_entities t ! unat i) (g_entities u ! unat i) (restarts i ds)"
    using tu unfolding lib_step_def by blast
  have reg: "registered i s \<Longrightarrow> registered i t" for i
    using st by (auto simp: registered_def lib_step_def)
  have ix: "unat (g_sub_count (sb s)) \<le> unat (g_sub_count (sb t))"
    using st by (simp add: lib_step_def word_le_nat_alt)
  have "\<exists>es. calls u = calls s @ es \<and> N es \<and> events_ok (g_mode s) es \<and> replay (g_mode s) es = g_mode u \<and>
     (\<forall>i. registered i s \<longrightarrow> es_desc (g_entities u ! unat i) = es_desc (g_entities s ! unat i) \<and>
           slot_counted (g_entities s ! unat i) (g_entities u ! unat i) (restarts i es))"
    using cs ds L [OF cs(2) ds(2)] ct cu reg
    by (intro exI [of _ "cs @ ds"]) (auto simp: events_ok_append replay_append intro: slot_counted_trans)
  moreover have "\<forall>i < unat (g_sub_count (sb s)). ss_desc (g_subs (sb u) ! i) = ss_desc (g_subs (sb s) ! i)"
    using st tu ix by (simp add: lib_step_def)
  ultimately show ?thesis
    using st tu by (auto simp: lib_step_def)
qed

lemma lib_step_trans:
  "lib_step L up s t \<Longrightarrow> lib_step L up t u \<Longrightarrow> (\<And>xs ys. L xs \<Longrightarrow> L ys \<Longrightarrow> L (xs @ ys)) \<Longrightarrow>
   lib_step L up s u"
  by (rule lib_step_comp)

interpretation cs: two_state "cs_step up" for up
  by unfold_locales (auto simp: cs_step_def intro: lib_step_refl lib_step_trans)

lemma lock_paired_cong: "g_port s' = g_port s \<Longrightarrow> lock_paired s' = lock_paired s"
  by (simp add: lock_paired_def)

interpretation api: two_state "api_step up" for up
proof unfold_locales
  fix s t u :: "'a fdir"
  show "api_step up s s" by (simp add: api_step_def lib_step_refl)
  assume st: "api_step up s t" and tu: "api_step up t u"
  have "lock_paired t = lock_paired s"
    using st by (intro lock_paired_cong) (simp add: api_step_def lib_step_def)
  then show "api_step up s u"
    using st tu unfolding api_step_def
    by (auto simp: lock_run_append intro!: lib_step_trans [where t = t])
qed

lemma api_step_up: "api_step True s s' \<Longrightarrow> api_step up s s'"
  by (auto simp: api_step_def lib_step_def)

lemma api_step_frame:
  assumes "api_step up s s'"
  shows "g_port s' = g_port s" "g_port_ready s' = g_port_ready s" "g_config s' = g_config s"
    "fdir_inv s \<Longrightarrow> fdir_inv s'"
  using assms by (simp_all add: api_step_def lib_step_def)

lemma api_step_live: "api_step up s s' \<Longrightarrow> live s \<Longrightarrow> live s'"
  using api_step_frame [of up s s'] by (simp add: live_def)

lemma api_step_registered: "api_step up s s' \<Longrightarrow> registered i s \<Longrightarrow> registered i s'"
  by (auto simp: api_step_def lib_step_def registered_def)


subsection \<open>From the code under the lock to the API\<close>

lemma same_subs_nth:
  assumes "same_subs t t'" "fdir_inv s" "sb s = t" "i < unat (g_sub_count t)"
  shows "ss_desc (g_subs t' ! i) = ss_desc (g_subs t ! i)"
proof -
  have "i < length (g_subs t)"
    using assms by (auto simp: fdir_inv_def subs_inv_def)
  moreover have "length (g_subs t') = length (g_subs t)"
    using assms(1) unfolding same_subs_def by (metis length_map)
  ultimately show ?thesis
    using assms(1) unfolding same_subs_def by (metis nth_map)
qed

lemma map_nth_eq: "map f xs = map f ys \<Longrightarrow> i < length ys \<Longrightarrow> f (xs ! i) = f (ys ! i)"
  by (metis length_map nth_map)

lemma sys_cs: 
  assumes "sys_step s t" "fdir_inv s" "up \<longrightarrow> g_mode s \<le> g_mode t"
  shows "cs_step up s t"
proof -
  obtain cs where cs: "calls t = calls s @ cs" "list_all quiet cs" "events_ok (g_mode s) cs"
    "replay (g_mode s) cs = g_mode t" "counted (g_entities s) (g_entities t) cs"
    using assms(1) by (auto simp: sys_step_def)
  have desc: "es_desc (g_entities t ! unat i) = es_desc (g_entities s ! unat i)" if "registered i s" for i
    using assms(1) registered_index [OF assms(2) that] by (intro map_nth_eq) (simp_all add: sys_step_def)
  have sub: "same_subs (sb s) (sb t)" using assms(1) by (simp add: sys_step_def)
  show ?thesis
    unfolding cs_step_def lib_step_def
    using assms cs desc sub same_subs_nth [OF sub assms(2)]
    by (auto simp: sys_step_def same_subs_def counted_def registered_index intro!: exI [of _ cs])
qed

lemma rec_cs: "rec_step s t \<Longrightarrow> fdir_inv s \<Longrightarrow> cs_step up s t"
  by (rule sys_cs) (auto simp: rec_step_def dest: fdir_invD(6))

text \<open>
  \<open>open_step s0 s\<close>: from \<open>s0\<close>, with the lock free, to \<open>s\<close> inside a critical section. Entering opens,
  code under the lock keeps it open, leaving closes.
\<close>

definition has_lock :: "'e fdir \<Rightarrow> bool" where
  "has_lock s \<longleftrightarrow> g_port_ready s \<and> lock (g_port s) \<noteq> None"

definition open_step :: "bool \<Rightarrow> 'e fdir \<Rightarrow> 'e fdir \<Rightarrow> bool" where
  "open_step up s s' \<longleftrightarrow>
     lib_step (\<lambda>cs. lock_paired s \<longrightarrow> lock_run False cs = Some (has_lock s)) up s s'"

lemma open_enter:
  assumes "api_step up s t"
  shows "open_step up s (fdir_port_sync_enter t)"
proof -
  have port: "g_port t = g_port s" "g_port_ready t = g_port_ready s"
    using assms by (simp_all add: api_step_def lib_step_def)
  have "lib_step (\<lambda>cs. cs = (if has_lock s then [Call_lock] else [])) up t (fdir_port_sync_enter t)"
    by (auto simp: lib_step_def calls_sync_enter has_lock_def port restarts_def)
  with assms show ?thesis
    unfolding open_step_def api_step_def
    by (rule lib_step_comp) (auto simp: lock_run_append has_lock_def)
qed

lemma open_section: "open_step up s t \<Longrightarrow> cs_step up t u \<Longrightarrow> open_step up s u"
  unfolding open_step_def cs_step_def
  by (erule (1) lib_step_comp) (auto simp: lock_run_append lock_run_quiet)

lemma open_exit:
  assumes "open_step up s t"
  shows "api_step up s (fdir_port_sync_exit t)"
proof -
  have port: "g_port t = g_port s" "g_port_ready t = g_port_ready s"
    using assms by (simp_all add: open_step_def lib_step_def)
  have "lib_step (\<lambda>cs. cs = (if g_port_ready s \<and> unlock (g_port s) \<noteq> None then [Call_unlock] else []))
      up t (fdir_port_sync_exit t)"
    by (auto simp: lib_step_def calls_sync_exit port restarts_def)
  with assms show ?thesis
    unfolding open_step_def api_step_def
    by (rule lib_step_comp) (auto simp: lock_run_append has_lock_def lock_paired_def)
qed

lemma api_section: "cs_step up (fdir_port_sync_enter s) t \<Longrightarrow> api_step up s (fdir_port_sync_exit t)"
  by (intro open_exit open_section [OF open_enter [OF api.refl]])

lemma api_step_section_refl: "api_step up s (fdir_port_sync_exit (fdir_port_sync_enter s))"
  by (rule api_section) (rule cs.refl)


subsection \<open>Handling a failure\<close>

lemma call_decide_rec: "rec_step s (snd (call_decide eid slot report s))"
  by (auto simp: call_decide_def Let_def quiet_def split: option.split prod.split intro!: rec_step_ext)

lemma latch_set_rec:
  assumes "fdir_health_latch_fault_unsafe eid reason (hl s) = Some (rc, h)"
    "fdir_health_set_unsafe eid health code detail h = Some h'"
  shows "rec_step s (s\<lparr>hl := h'\<rparr>)"
proof (rule rec_step_hl)
  have "hl_step (hl s) h" "hl_step h h'"
    using keepsD [OF latch_keeps assms(1)] keepsD [OF set_unsafe_keeps assms(2)] by simp_all
  then show "g_entity_limit h' = g_entity_limit (hl s)" "health_inv (hl s) \<longrightarrow> health_inv h'"
    by (simp_all add: hl_step_def)
qed

text \<open>The critical section of \<open>fdir_handle_failure\<close> starts in this state.\<close>

definition handling :: "'e fdir \<Rightarrow> 'e fdir" where
  "handling s = fdir_port_sync_enter (fdir_port_sync_exit (fdir_port_sync_enter s))"

lemma outside_handling: "outside s (handling s)"
  unfolding handling_def by (meson outside_enter outside_exit outside_trans)

lemma handling_simps [simp]:
  "fq (handling s) = fq s" "hl (handling s) = hl s" "sb (handling s) = sb s"
  "g_entities (handling s) = g_entities s" "g_entity_count (handling s) = g_entity_count s"
  "g_mode (handling s) = g_mode s" "g_config (handling s) = g_config s"
  "g_supervision_enabled (handling s) = g_supervision_enabled s"
  "fdir_inv (handling s) = fdir_inv s" "live (handling s) = live s"
  "registered i (handling s) = registered i s"
  by (simp_all add: handling_def registered_def)

definition raise_event :: "fdir_failure_report \<Rightarrow> 'e fdir \<Rightarrow> 'e fdir option" where
  "raise_event r s =
     emit_event_full (if rep_reason r = FDIR_REASON_WATCHDOG then FDIR_EVENT_WATCHDOG else FDIR_EVENT_FAILURE)
       (g_mode s) (rep_entity r) (rep_reason r) (rep_error_code r) FDIR_LEVEL_ENTITY
       FDIR_ANOMALY_RAISED (Some (cstr (rep_detail r))) s"

lemma raise_event_rec: "keeps (raise_event r s) (rec_step s)"
  unfolding raise_event_def by (rule emit_rec_keeps) simp_all

lemma registered_check:
  assumes "fdir_inv s"
  shows "(if eid \<ge> g_entity_count s then Some False
     else Option.bind (arr_get (g_entities s) (unat eid)) (\<lambda>slot. Some (es_used slot \<noteq> 0))) =
     Some (registered eid s)"
  using registered_index [OF assms, of eid] registered_slot(1) [OF assms, of eid]
  by (cases "registered eid s") (simp_all add: registered_def not_less not_le)

lemma supervision_enabled_eq:
  "fdir_supervision_enabled s = (g_supervision_enabled s, fdir_port_sync_exit (fdir_port_sync_enter s))"
  by (simp add: fdir_supervision_enabled_def Let_def)

lemma handle_failure_eq:
  assumes "fdir_inv s"
  shows "fdir_handle_failure (Some r) s =
    (if g_supervision_enabled s = 0 then Some (fdir_port_sync_exit (fdir_port_sync_enter s))
     else if latched (rep_entity r) (rep_reason r) (hl s) then Some (fdir_port_sync_exit (handling s))
     else Option.bind (raise_event r (handling s)) (\<lambda>s.
       Option.bind (if registered (rep_entity r) s then recover_entity r s else enter_degraded_mode_unsafe s)
         (\<lambda>s. Some (fdir_port_sync_exit s))))"
proof -
  have la: "fdir_health_fault_is_latched_unsafe (rep_entity r) (rep_reason r) (hl (handling s)) =
      Some (if latched (rep_entity r) (rep_reason r) (hl s) then 1 else 0)"
    using fdir_invD(3) [OF assms] by (simp add: is_latched_unsafe_eq)
  show ?thesis
  proof (cases "raise_event r (handling s)")
    case None
    then show ?thesis
      unfolding fdir_handle_failure_def option.case supervision_enabled_eq Let_def prod.case
        handling_def [symmetric] la
      unfolding Option.bind.simps raise_event_def [symmetric] by simp
  next
    case (Some t)
    have "fdir_inv t"
      using rec_step_frame(9) [OF keepsD [OF raise_event_rec Some]] assms by simp
    from registered_check [OF this] Some show ?thesis
      unfolding fdir_handle_failure_def option.case supervision_enabled_eq Let_def prod.case
        handling_def [symmetric] la
      unfolding Option.bind.simps raise_event_def [symmetric] by simp
  qed
qed

lemma recover_entity_last:
  assumes "recover_entity r s = Some s'"
  obtains v where "rec_step s v" "evaluate_dual_path v = Some s'"
proof -
  from assms obtain rc h h' action s1 s2 where
    h: "fdir_health_latch_fault_unsafe (rep_entity r) (rep_reason r) (hl s) = Some (rc, h)"
      "fdir_health_set_unsafe (rep_entity r) FDIR_HEALTH_FAILED (rep_error_code r)
        (Some (cstr (rep_detail r))) h = Some h'" and
    s1: "resolve_exhausted_action (rep_entity r) action r
      (snd (call_decide (rep_entity r) (g_entities s ! unat (rep_entity r)) r (s\<lparr>hl := h'\<rparr>))) = Some s1" and
    s2: "apply_action (rep_entity r) (fst s1) r (snd s1) = Some s2" and
    s': "evaluate_dual_path s2 = Some s'"
    by (auto simp: recover_entity_def Let_def arr_get_Some split_beta split: bind_splits)
  note latch_set_rec [OF h]
  also note call_decide_rec
  also have "rec_step (snd (call_decide (rep_entity r) (g_entities s ! unat (rep_entity r)) r
      (s\<lparr>hl := h'\<rparr>))) (snd s1)"
    using keepsD [OF resolve_keeps s1] by (simp add: split_beta)
  also note keepsD [OF apply_action_keeps s2]
  finally show ?thesis using s' by (rule that)
qed

lemma recover_entity_keeps: "keeps (recover_entity r s) (rec_step s)"
  unfolding keeps_def
  by (metis recover_entity_last rec.trans keepsD [OF evaluate_dual_path_keeps])

text \<open>Handling a failure keeps the API contract; the queue and the gate are not touched.\<close>

lemma handle_failure_keeps:
  assumes "fdir_inv s"
  shows "keeps (fdir_handle_failure report s)
     (\<lambda>s'. api_step True s s' \<and> fq s' = fq s \<and> g_supervision_enabled s' = g_supervision_enabled s \<and>
           g_entity_count s' = g_entity_count s)"
proof (cases report)
  case None
  then show ?thesis by (simp add: fdir_handle_failure_def api.refl)
next
  case (Some r)
  have body: "keeps (Option.bind (raise_event r (handling s)) (\<lambda>s. if registered (rep_entity r) s
      then recover_entity r s else enter_degraded_mode_unsafe s)) (rec_step (handling s))"
    by (rule rec.keeps_seq [OF raise_event_rec]) (simp add: recover_entity_keeps enter_degraded_keeps)
  have exit: "api_step True s (fdir_port_sync_exit t)" if "rec_step (handling s) t" for t
  proof -
    have "api_step True s (fdir_port_sync_exit (fdir_port_sync_enter s))"
      by (rule api_step_section_refl)
    also have "api_step True (fdir_port_sync_exit (fdir_port_sync_enter s)) (fdir_port_sync_exit t)"
      using rec_cs [OF that] assms by (intro api_section) (simp add: handling_def)
    finally (api.trans) show ?thesis .
  qed
  have frame: "fq t = fq s \<and> g_supervision_enabled t = g_supervision_enabled s \<and>
      g_entity_count t = g_entity_count s" if "rec_step (handling s) t" for t
    using rec_step_frame [OF that] by simp
  have "keeps (Option.bind (Option.bind (raise_event r (handling s)) (\<lambda>s. if registered (rep_entity r) s
      then recover_entity r s else enter_degraded_mode_unsafe s)) (\<lambda>s. Some (fdir_port_sync_exit s)))
     (\<lambda>s'. api_step True s s' \<and> fq s' = fq s \<and> g_supervision_enabled s' = g_supervision_enabled s \<and>
           g_entity_count s' = g_entity_count s)"
    by (rule keeps_bindI [OF body]) (simp add: exit frame)
  then show ?thesis
    unfolding Some handle_failure_eq [OF assms] Option.bind_assoc keeps_if
    using exit [OF rec_step_refl] by (simp add: api_step_section_refl)
qed

lemma recover_entity_returns:
  assumes "live s" "registered (rep_entity r) s"
  shows "returns (recover_entity r s) (\<lambda>_. True)"
proof -
  let ?e = "rep_entity r"
  obtain rc h where h: "fdir_health_latch_fault_unsafe ?e (rep_reason r) (hl s) = Some (rc, h)"
    using latch_returns(1) [OF assms, of "rep_reason r"] by (auto simp: returns_def)
  have "health_inv h" using keepsD [OF latch_keeps h] liveD(5) [OF assms(1)] by (simp add: hl_step_def)
  then obtain h' where h': "fdir_health_set_unsafe ?e FDIR_HEALTH_FAILED (rep_error_code r)
      (Some (cstr (rep_detail r))) h = Some h'"
    by (cases rule: set_unsafe_cases [of h ?e FDIR_HEALTH_FAILED "rep_error_code r" "Some (cstr (rep_detail r))"]) auto
  define s1 where "s1 = snd (call_decide ?e (g_entities s ! unat ?e) r (s\<lparr>hl := h'\<rparr>))"
  have s1: "rec_step s s1"
    unfolding s1_def using latch_set_rec [OF h h'] call_decide_rec by (rule rec.trans)
  have l1: "live s1" "registered ?e s1"
    using s1 assms rec_step_live rec_step_registered by blast+
  have "returns (Option.bind (resolve_exhausted_action ?e a r s1)
      (\<lambda>(a, s). Option.bind (apply_action ?e a r s) evaluate_dual_path)) (\<lambda>_. True)" for a
  proof (rule rec.returns_seq_pair [OF resolve_returns [OF l1] resolve_keeps], simp)
    fix a t assume "rec_step s1 t"
    then have "live t" "registered ?e t" using l1 rec_step_live rec_step_registered by blast+
    then show "returns (Option.bind (apply_action ?e a r t) evaluate_dual_path) (\<lambda>_. True)"
      by (intro rec.returns_seq [OF apply_action_returns apply_action_keeps] enter_modes_return)
        (blast intro: rec_step_live)+
  qed
  then show ?thesis
    using h h' registered_index [OF liveD(1) [OF assms(1)] assms(2)]
    by (simp add: recover_entity_def Let_def split_beta s1_def)
qed

lemma handle_failure_returns:
  assumes "live s"
  shows "returns (fdir_handle_failure report s) (\<lambda>_. True)"
proof (cases report)
  case None
  then show ?thesis by (simp add: fdir_handle_failure_def)
next
  case (Some r)
  have lh: "live (handling s)" using assms by simp
  have "returns (Option.bind (raise_event r (handling s)) (\<lambda>s.
       Option.bind (if registered (rep_entity r) s then recover_entity r s else enter_degraded_mode_unsafe s)
         (\<lambda>s. Some (fdir_port_sync_exit s)))) (\<lambda>_. True)"
  proof (rule rec.returns_seq [OF _ raise_event_rec])
    show "returns (raise_event r (handling s)) (\<lambda>_. True)"
      unfolding raise_event_def by (rule live_hooks_return(3) [OF lh])
    fix t assume "rec_step (handling s) t"
    then have "live t" using lh rec_step_live by blast
    then show "returns (Option.bind (if registered (rep_entity r) t then recover_entity r t
        else enter_degraded_mode_unsafe t) (\<lambda>s. Some (fdir_port_sync_exit s))) (\<lambda>_. True)"
      by (intro returns_bindI [where P = "\<lambda>_. True"])
        (simp_all add: recover_entity_returns enter_modes_return)
  qed
  then show ?thesis
    unfolding Some handle_failure_eq [OF liveD(1) [OF assms]] by simp
qed

end
