(* ===== verification/Supervisor.thy ===== *)
theory Supervisor
  imports Api_Contract
begin

text \<open>
  The rest of \<open>src/recovery.c\<close>: initialisation, registration, the queries and mode commands, and
  the supervisor with its two loops. Each definition takes and releases the port lock where the C
  function does.
\<close>

subsection \<open>Initialisation and registration\<close>

definition fdir_init :: "'e fdir_config option \<Rightarrow> 'e fdir_port option \<Rightarrow> 'e fdir \<Rightarrow> fdir_status \<times> 'e fdir" where
  "fdir_init config port s =
     (let (port_status, s) = fdir_port_bind port s in
      if port_status \<noteq> FDIR_OK then (port_status, s)
      else
        let s = fdir_internal_set_config config s;
            s = s\<lparr>hl := fdir_health_init (hl s)\<rparr>;
            s = s\<lparr>sb := fdir_subsystems_init (sb s)\<rparr>;
            s = s\<lparr>fq := fdir_failure_queue_init (fq s)\<rparr>;
            s = s\<lparr>g_entities := replicate FDIR_ENTITY_CAP zero_entity_slot\<rparr>;
            s = s\<lparr>g_entity_count := 0\<rparr>;
            s = s\<lparr>g_mode := FDIR_MODE_NOMINAL\<rparr>;
            s = s\<lparr>g_supervision_enabled := 1\<rparr>
        in (FDIR_OK, s))"

definition fdir_entity_register ::
  "'e fdir_entity_desc option \<Rightarrow> fdir_entity_id option \<Rightarrow> 'e fdir
     \<Rightarrow> ((fdir_status \<times> fdir_entity_id option) \<times> 'e fdir) option" where
  "fdir_entity_register desc out_id s =
     do {
       let s = fdir_port_sync_enter s;
       case desc of
         None \<Rightarrow> Some ((FDIR_ERR_PARAM, out_id), fdir_port_sync_exit s)
       | Some d \<Rightarrow>
           if out_id = None then Some ((FDIR_ERR_PARAM, out_id), fdir_port_sync_exit s)
           else if unat (g_entity_count s) \<ge> FDIR_ENTITY_CAP then
             Some ((FDIR_ERR_FULL, out_id), fdir_port_sync_exit s)
           else if ed_on_exhausted d = FDIR_ACTION_RESTART then
             Some ((FDIR_ERR_PARAM, out_id), fdir_port_sync_exit s)
           else do {
             let eid = g_entity_count s;
             let s = s\<lparr>g_entity_count := eid + 1\<rparr>;
             slot \<leftarrow> arr_get (g_entities s) (unat eid);
             nm \<leftarrow> copy_detail (es_name slot) (ed_name d);
             ents \<leftarrow> arr_set (g_entities s) (unat eid)
               (slot\<lparr>es_desc := d\<lparr>ed_name := Some (cstr nm)\<rparr>, es_name := nm, es_used := 1,
                     es_restart_count := 0, es_watchdog_restart_count := 0\<rparr>);
             let s = s\<lparr>g_entities := ents\<rparr>;
             let s = s\<lparr>hl := fdir_health_set_entity_limit (g_entity_count s) (hl s)\<rparr>;
             s \<leftarrow> fdir_health_reset_unsafe eid s;
             Some ((FDIR_OK, Some eid), fdir_port_sync_exit s)
           }
     }"


subsection \<open>Queries\<close>

definition fdir_entity_count :: "'e fdir \<Rightarrow> fdir_entity_id" where
  "fdir_entity_count s = g_entity_count s"

definition fdir_entity_name :: "fdir_entity_id \<Rightarrow> 'e fdir \<Rightarrow> string option" where
  "fdir_entity_name eid s =
     do {
       known \<leftarrow> (if eid \<ge> g_entity_count s then Some False
          else do { slot \<leftarrow> arr_get (g_entities s) (unat eid); Some (es_used slot \<noteq> 0) });
       if \<not> known then Some ''unknown''
       else do {
         slot \<leftarrow> arr_get (g_entities s) (unat eid);
         Some (case ed_name (es_desc slot) of None \<Rightarrow> ''unnamed'' | Some n \<Rightarrow> n)
       }
     }"

definition fdir_system_mode :: "'e fdir \<Rightarrow> fdir_mode \<times> 'e fdir" where
  "fdir_system_mode s =
     (let s = fdir_port_sync_enter s; mode = g_mode s in (mode, fdir_port_sync_exit s))"

definition fdir_supervision_enabled_unsafe :: "'e fdir \<Rightarrow> fdir_bool" where
  "fdir_supervision_enabled_unsafe s = g_supervision_enabled s"

definition fdir_entity_may_run :: "fdir_entity_id \<Rightarrow> 'e fdir \<Rightarrow> (fdir_bool \<times> 'e fdir) option" where
  "fdir_entity_may_run eid s =
     do {
       let s = fdir_port_sync_enter s;
       if g_supervision_enabled s = 0 then Some (1, fdir_port_sync_exit s)
       else if g_mode s \<ge> FDIR_MODE_SAFE then Some (0, fdir_port_sync_exit s)
       else do {
         snapshot \<leftarrow> fdir_health_snapshot eid (hl s);
         case snapshot of
           None \<Rightarrow> Some (0, fdir_port_sync_exit s)
         | Some snap \<Rightarrow>
             if hs_health snap = FDIR_HEALTH_FAILED then Some (0, fdir_port_sync_exit s)
             else Some (1, fdir_port_sync_exit s)
       }
     }"

definition fdir_config_get :: "'e fdir \<Rightarrow> 'e fdir_config" where
  "fdir_config_get s = fdir_internal_get_config s"

definition fdir_heartbeat_max_age_ms :: "'e fdir \<Rightarrow> u32" where
  "fdir_heartbeat_max_age_ms s =
     (let cfg = fdir_internal_get_config s
      in ucast (missed_heartbeat_tolerance cfg) * health_check_period_ms cfg)"


subsection \<open>Mode commands, the supervision gate, notes\<close>

definition fdir_set_supervision_enabled :: "fdir_bool \<Rightarrow> 'e fdir \<Rightarrow> (fdir_bool \<times> 'e fdir) option" where
  "fdir_set_supervision_enabled enabled s =
     do {
       let s = fdir_port_sync_enter s;
       let prev = g_supervision_enabled s;
       if prev = enabled then Some (prev, fdir_port_sync_exit s)
       else do {
         let s = s\<lparr>g_supervision_enabled := enabled\<rparr>;
         let s = (if enabled = 0 then s\<lparr>fq := fdir_failure_queue_init (fq s)\<rparr> else s);
         s \<leftarrow> emit_event_full FDIR_EVENT_NOTE (g_mode s) FDIR_ENTITY_NONE FDIR_REASON_USER 0
                FDIR_LEVEL_SYSTEM FDIR_ANOMALY_RAISED
                (Some (if enabled \<noteq> 0 then ''supervision_enabled'' else ''supervision_disabled'')) s;
         Some (prev, fdir_port_sync_exit s)
       }
     }"

definition fdir_set_system_mode :: "fdir_mode \<Rightarrow> 'e fdir \<Rightarrow> (fdir_status \<times> 'e fdir) option" where
  "fdir_set_system_mode mode s =
     do {
       let s = fdir_port_sync_enter s;
       if mode > FDIR_MODE_REBOOT_PENDING then Some (FDIR_ERR_PARAM, fdir_port_sync_exit s)
       else if mode = FDIR_MODE_REBOOT_PENDING then Some (FDIR_ERR_STATE, fdir_port_sync_exit s)
       else do {
         s \<leftarrow> set_mode mode FDIR_ENTITY_NONE (Some ''ground_mode_set'') None s;
         Some (FDIR_OK, fdir_port_sync_exit s)
       }
     }"

definition fdir_deescalate_system_mode :: "'e fdir \<Rightarrow> (fdir_status \<times> 'e fdir) option" where
  "fdir_deescalate_system_mode s =
     do {
       let status = FDIR_OK;
       let s = fdir_port_sync_enter s;
       (status, s) \<leftarrow>
         (if g_mode s = FDIR_MODE_SAFE then do {
            s \<leftarrow> set_mode FDIR_MODE_DEGRADED FDIR_ENTITY_NONE (Some ''ground_deescalate'') None s;
            Some (status, s)
          }
          else if g_mode s = FDIR_MODE_DEGRADED then do {
            s \<leftarrow> set_mode FDIR_MODE_NOMINAL FDIR_ENTITY_NONE (Some ''ground_deescalate'') None s;
            Some (status, s)
          }
          else if g_mode s = FDIR_MODE_NOMINAL then Some (FDIR_ERR_STATE, s)
          else Some (FDIR_ERR_STATE, s));
       Some (status, fdir_port_sync_exit s)
     }"

definition fdir_enter_degraded_mode :: "'e fdir \<Rightarrow> 'e fdir option" where
  "fdir_enter_degraded_mode s =
     do {
       let s = fdir_port_sync_enter s;
       s \<leftarrow> enter_degraded_mode_unsafe s;
       Some (fdir_port_sync_exit s)
     }"

definition fdir_enter_safe_mode :: "'e fdir \<Rightarrow> 'e fdir option" where
  "fdir_enter_safe_mode s =
     do {
       let s = fdir_port_sync_enter s;
       s \<leftarrow> enter_safe_mode_unsafe s;
       Some (fdir_port_sync_exit s)
     }"

definition fdir_reassess_system_mode :: "'e fdir \<Rightarrow> 'e fdir option" where
  "fdir_reassess_system_mode s =
     do {
       let s = fdir_port_sync_enter s;
       s \<leftarrow> evaluate_dual_path s;
       Some (fdir_port_sync_exit s)
     }"

definition fdir_try_reboot :: "string option \<Rightarrow> 'e fdir \<Rightarrow> 'e fdir option" where
  "fdir_try_reboot reason s =
     do {
       let s = fdir_port_sync_enter s;
       s \<leftarrow> try_reboot_unsafe reason s;
       Some (fdir_port_sync_exit s)
     }"

definition fdir_log_note :: "string option \<Rightarrow> 'e fdir \<Rightarrow> 'e fdir option" where
  "fdir_log_note note s =
     do {
       let s = fdir_port_sync_enter s;
       s \<leftarrow> emit_event_full FDIR_EVENT_NOTE (g_mode s) FDIR_ENTITY_NONE FDIR_REASON_USER 0
              FDIR_LEVEL_SYSTEM FDIR_ANOMALY_RAISED note s;
       Some (fdir_port_sync_exit s)
     }"

text \<open>\<open>snprintf (detail, 32, \<dots>)\<close> leaves the first 31 bytes of the text in \<open>detail\<close>, terminated.\<close>

definition overflow_text :: "u16 \<Rightarrow> u32 \<Rightarrow> u32 \<Rightarrow> string" where
  "overflow_text queue_id overflow_delta depth_high_water =
     ''q'' @ dec (unat queue_id) @ '' d'' @ dec (unat overflow_delta) @ '' h'' @ dec (unat depth_high_water)"

definition fdir_log_queue_overflow :: "u16 \<Rightarrow> u32 \<Rightarrow> u32 \<Rightarrow> 'e fdir \<Rightarrow> 'e fdir option" where
  "fdir_log_queue_overflow queue_id overflow_delta depth_high_water s =
     do {
       let detail = take (FDIR_DETAIL_SIZE - 1) (overflow_text queue_id overflow_delta depth_high_water);
       let s = fdir_port_sync_enter s;
       s \<leftarrow> emit_event_full FDIR_EVENT_QUEUE_OVERFLOW (g_mode s) FDIR_ENTITY_NONE
              FDIR_REASON_QUEUE_OVERFLOW queue_id FDIR_LEVEL_SYSTEM FDIR_ANOMALY_RAISED (Some detail) s;
       Some (fdir_port_sync_exit s)
     }"


subsection \<open>The watchdog scan\<close>

text \<open>
  The report built for a stale entity. The loop runs with the lock held and lets go of it around
  \<open>fdir_handle_failure\<close>; the bound \<open>g_entity_count\<close> is read again in every round.
\<close>

definition watchdog_report :: "fdir_entity_id \<Rightarrow> u32 \<Rightarrow> fdir_failure_report option" where
  "watchdog_report eid now_ms =
     do {
       let report = zero_report\<lparr>rep_entity := eid, rep_reason := FDIR_REASON_WATCHDOG,
             rep_error_code := 0, rep_timestamp_ms := now_ms, rep_flags := FDIR_FAULT_FLAG_CRITICAL\<rparr>;
       d \<leftarrow> copy_detail (rep_detail report) (Some ''heartbeat_timeout'');
       Some (report\<lparr>rep_detail := d\<rparr>)
     }"

text \<open>Whether the scan passes over an entity: the three \<open>continue\<close> guards and the stale test.\<close>

definition watchdog_skips :: "fdir_entity_id \<Rightarrow> u32 \<Rightarrow> u32 \<Rightarrow> 'e fdir \<Rightarrow> bool option" where
  "watchdog_skips eid now_ms max_age s =
     do {
       slot \<leftarrow> arr_get (g_entities s) (unat eid);
       if es_used slot = 0 then Some True
       else do {
         latched \<leftarrow> fdir_health_fault_is_latched_unsafe eid FDIR_REASON_WATCHDOG (hl s);
         if latched \<noteq> 0 then Some True
         else do {
           snapshot \<leftarrow> fdir_health_snapshot eid (hl s);
           case snapshot of
             None \<Rightarrow> Some True
           | Some snap \<Rightarrow>
               if hs_health snap = FDIR_HEALTH_FAILED then Some True
               else do {
                 stale \<leftarrow> fdir_health_is_stale eid now_ms max_age (hl s);
                 Some (stale = 0)
               }
         }
       }
     }"

function watchdog_loop :: "fdir_entity_id \<Rightarrow> u32 \<Rightarrow> u32 \<Rightarrow> 'e fdir \<Rightarrow> 'e fdir option" where
  "watchdog_loop eid now_ms max_age s =
     (if eid < g_entity_count s then
        do {
          skip \<leftarrow> watchdog_skips eid now_ms max_age s;
          if skip then watchdog_loop (eid + 1) now_ms max_age s
          else do {
            report \<leftarrow> watchdog_report eid now_ms;
            let s = fdir_port_sync_exit s;
            s \<leftarrow> fdir_handle_failure (Some report) s;
            let s = fdir_port_sync_enter s;
            watchdog_loop (eid + 1) now_ms max_age s
          }
        }
      else Some s)"
  by pat_completeness auto
termination
proof (relation "measure (\<lambda>(eid, _, _, _). 256 - unat eid)")
  fix eid :: fdir_entity_id and s :: "'e fdir"
  assume "eid < g_entity_count s"
  then have "unat (eid + 1) = Suc (unat eid)" by (rule unat_inc)
  then have less: "256 - unat (eid + 1) < 256 - unat eid" using unat_u8_bound [of eid] by simp
  show "((eid + 1, now_ms, max_age, u), (eid, now_ms, max_age, s)) \<in> measure (\<lambda>(eid, _, _, _). 256 - unat eid)"
    "((eid + 1, now_ms, max_age, v), (eid, now_ms, max_age, s)) \<in> measure (\<lambda>(eid, _, _, _). 256 - unat eid)"
    for now_ms max_age :: u32 and u v :: "'e fdir"
    using less by simp_all
qed simp

declare watchdog_loop.simps [simp del]

definition fdir_check_watchdogs :: "'e fdir \<Rightarrow> 'e fdir option" where
  "fdir_check_watchdogs s =
     do {
       (now_ms, s) \<leftarrow> fdir_get_now_ms s;
       let max_age = fdir_heartbeat_max_age_ms s;
       let (enabled, s) = fdir_supervision_enabled s;
       if enabled = 0 then Some s
       else do {
         let s = fdir_port_sync_enter s;
         s \<leftarrow> watchdog_loop 0 now_ms max_age s;
         Some (fdir_port_sync_exit s)
       }
     }"


subsection \<open>The supervisor\<close>

lemma handle_failure_fq: "keeps (fdir_handle_failure report s) (\<lambda>s'. fq s' = fq s)"
proof (cases report)
  case None
  then show ?thesis by (simp add: fdir_handle_failure_def)
next
  case (Some r)
  have "keeps (raise_event r v) (\<lambda>s'. fq s' = fq v)" "keeps (recover_entity r v) (\<lambda>s'. fq s' = fq v)"
    "keeps (enter_degraded_mode_unsafe v) (\<lambda>s'. fq s' = fq v)" for v :: "'a fdir"
    by (auto intro: keeps_mono [OF raise_event_rec] keeps_mono [OF recover_entity_keeps]
        keeps_mono [OF enter_degraded_keeps] simp: rec_step_frame(4))
  then show ?thesis
    unfolding Some fdir_handle_failure_def option.case supervision_enabled_eq Let_def prod.case
      handling_def [symmetric] raise_event_def [symmetric]
    by (auto simp: keeps_def split: bind_splits if_splits)
qed

lemma queue_get_count:
  assumes "fdir_failure_queue_get (Some r) s = Some ((0, out), s')"
  shows "unat (g_count (fq s')) < unat (g_count (fq s))"
proof -
  have "queue_get_locked r (fq s) = Some (0, the out, fq s')"
    using assms by (auto simp: fdir_failure_queue_get_def split: bind_splits)
  then have "g_count (fq s) \<noteq> 0" "g_count (fq s') = g_count (fq s) - 1"
    by (auto simp: queue_get_locked_def split: if_splits bind_splits dest!: sym [of _ "fq s'"])
  then show ?thesis
    by (simp add: unat_dec unat_gt_0)
qed

text \<open>The loop of \<open>fdir_supervisor_tick\<close>; \<open>report\<close> is the value left in the local variable.\<close>

function drain_queue :: "fdir_failure_report \<Rightarrow> 'e fdir \<Rightarrow> 'e fdir option" where
  "drain_queue report s =
     do {
       (r, s) \<leftarrow> fdir_failure_queue_get (Some report) s;
       case r of
         (rc, out) \<Rightarrow>
           if rc = 0 then
             (case out of
                None \<Rightarrow> None
              | Some report \<Rightarrow> do {
                  s \<leftarrow> fdir_handle_failure (Some report) s;
                  drain_queue report s
                })
           else Some s
     }"
  by pat_completeness auto
termination
proof (relation "measure (\<lambda>(_, s). unat (g_count (fq s)))")
  show "wf (measure (\<lambda>(_, s :: 'e fdir). unat (g_count (fq s))))" by simp
qed (auto dest!: queue_get_count keepsD [OF handle_failure_fq])

declare drain_queue.simps [simp del]

text \<open>
  The local variable is not initialised in the source; the loop writes it before it reads it, so
  the value it starts with does not matter (lemma \<open>drain_queue_start\<close>).
\<close>

definition fdir_supervisor_tick :: "'e fdir \<Rightarrow> 'e fdir option" where
  "fdir_supervisor_tick s =
     do {
       let (enabled, s) = fdir_supervision_enabled s;
       if enabled = 0 then Some s
       else do {
         s \<leftarrow> drain_queue zero_report s;
         fdir_check_watchdogs s
       }
     }"

lemma drain_queue_start: "drain_queue r s = drain_queue r' s"
  by (subst (1 2) drain_queue.simps) (simp add: fdir_failure_queue_get_def queue_get_locked_def Let_def)

end
