(* ===== verification/Report.thy ===== *)
theory Report
  imports Supervisor
begin

text \<open>
  \<open>src/report.c\<close>, the entry for faults raised by application code, and \<open>src/worker.c\<close>, the check
  a worker makes in its loop.
\<close>

definition critical_flag :: "fdir_failure_report \<Rightarrow> bool" where
  "critical_flag report \<longleftrightarrow> rep_flags report AND FDIR_FAULT_FLAG_CRITICAL \<noteq> 0"

definition enqueue_failure_unsafe ::
  "fdir_failure_report \<Rightarrow> failure_queue \<Rightarrow> (fdir_status \<times> failure_queue) option" where
  "enqueue_failure_unsafe report q =
     do {
       (rc, q) \<leftarrow> fdir_failure_queue_put_unsafe (Some report) q;
       if rc \<noteq> 0 then
         (if critical_flag report then Some (FDIR_ERR_BUSY, q) else Some (FDIR_ERR_STATE, q))
       else Some (FDIR_OK, q)
     }"

definition fdir_submit_failure ::
  "fdir_failure_report option \<Rightarrow> 'e fdir \<Rightarrow> (fdir_status \<times> 'e fdir) option" where
  "fdir_submit_failure report s =
     (case report of
        None \<Rightarrow> Some (FDIR_ERR_PARAM, s)
      | Some r \<Rightarrow> do {
          let (enabled, s) = fdir_supervision_enabled s;
          if enabled = 0 then Some (FDIR_OK, s)
          else do {
            (rc, s) \<leftarrow> fdir_failure_queue_put (Some r) s;
            if rc \<noteq> 0 then
              (if critical_flag r then Some (FDIR_ERR_BUSY, s) else Some (FDIR_ERR_STATE, s))
            else Some (FDIR_OK, s)
          }
        })"

definition report_fault_impl ::
  "fdir_entity_id \<Rightarrow> fdir_reason \<Rightarrow> u16 \<Rightarrow> string option \<Rightarrow> u8 \<Rightarrow> 'e fdir \<Rightarrow> (fdir_status \<times> 'e fdir) option" where
  "report_fault_impl entity reason error_code detail flags s =
     do {
       let s = fdir_port_sync_enter s;
       if fdir_supervision_enabled_unsafe s = 0 then Some (FDIR_OK, fdir_port_sync_exit s)
       else do {
         latched \<leftarrow> fdir_health_fault_is_latched_unsafe entity reason (hl s);
         if latched \<noteq> 0 then Some (FDIR_OK, fdir_port_sync_exit s)
         else do {
           snapshot \<leftarrow> fdir_health_snapshot entity (hl s);
           let failed = (case snapshot of None \<Rightarrow> False | Some snap \<Rightarrow> hs_health snap = FDIR_HEALTH_FAILED);
           if failed then Some (FDIR_OK, fdir_port_sync_exit s)
           else do {
             let report = zero_report\<lparr>rep_entity := entity, rep_reason := reason, rep_error_code := error_code\<rparr>;
             (now, s) \<leftarrow> fdir_get_now_ms s;
             let report = report\<lparr>rep_timestamp_ms := now, rep_flags := flags\<rparr>;
             d \<leftarrow> copy_detail (rep_detail report) detail;
             let report = report\<lparr>rep_detail := d\<rparr>;
             (status, q) \<leftarrow> enqueue_failure_unsafe report (fq s);
             let s = s\<lparr>fq := q\<rparr>;
             if status \<noteq> FDIR_OK then Some (status, fdir_port_sync_exit s)
             else do {
               h \<leftarrow> fdir_health_set_unsafe entity FDIR_HEALTH_FAILED error_code detail (hl s);
               let s = s\<lparr>hl := h\<rparr>;
               Some (FDIR_OK, fdir_port_sync_exit s)
             }
           }
         }
       }
     }"

definition fdir_report_fault ::
  "fdir_entity_id \<Rightarrow> fdir_reason \<Rightarrow> u16 \<Rightarrow> string option \<Rightarrow> 'e fdir \<Rightarrow> (fdir_status \<times> 'e fdir) option" where
  "fdir_report_fault entity reason error_code detail s =
     report_fault_impl entity reason error_code detail FDIR_FAULT_FLAG_CRITICAL s"

definition fdir_report_fault_ex ::
  "fdir_entity_id \<Rightarrow> fdir_reason \<Rightarrow> u16 \<Rightarrow> string option \<Rightarrow> u8 \<Rightarrow> 'e fdir \<Rightarrow> (fdir_status \<times> 'e fdir) option" where
  "fdir_report_fault_ex entity reason error_code detail flags s =
     report_fault_impl entity reason error_code detail flags s"

definition fdir_worker_may_run :: "fdir_entity_id \<Rightarrow> 'e fdir \<Rightarrow> (fdir_bool \<times> 'e fdir) option" where
  "fdir_worker_may_run eid s =
     do {
       let (mode, s) = fdir_system_mode s;
       if mode \<ge> FDIR_MODE_SAFE then do {
         s \<leftarrow> fdir_health_heartbeat_notify eid s;
         Some (0, s)
       }
       else fdir_entity_may_run eid s
     }"

end
