(* ===== verification/Api_Safety.thy ===== *)
theory Api_Safety
  imports Report
begin

text \<open>
  Every function of the public API keeps the contract \<open>api_step\<close> whenever the invariant holds, and
  returns whenever the library is live. \<open>api_call\<close> and \<open>exec\<close> collect the API into one type of
  calls, over which the transition system of the library is defined.
\<close>

named_theorems api_keeps \<open>contract of an API function\<close>
named_theorems api_total \<open>an API function returns\<close>

subsection \<open>Elementary critical sections\<close>

lemma cs_step_quiet:
  assumes "calls s' = calls s" "g_mode s' = g_mode s" "g_port s' = g_port s"
    "g_port_ready s' = g_port_ready s" "g_config s' = g_config s"
    "g_entity_count s \<le> g_entity_count s'" "g_sub_count (sb s) \<le> g_sub_count (sb s')"
    "fdir_inv s \<longrightarrow> fdir_inv s'"
    "\<And>i. registered i s \<Longrightarrow> g_entities s' ! unat i = g_entities s ! unat i"
    "\<And>i. i < unat (g_sub_count (sb s)) \<Longrightarrow> ss_desc (g_subs (sb s') ! i) = ss_desc (g_subs (sb s) ! i)"
  shows "cs_step up s s'"
  using assms by (auto simp: cs_step_def lib_step_def intro!: exI [of _ "[]"])

lemma cs_step_fq:
  assumes "queue_inv (fq s) \<longrightarrow> queue_inv q"
  shows "cs_step up s (s\<lparr>fq := q\<rparr>)"
  by (rule cs_step_quiet) (use assms in \<open>auto simp: fdir_inv_def port_inv_def ents_inv_def\<close>)

lemma cs_step_supervision: "cs_step up s (s\<lparr>g_supervision_enabled := b\<rparr>)"
  by (rule cs_step_quiet) (auto simp: fdir_inv_def port_inv_def ents_inv_def)

lemma cs_section:
  "keeps m (cs_step up (fdir_port_sync_enter s)) \<Longrightarrow>
   keeps (Option.bind m (\<lambda>t. Some (fdir_port_sync_exit t))) (api_step up s)"
  by (erule keeps_bindI) (simp add: api_section)

lemma cs_section_pair:
  "keeps m (\<lambda>(_, t). cs_step up (fdir_port_sync_enter s) t) \<Longrightarrow>
   keeps (Option.bind m (\<lambda>(x, t). Some (f x, fdir_port_sync_exit t))) (\<lambda>(_, s'). api_step up s s')"
  by (erule keeps_bindI) (auto simp: api_section)

lemma rec_section:
  assumes "fdir_inv s" "keeps m (rec_step (fdir_port_sync_enter s))"
  shows "keeps (Option.bind m (\<lambda>t. Some (fdir_port_sync_exit t))) (api_step up s)"
  by (rule cs_section, rule keeps_mono [OF assms(2)]) (simp add: rec_cs assms(1))

lemma total_section:
  assumes "\<And>t. live t \<Longrightarrow> returns (f t) (\<lambda>_. True)" "live s"
  shows "returns (Option.bind (f (fdir_port_sync_enter s)) (\<lambda>t. Some (fdir_port_sync_exit t))) (\<lambda>_. True)"
  by (rule returns_bindI [OF assms(1)]) (simp_all add: assms(2))


subsection \<open>Mode commands, gate and notes\<close>

lemma mode_commands_keep [api_keeps]:
  assumes "fdir_inv s"
  shows "keeps (fdir_enter_degraded_mode s) (api_step up s)"
    and "keeps (fdir_enter_safe_mode s) (api_step up s)"
    and "keeps (fdir_reassess_system_mode s) (api_step up s)"
    and "keeps (fdir_try_reboot why s) (api_step up s)"
    and "keeps (fdir_log_note note s) (api_step up s)"
    and "keeps (fdir_log_queue_overflow q d h s) (api_step up s)"
  unfolding fdir_enter_degraded_mode_def fdir_enter_safe_mode_def fdir_reassess_system_mode_def
    fdir_try_reboot_def fdir_log_note_def fdir_log_queue_overflow_def Let_def
  by (rule rec_section [OF assms], intro rec_keeps; simp)+

lemma mode_commands_return [api_total]:
  assumes "live s"
  shows "returns (fdir_enter_degraded_mode s) (\<lambda>_. True)"
    and "returns (fdir_enter_safe_mode s) (\<lambda>_. True)"
    and "returns (fdir_reassess_system_mode s) (\<lambda>_. True)"
    and "returns (fdir_try_reboot why s) (\<lambda>_. True)"
    and "returns (fdir_log_note note s) (\<lambda>_. True)"
    and "returns (fdir_log_queue_overflow q d h s) (\<lambda>_. True)"
  unfolding fdir_enter_degraded_mode_def fdir_enter_safe_mode_def fdir_reassess_system_mode_def
    fdir_try_reboot_def fdir_log_note_def fdir_log_queue_overflow_def Let_def
  by (rule returns_bindI [where P = "\<lambda>_. True"], intro rec_total; simp add: assms)+

lemma keeps_pair_const: "keeps m P \<Longrightarrow> keeps (Option.bind m (\<lambda>t. Some (x, t))) (\<lambda>(_, t). P t)"
  by (auto simp: keeps_def split: bind_splits)

lemma ground_mode_section:
  assumes "fdir_inv s" "mode_ok mode"
  shows "keeps (Option.bind (set_mode mode entity detail report (fdir_port_sync_enter s))
      (\<lambda>t. Some (x, fdir_port_sync_exit t))) (\<lambda>(_, s'). api_step False s s')"
  by (rule keeps_bindI [OF set_mode_sys [OF assms(2)]]) (simp add: api_section sys_cs assms(1))

lemma set_system_mode_keeps [api_keeps]:
  assumes "fdir_inv s"
  shows "keeps (fdir_set_system_mode mode s) (\<lambda>(_, s'). api_step False s s')"
  by (auto simp: fdir_set_system_mode_def Let_def mode_ok_def not_less api_step_section_refl
      intro!: ground_mode_section [OF assms])

lemma deescalate_eq:
  "fdir_deescalate_system_mode s =
     (if g_mode s = FDIR_MODE_SAFE \<or> g_mode s = FDIR_MODE_DEGRADED then
        Option.bind (set_mode (if g_mode s = FDIR_MODE_SAFE then FDIR_MODE_DEGRADED else FDIR_MODE_NOMINAL)
          FDIR_ENTITY_NONE (Some ''ground_deescalate'') None (fdir_port_sync_enter s))
          (\<lambda>t. Some (FDIR_OK, fdir_port_sync_exit t))
      else Some (FDIR_ERR_STATE, fdir_port_sync_exit (fdir_port_sync_enter s)))"
  by (simp add: fdir_deescalate_system_mode_def Let_def)

lemma deescalate_keeps [api_keeps]:
  assumes "fdir_inv s"
  shows "keeps (fdir_deescalate_system_mode s) (\<lambda>(_, s'). api_step False s s')"
  by (auto simp: deescalate_eq mode_ok_cases api_step_section_refl intro!: ground_mode_section [OF assms])

lemma ground_commands_return [api_total]:
  assumes "live s"
  shows "returns (fdir_set_system_mode mode s) (\<lambda>_. True)"
    and "returns (fdir_deescalate_system_mode s) (\<lambda>_. True)"
  unfolding fdir_set_system_mode_def deescalate_eq Let_def
  using assms by (auto intro!: returns_bindI [OF set_mode_returns])

lemma set_supervision_keeps [api_keeps]:
  assumes "fdir_inv s"
  shows "keeps (fdir_set_supervision_enabled enabled s) (\<lambda>(_, s'). api_step up s s')"
proof (cases "g_supervision_enabled s = enabled")
  case True
  then show ?thesis by (simp add: fdir_set_supervision_enabled_def api_step_section_refl)
next
  case False
  let ?s0 = "fdir_port_sync_enter s"
  let ?s1 = "?s0\<lparr>g_supervision_enabled := enabled\<rparr>"
  let ?s2 = "if enabled = 0 then ?s1\<lparr>fq := fdir_failure_queue_init (fq ?s1)\<rparr> else ?s1"
  have step: "cs_step up ?s0 ?s2"
    by (simp add: cs_step_supervision cs.trans [OF cs_step_supervision cs_step_fq])
  have inv: "fdir_inv ?s2" using step assms by (auto simp: cs_step_def lib_step_def)
  have "keeps (emit_event_full FDIR_EVENT_NOTE (g_mode ?s2) FDIR_ENTITY_NONE FDIR_REASON_USER 0
      FDIR_LEVEL_SYSTEM FDIR_ANOMALY_RAISED detail ?s2) (\<lambda>t. api_step up s (fdir_port_sync_exit t))" for detail
    by (rule keeps_mono [OF emit_rec_keeps]) (simp_all add: api_section cs.trans [OF step rec_cs [OF _ inv]])
  then show ?thesis
    using False unfolding fdir_set_supervision_enabled_def Let_def
    by (auto intro!: keeps_bindI)
qed

lemma set_supervision_returns [api_total]:
  assumes "live s"
  shows "returns (fdir_set_supervision_enabled enabled s) (\<lambda>_. True)"
proof -
  have "port_inv v" if "g_port v = g_port s" "g_port_ready v = g_port_ready s" for v
    using that liveD(3) [OF assms] by (simp add: port_inv_def)
  then show ?thesis
    using liveD(2) [OF assms]
    unfolding fdir_set_supervision_enabled_def Let_def
    by (auto intro!: returns_bindI [OF emits_return(1)])
qed



subsection \<open>Registration\<close>

text \<open>The state after the table entry of a new entity is written and before its health is reset.\<close>

definition entity_added :: "'e fdir_entity_slot \<Rightarrow> 'e fdir \<Rightarrow> 'e fdir" where
  "entity_added slot s =
     s\<lparr>g_entity_count := g_entity_count s + 1,
       g_entities := (g_entities s)[unat (g_entity_count s) := slot],
       hl := fdir_health_set_entity_limit (g_entity_count s + 1) (hl s)\<rparr>"

definition new_entity_slot :: "'e fdir_entity_desc \<Rightarrow> cbuf \<Rightarrow> 'e fdir_entity_slot \<Rightarrow> 'e fdir_entity_slot" where
  "new_entity_slot d nm slot =
     slot\<lparr>es_desc := d\<lparr>ed_name := Some (cstr nm)\<rparr>, es_name := nm, es_used := 1,
          es_restart_count := 0, es_watchdog_restart_count := 0\<rparr>"

lemma count_inc: "unat (c :: u8) < 16 \<Longrightarrow> unat (c + 1) = Suc (unat c)"
  by (rule unat_inc [of _ 16]) (simp add: word_less_nat_alt)

lemma entity_added_step:
  assumes "unat (g_entity_count s) < FDIR_ENTITY_CAP" "length nm = FDIR_NAME_SIZE"
    "ed_on_exhausted d \<noteq> FDIR_ACTION_RESTART"
  shows "cs_step up s (entity_added (new_entity_slot d nm slot) s)"
proof (rule cs_step_quiet)
  note c = count_inc [OF assms(1)]
  show "g_entity_count s \<le> g_entity_count (entity_added (new_entity_slot d nm slot) s)"
    using c by (simp add: entity_added_def word_le_nat_alt)
  show "fdir_inv s \<longrightarrow> fdir_inv (entity_added (new_entity_slot d nm slot) s)"
    using assms c
    by (auto simp: fdir_inv_def port_inv_def ents_inv_def health_inv_def entity_added_def
        new_entity_slot_def fdir_health_set_entity_limit_def nth_list_update_if less_Suc_eq)
qed (auto simp: entity_added_def registered_def nth_list_update_if word_less_nat_alt)

lemma entity_register_cases:
  assumes "fdir_inv s"
  obtains (param) "desc = None \<or> out_id = None \<or>
        (\<exists>d. desc = Some d \<and> unat (g_entity_count s) < FDIR_ENTITY_CAP \<and> ed_on_exhausted d = FDIR_ACTION_RESTART)"
      "fdir_entity_register desc out_id s =
         Some ((FDIR_ERR_PARAM, out_id), fdir_port_sync_exit (fdir_port_sync_enter s))"
  | (full) "unat (g_entity_count s) = FDIR_ENTITY_CAP"
      "fdir_entity_register desc out_id s =
         Some ((FDIR_ERR_FULL, out_id), fdir_port_sync_exit (fdir_port_sync_enter s))"
      "desc \<noteq> None" "out_id \<noteq> None"
  | (ok) d nm where "desc = Some d" "unat (g_entity_count s) < FDIR_ENTITY_CAP"
      "ed_on_exhausted d \<noteq> FDIR_ACTION_RESTART"
      "length nm = 32" "terminated nm" "cstr nm = (case ed_name d of None \<Rightarrow> [] | Some n \<Rightarrow> take 31 (cstr n))"
      "fdir_entity_register desc out_id s =
         Option.bind (fdir_health_reset_unsafe (g_entity_count s)
             (entity_added (new_entity_slot d nm (g_entities s ! unat (g_entity_count s))) (fdir_port_sync_enter s)))
           (\<lambda>t. Some ((FDIR_OK, Some (g_entity_count s)), fdir_port_sync_exit t))"
      "out_id \<noteq> None"
proof -
  have le: "unat (g_entity_count s) \<le> 16" and len: "length (g_entities s) = 16"
    and names: "\<forall>i < 16. length (es_name (g_entities s ! i)) = 32"
    using assms by (simp_all add: fdir_inv_def ents_inv_def)
  consider "desc = None \<or> out_id = None"
    | "\<not> (desc = None \<or> out_id = None)" "unat (g_entity_count s) = 16"
    | d where "out_id \<noteq> None" "desc = Some d" "unat (g_entity_count s) < 16"
    using le by fastforce
  then show ?thesis
  proof cases
    case 1
    then show ?thesis
      by (intro that(1)) (auto simp: fdir_entity_register_def Let_def split: option.split)
  next
    case 2
    then show ?thesis
      by (intro that(2)) (auto simp: fdir_entity_register_def)
  next
    case 3
    note d = 3
    show ?thesis
    proof (cases "ed_on_exhausted d = FDIR_ACTION_RESTART")
      case True
      with d show ?thesis by (intro that(1)) (auto simp: fdir_entity_register_def)
    next
      case False
      let ?slot = "g_entities s ! unat (g_entity_count s)"
      have "length (es_name ?slot) = 32" using names d by simp
      then obtain nm where "copy_detail (es_name ?slot) (ed_name d) = Some nm" "length nm = 32"
        "terminated nm" "cstr nm = (case ed_name d of None \<Rightarrow> [] | Some n \<Rightarrow> take 31 (cstr n))"
        by (rule copy_detail_32)
      with d False len show ?thesis
        by (intro that(3) [of d nm])
          (auto simp: fdir_entity_register_def Let_def entity_added_def new_entity_slot_def)
    qed
  qed
qed

lemma entity_register_keeps [api_keeps]:
  assumes "fdir_inv s"
  shows "keeps (fdir_entity_register desc out_id s) (\<lambda>(_, s'). api_step up s s')"
  using assms
proof (cases rule: entity_register_cases [of s desc out_id])
  case (ok d nm)
  let ?s = "entity_added (new_entity_slot d nm (g_entities s ! unat (g_entity_count s))) (fdir_port_sync_enter s)"
  have step: "cs_step up (fdir_port_sync_enter s) ?s"
    by (rule entity_added_step) (use ok in simp_all)
  then have "fdir_inv ?s" using assms by (simp add: cs_step_def lib_step_def)
  then show ?thesis
    unfolding ok(7)
    by (intro keeps_bindI [OF reset_unsafe_keeps]) (simp add: api_section cs.trans [OF step rec_cs])
qed (simp_all add: api_step_section_refl)

lemma entity_register_returns [api_total]:
  assumes "live s"
  shows "returns (fdir_entity_register desc out_id s) (\<lambda>_. True)"
  using liveD(1) [OF assms]
proof (cases rule: entity_register_cases [of s desc out_id])
  case (ok d nm)
  let ?s = "entity_added (new_entity_slot d nm (g_entities s ! unat (g_entity_count s))) (fdir_port_sync_enter s)"
  have "cs_step True (fdir_port_sync_enter s) ?s"
    by (rule entity_added_step) (use ok in simp_all)
  then have "live ?s" using assms by (auto simp: cs_step_def lib_step_def live_def)
  then show ?thesis
    unfolding ok(7) by (intro returns_bindI [OF reset_unsafe_live]) simp_all
qed simp_all

end
