(* ===== verification/Api_Calls.thy ===== *)
theory Api_Calls
  imports Api_Safety
begin

text \<open>
  The remaining API functions keep the contract and return: subsystems, health, fault reports,
  worker gate, and the two loops of the supervisor. The last part collects all calls.
\<close>

subsection \<open>Subsystems\<close>

lemma subsystem_register_cases:
  assumes "fdir_inv s"
  obtains (param) "desc = None \<or> out_id = None"
      "fdir_subsystem_register desc out_id s =
         Some ((FDIR_ERR_PARAM, out_id), fdir_port_sync_exit (fdir_port_sync_enter s))"
  | (full) "unat (g_sub_count (sb s)) = FDIR_SUBSYSTEM_CAP"
      "fdir_subsystem_register desc out_id s =
         Some ((FDIR_ERR_FULL, out_id), fdir_port_sync_exit (fdir_port_sync_enter s))"
  | (ok) d slot where "desc = Some d" "unat (g_sub_count (sb s)) < FDIR_SUBSYSTEM_CAP"
      "ss_desc slot = d\<lparr>sd_name := Some (case sd_name d of None \<Rightarrow> [] | Some n \<Rightarrow> take 31 (cstr n))\<rparr>"
      "ss_used slot = 1" "ss_available slot = 1" "ss_degraded slot = 0" "length (ss_name slot) = 32"
      "fdir_subsystem_register desc out_id s =
         Some ((FDIR_OK, Some (g_sub_count (sb s))), fdir_port_sync_exit ((fdir_port_sync_enter s)
           \<lparr>sb := (sb s)\<lparr>g_subs := (g_subs (sb s))[unat (g_sub_count (sb s)) := slot],
                         g_sub_count := g_sub_count (sb s) + 1\<rparr>\<rparr>))"
proof -
  have le: "unat (g_sub_count (sb s)) \<le> 8" and len: "length (g_subs (sb s)) = 8"
    and names: "\<forall>i < 8. length (ss_name (g_subs (sb s) ! i)) = 32"
    using assms by (simp_all add: fdir_inv_def subs_inv_def)
  consider "desc = None \<or> out_id = None"
    | "\<not> (desc = None \<or> out_id = None)" "unat (g_sub_count (sb s)) = 8"
    | d where "out_id \<noteq> None" "desc = Some d" "unat (g_sub_count (sb s)) < 8"
    using le by fastforce
  then show ?thesis
  proof cases
    case 1
    then show ?thesis
      by (intro that(1)) (auto simp: fdir_subsystem_register_def Let_def split: option.split)
  next
    case 2
    then show ?thesis
      by (intro that(2)) (auto simp: fdir_subsystem_register_def)
  next
    case 3
    let ?slot = "g_subs (sb s) ! unat (g_sub_count (sb s))"
    have "length (ss_name ?slot) = 32" using names 3 by simp
    then obtain nm where nm: "copy_detail (ss_name ?slot) (sd_name d) = Some nm" "length nm = 32"
      "terminated nm" "cstr nm = (case sd_name d of None \<Rightarrow> [] | Some n \<Rightarrow> take 31 (cstr n))"
      by (rule copy_detail_32)
    let ?new = "?slot\<lparr>ss_name := nm, ss_desc := d\<lparr>sd_name := Some (cstr nm)\<rparr>, ss_used := 1,
      ss_available := 1, ss_degraded := 0\<rparr>"
    obtain a b c e where d: "d = \<lparr>sd_name = a, sd_is_critical_path = b, sd_on_entity_exhausted = c, sd_user = e\<rparr>"
      by (cases d)
    show ?thesis
      by (rule that(3) [of d ?new])
        (use 3 nm len d in \<open>simp_all add: fdir_subsystem_register_def Let_def zero_subsystem_desc_def\<close>)
  qed
qed

lemma subsystem_register_keeps [api_keeps]:
  assumes "fdir_inv s"
  shows "keeps (fdir_subsystem_register desc out_id s) (\<lambda>(_, s'). api_step up s s')"
  using assms
proof (cases rule: subsystem_register_cases [of s desc out_id])
  case (ok d slot)
  have c: "unat (g_sub_count (sb s) + 1) = Suc (unat (g_sub_count (sb s)))"
    by (rule count_inc) (use ok(2) in simp)
  have "cs_step up (fdir_port_sync_enter s) ((fdir_port_sync_enter s)
      \<lparr>sb := (sb s)\<lparr>g_subs := (g_subs (sb s))[unat (g_sub_count (sb s)) := slot],
                    g_sub_count := g_sub_count (sb s) + 1\<rparr>\<rparr>)"
    by (rule cs_step_quiet)
      (use ok c in \<open>auto simp: word_le_nat_alt nth_list_update_if less_Suc_eq fdir_inv_def port_inv_def
         ents_inv_def subs_inv_def\<close>)
  then show ?thesis
    unfolding ok(8) by (simp add: api_section)
qed (simp_all add: api_step_section_refl)

lemma mark_section_keeps:
  assumes "fdir_inv s"
    and "\<And>t. keeps (mark t) (\<lambda>t'. same_subs t t' \<and> (subs_inv t \<longrightarrow> subs_inv t'))"
  shows "keeps (Option.bind (slot_of sid (sb (fdir_port_sync_enter s))) (\<lambda>slot.
       Option.bind (if slot \<noteq> None then Option.bind (mark (sb (fdir_port_sync_enter s))) (\<lambda>t.
           fdir_internal_emit_subsystem_state sid e r c phase detail ((fdir_port_sync_enter s)\<lparr>sb := t\<rparr>))
         else Some (fdir_port_sync_enter s))
       (\<lambda>s. Some (fdir_port_sync_exit s)))) (api_step up s)"
proof (rule keeps_bindI [of _ "\<lambda>_. True"])
  show "keeps (slot_of sid (sb (fdir_port_sync_enter s))) (\<lambda>_. True)" by (simp add: keeps_def)
  have "keeps (Option.bind (mark (sb (fdir_port_sync_enter s))) (\<lambda>t. fdir_internal_emit_subsystem_state
      sid e r c phase detail ((fdir_port_sync_enter s)\<lparr>sb := t\<rparr>))) (rec_step (fdir_port_sync_enter s))"
    by (rule mark_and_emit_keeps) (rule assms(2))
  then show "keeps (Option.bind (if slot \<noteq> None then Option.bind (mark (sb (fdir_port_sync_enter s))) (\<lambda>t.
           fdir_internal_emit_subsystem_state sid e r c phase detail ((fdir_port_sync_enter s)\<lparr>sb := t\<rparr>))
         else Some (fdir_port_sync_enter s))
       (\<lambda>s. Some (fdir_port_sync_exit s))) (api_step up s)" for slot :: "'b option"
    by (intro rec_section [OF assms(1)]) simp
qed

lemma marks_keep [api_keeps]:
  assumes "fdir_inv s"
  shows "keeps (fdir_subsystem_mark_available sid s) (api_step up s)"
    and "keeps (fdir_subsystem_mark_unavailable sid s) (api_step up s)"
    and "keeps (fdir_subsystem_mark_degraded sid s) (api_step up s)"
  unfolding fdir_subsystem_mark_available_def fdir_subsystem_mark_unavailable_def
    fdir_subsystem_mark_degraded_def Let_def
  by (rule mark_section_keeps [OF assms], rule sub_marks_keep)+

lemma subsystem_register_returns [api_total]:
  "live s \<Longrightarrow> returns (fdir_subsystem_register desc out_id s) (\<lambda>_. True)"
  by (drule liveD(1), erule subsystem_register_cases [of s desc out_id]) simp_all

lemma api_marks_return [api_total]:
  assumes "live s"
  shows "returns (fdir_subsystem_mark_available sid s) (\<lambda>_. True)"
    and "returns (fdir_subsystem_mark_unavailable sid s) (\<lambda>_. True)"
    and "returns (fdir_subsystem_mark_degraded sid s) (\<lambda>_. True)"
proof -
  have sub: "subs_inv (sb s)" using assms by (rule liveD)
  have live: "live ((fdir_port_sync_enter s)\<lparr>sb := t\<rparr>)" if "subs_inv t \<and> same_subs (sb s) t" for t
    using that rec_step_live [OF rec_step_sb [of "fdir_port_sync_enter s"]] assms by simp
  have "returns (Option.bind (Option.bind m (\<lambda>t. fdir_internal_emit_subsystem_state sid e r c phase detail
      ((fdir_port_sync_enter s)\<lparr>sb := t\<rparr>))) (\<lambda>s. Some (fdir_port_sync_exit s))) (\<lambda>_. True)"
    if "returns m (\<lambda>t'. subs_inv t' \<and> same_subs (sb s) t')" for m e r c phase detail
    by (intro returns_bindI [where P = "\<lambda>_. True"] returns_bindI [OF that] live_hooks_return(4) live) auto
  from this [OF marks_return(1) [OF sub]] this [OF marks_return(2) [OF sub]] this [OF marks_return(3) [OF sub]]
  show "returns (fdir_subsystem_mark_available sid s) (\<lambda>_. True)"
    and "returns (fdir_subsystem_mark_unavailable sid s) (\<lambda>_. True)"
    and "returns (fdir_subsystem_mark_degraded sid s) (\<lambda>_. True)"
    unfolding fdir_subsystem_mark_available_def fdir_subsystem_mark_unavailable_def
      fdir_subsystem_mark_degraded_def Let_def
    by (simp_all add: slot_of_eq [OF sub])
qed

lemma sub_queries_return [api_total]:
  assumes "live s"
  shows "returns (fdir_subsystem_name sid (sb s)) (\<lambda>_. True)"
    and "returns (fdir_subsystem_is_available sid (sb s)) (\<lambda>_. True)"
    and "returns (fdir_subsystem_is_degraded sid (sb s)) (\<lambda>_. True)"
    and "returns (fdir_subsystem_is_critical_path sid (sb s)) (\<lambda>_. True)"
    and "returns (fdir_subsystems_critical_unavailable_count (sb s)) (\<lambda>_. True)"
  using liveD(6) [OF assms] critical_count_card [of "sb s"]
  by (auto simp: fdir_subsystem_name_def fdir_subsystem_is_available_def fdir_subsystem_is_degraded_def
      fdir_subsystem_is_critical_path_def slot_of_eq split: option.split elim: returns_mono)



subsection \<open>Health\<close>

text \<open>The two public setters are the unlocked ones inside a critical section.\<close>

lemma enter_hl_same: "(fdir_port_sync_enter s)\<lparr>hl := hl s\<rparr> = fdir_port_sync_enter s"
  by (metis fdir.surjective fdir.update_convs(5) sync_enter_simps(5))

lemma health_set_section:
  "fdir_health_set eid health code detail s =
     Option.bind (fdir_health_set_unsafe eid health code detail (hl (fdir_port_sync_enter s)))
       (\<lambda>h. Some (fdir_port_sync_exit ((fdir_port_sync_enter s)\<lparr>hl := h\<rparr>)))"
  by (simp add: fdir_health_set_def fdir_health_set_unsafe_def Let_def enter_hl_same)

lemma health_reset_section:
  "fdir_health_reset eid s =
     Option.bind (fdir_health_reset_unsafe eid (fdir_port_sync_enter s)) (\<lambda>s. Some (fdir_port_sync_exit s))"
  by (simp add: fdir_health_reset_def fdir_health_reset_unsafe_def Let_def case_prod_unfold)

lemma health_setters_keep [api_keeps]:
  assumes "fdir_inv s"
  shows "keeps (fdir_health_set eid health code detail s) (api_step up s)"
    and "keeps (fdir_health_reset eid s) (api_step up s)"
proof -
  have "api_step up s (fdir_port_sync_exit ((fdir_port_sync_enter s)\<lparr>hl := h\<rparr>))" if "hl_step (hl s) h" for h
    using that assms by (intro api_section rec_cs rec_step_hl) (auto simp: hl_step_def)
  then show "keeps (fdir_health_set eid health code detail s) (api_step up s)"
    unfolding health_set_section by (intro keeps_bindI [OF set_unsafe_keeps]) simp
  show "keeps (fdir_health_reset eid s) (api_step up s)"
    unfolding health_reset_section by (intro rec_section assms reset_unsafe_keeps)
qed

lemma heartbeat_cases:
  assumes "fdir_inv s"
  obtains (unknown) "\<not> tracked eid (hl s)"
      "fdir_health_heartbeat_notify eid s = Some (fdir_port_sync_exit (fdir_port_sync_enter s))"
  | (known) "tracked eid (hl s)"
      "fdir_health_heartbeat_notify eid s =
         Option.bind (fdir_get_now_ms (fdir_port_sync_enter s)) (\<lambda>(now, t).
           Some (fdir_port_sync_exit (t\<lparr>hl := (hl t)\<lparr>g_health := (g_health (hl t))[unat eid :=
             (g_health (hl t) ! unat eid)\<lparr>hs_last_heartbeat_ms := now,
                hs_health := (if failed eid (hl t) then FDIR_HEALTH_FAILED else FDIR_HEALTH_OK)\<rparr>]\<rparr>\<rparr>)))"
proof (cases "tracked eid (hl s)")
  case False
  then show ?thesis
    by (intro that(1)) (simp_all add: fdir_health_heartbeat_notify_def tracked_def not_less)
next
  case True
  have ix: "unat eid < length (g_health (hl s))" by (rule tracked_index [OF fdir_invD(3) [OF assms] True])
  have upd: "snap\<lparr>hs_last_heartbeat_ms := n, hs_health := FDIR_HEALTH_FAILED\<rparr> = snap\<lparr>hs_last_heartbeat_ms := n\<rparr>"
    if "hs_health snap = FDIR_HEALTH_FAILED" for snap :: fdir_health_snapshot and n
    using that by (cases snap) simp
  have hl: "hl t = hl s" if "fdir_get_now_ms (fdir_port_sync_enter s) = Some (now, t)" for now t
    using keepsD [OF get_now_keeps that] by auto
  show ?thesis
  proof (rule that(2) [OF True], cases "fdir_get_now_ms (fdir_port_sync_enter s)")
    case (Some r)
    then obtain now t where r: "fdir_get_now_ms (fdir_port_sync_enter s) = Some (now, t)" by (cases r) auto
    then show "fdir_health_heartbeat_notify eid s =
         Option.bind (fdir_get_now_ms (fdir_port_sync_enter s)) (\<lambda>(now, t).
           Some (fdir_port_sync_exit (t\<lparr>hl := (hl t)\<lparr>g_health := (g_health (hl t))[unat eid :=
             (g_health (hl t) ! unat eid)\<lparr>hs_last_heartbeat_ms := now,
                hs_health := (if failed eid (hl t) then FDIR_HEALTH_FAILED else FDIR_HEALTH_OK)\<rparr>]\<rparr>\<rparr>)))"
      using True ix hl [OF r]
      by (auto simp: fdir_health_heartbeat_notify_def tracked_def Let_def failed_def upd)
  qed (use True in \<open>simp add: fdir_health_heartbeat_notify_def tracked_def Let_def\<close>)
qed

lemma heartbeat_keeps [api_keeps]:
  assumes "fdir_inv s"
  shows "keeps (fdir_health_heartbeat_notify eid s) (api_step up s)"
  using assms
proof (cases rule: heartbeat_cases [of s eid])
  case unknown
  then show ?thesis by (simp add: api_step_section_refl)
next
  case known
  show ?thesis
    unfolding known(2)
  proof (rule keeps_bindI [OF get_now_keeps], clarify)
    fix now and e :: 'a
    let ?s = "fdir_port_sync_enter s"
    let ?t = "ext (Call_now now) e ?s"
    have t: "rec_step ?s ?t" by (rule rec_step_ext) (auto simp: quiet_def)
    also have "rec_step ?t (?t\<lparr>hl := (hl ?t)\<lparr>g_health := (g_health (hl ?t))[unat eid :=
             (g_health (hl ?t) ! unat eid)\<lparr>hs_last_heartbeat_ms := now,
                hs_health := (if failed eid (hl ?t) then FDIR_HEALTH_FAILED else FDIR_HEALTH_OK)\<rparr>]\<rparr>\<rparr>)"
      using snapshot_inv_nth [OF fdir_invD(3) [OF assms] known(1)]
      by (intro rec_step_hl) (auto simp: snapshot_inv_def intro!: health_inv_update)
    finally show "keeps (Some (fdir_port_sync_exit (?t\<lparr>hl := (hl ?t)\<lparr>g_health := (g_health (hl ?t))[unat eid :=
             (g_health (hl ?t) ! unat eid)\<lparr>hs_last_heartbeat_ms := now,
                hs_health := (if failed eid (hl ?t) then FDIR_HEALTH_FAILED else FDIR_HEALTH_OK)\<rparr>]\<rparr>\<rparr>)))
       (api_step up s)"
      using assms by (simp add: api_section rec_cs)
  qed
qed

lemma health_returns [api_total]:
  assumes "live s"
  shows "returns (fdir_health_set eid health code detail s) (\<lambda>_. True)"
    and "returns (fdir_health_reset eid s) (\<lambda>_. True)"
    and "returns (fdir_health_heartbeat_notify eid s) (\<lambda>_. True)"
proof -
  show "returns (fdir_health_reset eid s) (\<lambda>_. True)"
    unfolding health_reset_section
    by (rule returns_bindI [OF reset_unsafe_live]) (simp_all add: assms)
  show "returns (fdir_health_set eid health code detail s) (\<lambda>_. True)"
    using liveD(5) [OF assms] unfolding health_set_section
    by (cases rule: set_unsafe_cases [of "hl s" eid health code detail]) simp_all
  show "returns (fdir_health_heartbeat_notify eid s) (\<lambda>_. True)"
    using liveD(1) [OF assms]
  proof (cases rule: heartbeat_cases [of s eid])
    case known
    then show ?thesis
      unfolding known(2)
      by (intro returns_bindI [OF live_hooks_return(1)]) (auto simp: assms)
  qed simp
qed

lemma health_queries [api_total]:
  assumes "fdir_inv s"
  shows "returns (fdir_health_fault_is_latched eid reason s)
       (\<lambda>(b, s'). api_step up s s' \<and> b = (if latched eid reason (hl s) then 1 else 0))"
    and "returns (fdir_health_snapshot_copy eid out s)
       (\<lambda>((b, out'), s'). api_step up s s' \<and>
          (b, out') = (if out \<noteq> None \<and> tracked eid (hl s) then (1, Some (g_health (hl s) ! unat eid)) else (0, out)))"
  using fdir_invD(3) [OF assms] tracked_index [OF fdir_invD(3) [OF assms], of eid]
  by (auto simp: fdir_health_fault_is_latched_def fdir_health_snapshot_copy_def is_latched_unsafe_eq
      api_step_section_refl api.refl tracked_def not_less Let_def)



subsection \<open>Queue and fault reports\<close>

lemma put_unsafe_total:
  assumes "queue_inv q"
  shows "returns (fdir_failure_queue_put_unsafe r q) (\<lambda>(_, q'). queue_inv q')"
proof (cases r)
  case None
  with assms show ?thesis by (simp add: fdir_failure_queue_put_unsafe_def)
next
  case (Some x)
  with ring.put_invar [OF assms, of x] show ?thesis by simp
qed

lemma get_locked_total:
  assumes "queue_inv q"
  shows "returns (queue_get_locked r q) (\<lambda>(_, _, q'). queue_inv q')"
  using ring.get_ok [OF assms, of r] ring.get_empty [OF assms, of r] assms
  by (cases "pending q = []") (auto elim!: returns_mono)

lemma queue_calls_return [api_total]:
  assumes "fdir_inv s"
  shows "returns (fdir_failure_queue_put r s) (\<lambda>(_, s'). api_step up s s')"
    and "returns (fdir_failure_queue_get out s) (\<lambda>(_, s'). api_step up s s')"
proof -
  have fq: "api_step up s (fdir_port_sync_exit ((fdir_port_sync_enter s)\<lparr>fq := q\<rparr>))" if "queue_inv q" for q
    using that by (intro api_section cs_step_fq) simp
  show "returns (fdir_failure_queue_put r s) (\<lambda>(_, s'). api_step up s s')"
    unfolding fdir_failure_queue_put_def Let_def
    by (rule returns_bindI [OF put_unsafe_total]) (auto simp: fq fdir_invD [OF assms])
  show "returns (fdir_failure_queue_get out s) (\<lambda>(_, s'). api_step up s s')"
  proof (cases out)
    case (Some r)
    show ?thesis
      unfolding fdir_failure_queue_get_def Some option.case Let_def
      by (rule returns_bindI [OF get_locked_total]) (auto simp: fq fdir_invD [OF assms])
  qed (simp add: fdir_failure_queue_get_def api.refl)
qed

lemma submit_failure_returns [api_total]:
  assumes "fdir_inv s"
  shows "returns (fdir_submit_failure report s) (\<lambda>(_, s'). api_step up s s')"
proof (cases report)
  case None
  then show ?thesis by (simp add: fdir_submit_failure_def api.refl)
next
  case (Some r)
  let ?t = "fdir_port_sync_exit (fdir_port_sync_enter s)"
  have t: "api_step up s ?t" by (rule api_step_section_refl)
  have "returns (fdir_failure_queue_put (Some r) ?t) (\<lambda>(_, s'). api_step up s s')"
    by (rule returns_mono [OF queue_calls_return(1)]) (auto simp: assms intro: api.trans [OF t])
  then show ?thesis
    using t by (auto simp: Some fdir_submit_failure_def supervision_enabled_eq returns_def split_beta)
qed

lemma enqueue_total:
  assumes "queue_inv q"
  shows "returns (enqueue_failure_unsafe r q) (\<lambda>(_, q'). queue_inv q')"
  using put_unsafe_total [OF assms, of "Some r"]
  by (auto simp: enqueue_failure_unsafe_def returns_def)

text \<open>What a report does, by cases on the gate, the latch, the health and the queue.\<close>

definition suppressed :: "fdir_entity_id \<Rightarrow> fdir_reason \<Rightarrow> 'e fdir \<Rightarrow> bool" where
  "suppressed entity reason s \<longleftrightarrow>
     g_supervision_enabled s = 0 \<or> latched entity reason (hl s) \<or> failed entity (hl s)"

lemma report_fault_eq:
  assumes "fdir_inv s"
  shows "report_fault_impl entity reason code detail flags s =
    (if suppressed entity reason s then Some (FDIR_OK, fdir_port_sync_exit (fdir_port_sync_enter s))
     else Option.bind (fdir_get_now_ms (fdir_port_sync_enter s)) (\<lambda>(now, t).
       Option.bind (copy_detail (zero_buf 32) detail) (\<lambda>d.
       Option.bind (enqueue_failure_unsafe
         \<lparr>rep_entity = entity, rep_reason = reason, rep_error_code = code, rep_detail = d,
          rep_timestamp_ms = now, rep_flags = flags\<rparr> (fq t)) (\<lambda>(status, q).
       if status \<noteq> FDIR_OK then Some (status, fdir_port_sync_exit (t\<lparr>fq := q\<rparr>))
       else Option.bind (fdir_health_set_unsafe entity FDIR_HEALTH_FAILED code detail (hl t)) (\<lambda>h.
         Some (FDIR_OK, fdir_port_sync_exit (t\<lparr>fq := q, hl := h\<rparr>)))))))"
  using fdir_invD(3) [OF assms]
  by (auto simp: report_fault_impl_def fdir_supervision_enabled_unsafe_def is_latched_unsafe_eq snapshot_eq
      suppressed_def failed_def Let_def zero_report_def split: option.split cong: if_cong)

lemma report_fault_returns:
  assumes "live s"
  shows "returns (report_fault_impl entity reason code detail flags s) (\<lambda>_. True)"
proof -
  obtain d where d: "copy_detail (zero_buf 32) detail = Some d" by (rule copy_detail_32 [OF length_zero_buf])
  have "returns (enqueue_failure_unsafe r (fq s)) (\<lambda>_. True)" for r
    by (rule returns_mono [OF enqueue_total]) (simp_all add: liveD [OF assms])
  moreover obtain h where "fdir_health_set_unsafe entity FDIR_HEALTH_FAILED code detail (hl s) = Some h"
    using liveD(5) [OF assms] by (cases rule: set_unsafe_cases [of "hl s" entity FDIR_HEALTH_FAILED code detail]) auto
  moreover obtain now e where
    "fdir_get_now_ms (fdir_port_sync_enter s) = Some (now, ext (Call_now now) e (fdir_port_sync_enter s))"
    using get_now_returns [of "fdir_port_sync_enter s"] liveD [OF assms]
    by (auto simp: returns_def port_inv_def)
  ultimately show ?thesis
    unfolding report_fault_eq [OF liveD(1) [OF assms]] using d
    by (fastforce intro!: returns_bindI [where P = "\<lambda>_. True"])
qed

lemma report_fault_keeps:
  assumes "fdir_inv s"
  shows "keeps (report_fault_impl entity reason code detail flags s) (\<lambda>(_, s'). api_step up s s')"
proof (cases "suppressed entity reason s")
  case True
  then show ?thesis by (simp add: report_fault_eq [OF assms] api_step_section_refl)
next
  case False
  let ?s = "fdir_port_sync_enter s"
  have now: "cs_step up ?s (ext (Call_now now) e ?s)" for now e
    using assms by (intro rec_cs rec_step_ext) (auto simp: quiet_def)
  have put: "cs_step up ?s ((ext (Call_now now) e ?s)\<lparr>fq := q\<rparr>)" if "queue_inv q" for now e q
    by (rule cs.trans [OF now cs_step_fq]) (simp add: that)
  have set: "cs_step up ?s ((ext (Call_now now) e ?s)\<lparr>fq := q, hl := h\<rparr>)"
    if "queue_inv q" "hl_step (hl s) h" for now e q h
  proof (rule cs.trans [OF put [OF that(1)] rec_cs])
    show "rec_step ((ext (Call_now now) e ?s)\<lparr>fq := q\<rparr>) ((ext (Call_now now) e ?s)\<lparr>fq := q, hl := h\<rparr>)"
      using that(2) rec_step_hl [of h "(ext (Call_now now) e ?s)\<lparr>fq := q\<rparr>"] by (simp add: hl_step_def)
    show "fdir_inv ((ext (Call_now now) e ?s)\<lparr>fq := q\<rparr>)"
      using put [OF that(1), of now e] assms by (simp add: cs_step_def lib_step_def)
  qed
  have "queue_inv q" if "enqueue_failure_unsafe r (fq s) = Some (status, q)" for r status q
    using returnsD [OF enqueue_total that] fdir_invD(2) [OF assms] by simp
  then show ?thesis
    unfolding report_fault_eq [OF assms] using False
    by (auto simp: keeps_def split: bind_splits if_splits dest!: keepsD [OF get_now_keeps]
        keepsD [OF set_unsafe_keeps] intro!: api_section put set)
qed

lemmas report_faults [simp] = fdir_report_fault_def fdir_report_fault_ex_def


subsection \<open>Worker and entity gates\<close>

lemma entity_may_run_eq:
  assumes "fdir_inv s"
  shows "fdir_entity_may_run eid s =
     Some (if g_supervision_enabled s = 0 \<or>
              (g_mode s < FDIR_MODE_SAFE \<and> registered eid s \<and> \<not> failed eid (hl s)) then 1 else 0,
           fdir_port_sync_exit (fdir_port_sync_enter s))"
  using fdir_invD(3) [OF assms] registered_tracked [OF assms]
  by (auto simp: fdir_entity_may_run_def snapshot_eq failed_def Let_def not_le)

lemma may_run_returns [api_total]:
  assumes "fdir_inv s"
  shows "returns (fdir_entity_may_run eid s) (\<lambda>(_, s'). api_step up s s')"
  by (simp add: entity_may_run_eq [OF assms] api_step_section_refl)

lemma system_mode_eq:
  "fdir_system_mode s = (g_mode s, fdir_port_sync_exit (fdir_port_sync_enter s))"
  by (simp add: fdir_system_mode_def Let_def)

lemma worker_keeps [api_keeps]:
  assumes "fdir_inv s"
  shows "keeps (fdir_worker_may_run eid s) (\<lambda>(_, s'). api_step up s s')"
proof -
  let ?t = "fdir_port_sync_exit (fdir_port_sync_enter s)"
  have t: "api_step up s ?t" and inv: "fdir_inv ?t" by (simp_all add: api_step_section_refl assms)
  have "keeps (fdir_health_heartbeat_notify eid ?t) (api_step up s)"
    "keeps (fdir_entity_may_run eid ?t) (\<lambda>(_, s'). api_step up s s')"
    using api.keeps_from [OF t heartbeat_keeps [OF inv]]
      api.keeps_from_pair [OF t returns_keeps [OF may_run_returns [OF inv]]] by simp_all
  then show ?thesis
    by (auto simp: fdir_worker_may_run_def system_mode_eq keeps_def split: bind_splits)
qed

lemma worker_returns [api_total]:
  assumes "live s"
  shows "returns (fdir_worker_may_run eid s) (\<lambda>_. True)"
  using assms
  by (auto simp: fdir_worker_may_run_def system_mode_eq entity_may_run_eq liveD(1) live_def
      intro!: returns_bindI [OF health_returns(3)])

end
