(* ===== verification/Loops.thy ===== *)
theory Loops
  imports Api_Calls
begin

text \<open>
  The two loops of the supervisor. The watchdog scan visits the registered entities in order and
  handles a report for each one that is overdue; the drain loop empties the queue. Both keep the API
  contract and return.
\<close>

subsection \<open>One round of the watchdog scan\<close>

definition overdue :: "fdir_entity_id \<Rightarrow> u32 \<Rightarrow> u32 \<Rightarrow> 'e fdir \<Rightarrow> bool" where
  "overdue eid now_ms max_age s \<longleftrightarrow>
     \<not> latched eid FDIR_REASON_WATCHDOG (hl s) \<and> \<not> failed eid (hl s) \<and>
     now_ms - hs_last_heartbeat_ms (g_health (hl s) ! unat eid) > max_age"

lemma watchdog_skips_eq:
  assumes "fdir_inv s" "registered eid s"
  shows "watchdog_skips eid now_ms max_age s = Some (\<not> overdue eid now_ms max_age s)"
proof -
  have tr: "tracked eid (hl s)" using registered_tracked [OF assms(1)] assms(2) by simp
  show ?thesis
    using registered_index [OF assms] registered_slot(1) [OF assms] fdir_invD(3) [OF assms(1)] tr
    by (simp add: watchdog_skips_def is_latched_unsafe_eq snapshot_eq is_stale_eq overdue_def failed_def)
qed

lemma watchdog_report_eq:
  obtains d where "length d = 32" "terminated d" "cstr d = ''heartbeat_timeout''"
    "watchdog_report eid now_ms = Some \<lparr>rep_entity = eid, rep_reason = FDIR_REASON_WATCHDOG,
       rep_error_code = 0, rep_detail = d, rep_timestamp_ms = now_ms, rep_flags = FDIR_FAULT_FLAG_CRITICAL\<rparr>"
proof -
  obtain d where "copy_detail (zero_buf 32) (Some ''heartbeat_timeout'') = Some d" "length d = 32" "terminated d"
    "cstr d = (case Some ''heartbeat_timeout'' of None \<Rightarrow> [] | Some str \<Rightarrow> take 31 (cstr str))"
    by (rule copy_detail_32 [OF length_zero_buf])
  then show ?thesis
    by (intro that [of d]) (simp_all add: watchdog_report_def zero_report_def cstr_def)
qed

lemma watchdog_loop_done: "\<not> registered eid s \<Longrightarrow> watchdog_loop eid now_ms max_age s = Some s"
  by (simp add: watchdog_loop.simps registered_def)

lemma watchdog_loop_skip:
  assumes "fdir_inv s" "registered eid s" "\<not> overdue eid now_ms max_age s"
  shows "watchdog_loop eid now_ms max_age s = watchdog_loop (eid + 1) now_ms max_age s"
  using assms watchdog_skips_eq [OF assms(1,2)]
  by (subst watchdog_loop.simps) (simp add: registered_def)

lemma watchdog_loop_handle:
  assumes "fdir_inv s" "registered eid s" "overdue eid now_ms max_age s"
    "watchdog_report eid now_ms = Some r"
  shows "watchdog_loop eid now_ms max_age s =
     Option.bind (fdir_handle_failure (Some r) (fdir_port_sync_exit s))
       (\<lambda>s. watchdog_loop (eid + 1) now_ms max_age (fdir_port_sync_enter s))"
  using assms watchdog_skips_eq [OF assms(1,2)]
  by (subst watchdog_loop.simps) (simp add: registered_def)

lemma registered_next: "registered eid s \<Longrightarrow> 256 - unat (eid + 1) < 256 - unat eid"
  using unat_u8_bound [of eid] by (simp add: registered_def unat_inc)

lemma open_step_inv: "open_step up s t \<Longrightarrow> fdir_inv s \<Longrightarrow> fdir_inv t"
  by (simp add: open_step_def lib_step_def)

lemma open_step_live: "open_step up s t \<Longrightarrow> live s \<Longrightarrow> live t"
  by (auto simp: open_step_def lib_step_def live_def)

text \<open>The part of the state that neither loop body changes.\<close>

definition same_gate :: "'e fdir \<Rightarrow> 'e fdir \<Rightarrow> bool" where
  "same_gate s s' \<longleftrightarrow>
     g_supervision_enabled s' = g_supervision_enabled s \<and> g_entity_count s' = g_entity_count s"

lemma watchdog_loop_keeps:
  "open_step True s0 s \<Longrightarrow> fdir_inv s0 \<Longrightarrow>
   keeps (watchdog_loop eid now_ms max_age s) (\<lambda>s'. open_step True s0 s' \<and> fq s' = fq s \<and> same_gate s s')"
proof (induction "256 - unat eid" arbitrary: eid s rule: less_induct)
  case less
  note IH = less.hyps [OF registered_next]
  have inv: "fdir_inv s" using open_step_inv less.prems by blast
  consider "\<not> registered eid s" | "registered eid s" "\<not> overdue eid now_ms max_age s"
    | "registered eid s" "overdue eid now_ms max_age s" by blast
  then show ?case
  proof cases
    case 1
    then show ?thesis using less.prems by (simp add: watchdog_loop_done same_gate_def)
  next
    case 2
    then show ?thesis
      using IH [OF 2(1) less.prems] by (simp add: watchdog_loop_skip [OF inv 2])
  next
    case 3
    obtain r where r: "watchdog_report eid now_ms = Some r" by (rule watchdog_report_eq)
    have exit: "api_step True s0 (fdir_port_sync_exit s)" by (rule open_exit [OF less.prems(1)])
    show ?thesis
      unfolding watchdog_loop_handle [OF inv 3 r]
    proof (rule keeps_bindI [OF handle_failure_keeps])
      show "fdir_inv (fdir_port_sync_exit s)" using inv by simp
      fix t
      assume t: "api_step True (fdir_port_sync_exit s) t \<and> fq t = fq (fdir_port_sync_exit s) \<and>
          g_supervision_enabled t = g_supervision_enabled (fdir_port_sync_exit s) \<and>
          g_entity_count t = g_entity_count (fdir_port_sync_exit s)"
      have "open_step True s0 (fdir_port_sync_enter t)"
        using api.trans [OF exit] t by (intro open_enter) blast
      from IH [OF 3(1) this less.prems(2)] t
      show "keeps (watchdog_loop (eid + 1) now_ms max_age (fdir_port_sync_enter t))
          (\<lambda>s'. open_step True s0 s' \<and> fq s' = fq s \<and> same_gate s s')"
        by (simp add: same_gate_def)
    qed
  qed
qed

lemma watchdog_loop_returns: "live s \<Longrightarrow> returns (watchdog_loop eid now_ms max_age s) (\<lambda>_. True)"
proof (induction "256 - unat eid" arbitrary: eid s rule: less_induct)
  case less
  note IH = less.hyps [OF registered_next]
  have inv: "fdir_inv s" using less.prems by (rule liveD)
  consider "\<not> registered eid s" | "registered eid s" "\<not> overdue eid now_ms max_age s"
    | "registered eid s" "overdue eid now_ms max_age s" by blast
  then show ?case
  proof cases
    case 3
    obtain r where r: "watchdog_report eid now_ms = Some r" by (rule watchdog_report_eq)
    let ?x = "fdir_port_sync_exit s"
    have x: "live ?x" using less.prems by simp
    show ?thesis
      unfolding watchdog_loop_handle [OF inv 3 r]
    proof (rule api.returns_seq [where up = True])
      show "returns (fdir_handle_failure (Some r) ?x) (\<lambda>_. True)" by (rule handle_failure_returns [OF x])
      show "keeps (fdir_handle_failure (Some r) ?x) (api_step True ?x)"
        by (rule keeps_mono [OF handle_failure_keeps [OF liveD(1) [OF x]]]) simp
      show "returns (watchdog_loop (eid + 1) now_ms max_age (fdir_port_sync_enter t)) (\<lambda>_. True)"
        if "api_step True ?x t" for t
        using api_step_live [OF that x] by (intro IH [OF 3(1)]) simp
    qed
  qed (simp_all add: watchdog_loop_done watchdog_loop_skip [OF inv] IH less.prems)
qed


subsection \<open>The scan and the drain loop\<close>

lemma inv_ext [simp]: "fdir_inv (ext c e s) = fdir_inv s" "live (ext c e s) = live s"
  by (simp_all add: live_def fdir_inv_outside [OF outside_ext])

lemma api_step_now: "fdir_inv s \<Longrightarrow> api_step up s (ext (Call_now t) e s)"
  by (auto simp: api_step_def lib_step_def restarts_def intro!: exI [of _ "[Call_now t]"])

lemma check_watchdogs_keeps [api_keeps]:
  assumes "fdir_inv s"
  shows "keeps (fdir_check_watchdogs s) (\<lambda>s'. api_step True s s' \<and> fq s' = fq s \<and> same_gate s s')"
  unfolding fdir_check_watchdogs_def
proof (rule keeps_bindI [OF get_now_keeps], clarify)
  fix now and e :: 'a
  let ?t = "ext (Call_now now) e s"
  let ?x = "fdir_port_sync_exit (fdir_port_sync_enter ?t)"
  have x: "api_step True s ?x" by (rule api.trans [OF api_step_now [OF assms] api_step_section_refl])
  have "keeps (Option.bind (watchdog_loop 0 now age (fdir_port_sync_enter ?x)) (\<lambda>s. Some (fdir_port_sync_exit s)))
      (\<lambda>s'. api_step True s s' \<and> fq s' = fq s \<and> same_gate s s')" for age
    by (rule keeps_bindI [OF watchdog_loop_keeps [OF open_enter [OF x] assms]])
      (auto simp: same_gate_def intro: open_exit)
  then show "keeps (let max_age = fdir_heartbeat_max_age_ms ?t; (enabled, s) = fdir_supervision_enabled ?t
      in if enabled = 0 then Some s
         else let s = fdir_port_sync_enter s
              in Option.bind (watchdog_loop 0 now max_age s) (\<lambda>s. Some (fdir_port_sync_exit s)))
     (\<lambda>s'. api_step True s s' \<and> fq s' = fq s \<and> same_gate s s')"
    using x by (simp add: supervision_enabled_eq Let_def same_gate_def)
qed

lemma check_watchdogs_returns [api_total]:
  assumes "live s"
  shows "returns (fdir_check_watchdogs s) (\<lambda>_. True)"
proof -
  obtain now e where now: "fdir_get_now_ms s = Some (now, ext (Call_now now) e s)"
    using get_now_returns [of s] liveD [OF assms] by (auto simp: returns_def)
  then show ?thesis
    using assms unfolding fdir_check_watchdogs_def
    by (auto simp: now supervision_enabled_eq Let_def intro!: returns_bindI [OF watchdog_loop_returns])
qed

text \<open>One round of the drain loop, by cases on the queue.\<close>

lemma drain_queue_empty:
  assumes "pending (fq s) = []"
  shows "drain_queue r s = Some (fdir_port_sync_exit ((fdir_port_sync_enter s)\<lparr>fq := fq s\<rparr>))"
  using assms by (subst drain_queue.simps) (simp add: fdir_failure_queue_get_def get_locked_empty Let_def)

lemma drain_queue_next:
  assumes "queue_inv (fq s)" "pending (fq s) = x # xs"
  obtains q where "queue_inv q" "pending q = xs" "g_full_latched q = g_full_latched (fq s)"
    "drain_queue r s =
       Option.bind (fdir_handle_failure (Some x) (fdir_port_sync_exit ((fdir_port_sync_enter s)\<lparr>fq := q\<rparr>)))
         (drain_queue x)"
proof -
  obtain q where q: "queue_get_locked r (fq s) = Some (0, hd (pending (fq s)), q)"
    "queue_inv q" "pending q = tl (pending (fq s))" "g_full_latched q = g_full_latched (fq s)"
    using get_locked_some [OF assms(1)] assms(2) by (metis list.distinct(1))
  have "drain_queue r s =
       Option.bind (fdir_handle_failure (Some x) (fdir_port_sync_exit ((fdir_port_sync_enter s)\<lparr>fq := q\<rparr>)))
         (drain_queue x)"
    using q assms(2) by (subst drain_queue.simps) (simp add: fdir_failure_queue_get_def Let_def)
  with q assms(2) show ?thesis by (intro that [of q]) simp_all
qed

lemma api_step_fq: "queue_inv q \<Longrightarrow> api_step up s (fdir_port_sync_exit ((fdir_port_sync_enter s)\<lparr>fq := q\<rparr>))"
  by (intro api_section cs_step_fq) simp

lemma drain_queue_keeps:
  "fdir_inv s \<Longrightarrow>
   keeps (drain_queue r s) (\<lambda>s'. api_step True s s' \<and> same_gate s s' \<and>
      pending (fq s') = [] \<and> g_full_latched (fq s') = g_full_latched (fq s))"
proof (induction "pending (fq s)" arbitrary: r s)
  case Nil
  then show ?case
    using api_step_fq [OF fdir_invD(2) [OF Nil.prems], of True s]
    by (simp add: drain_queue_empty same_gate_def)
next
  case (Cons x xs)
  obtain q where q: "queue_inv q" "pending q = xs" "g_full_latched q = g_full_latched (fq s)"
    and eq: "drain_queue r s =
       Option.bind (fdir_handle_failure (Some x) (fdir_port_sync_exit ((fdir_port_sync_enter s)\<lparr>fq := q\<rparr>)))
         (drain_queue x)"
    using drain_queue_next [OF fdir_invD(2) [OF Cons.prems] Cons.hyps(2) [symmetric], of r] by blast
  let ?x = "fdir_port_sync_exit ((fdir_port_sync_enter s)\<lparr>fq := q\<rparr>)"
  have step: "api_step True s ?x" by (rule api_step_fq [OF q(1)])
  then have inv: "fdir_inv ?x" using api_step_frame(4) Cons.prems by blast
  show ?case
    unfolding eq
  proof (rule keeps_bindI [OF handle_failure_keeps [OF inv]], elim conjE)
    fix t
    assume t: "api_step True ?x t" "fq t = fq ?x"
      "g_supervision_enabled t = g_supervision_enabled ?x" "g_entity_count t = g_entity_count ?x"
    have st: "api_step True s t" by (rule api.trans [OF step t(1)])
    have "keeps (drain_queue x t) (\<lambda>s'. api_step True t s' \<and> same_gate t s' \<and>
      pending (fq s') = [] \<and> g_full_latched (fq s') = g_full_latched (fq t))"
      by (rule Cons.hyps(1)) (use q t st Cons.prems api_step_frame(4) in auto)
    then show "keeps (drain_queue x t) (\<lambda>s'. api_step True s s' \<and> same_gate s s' \<and>
      pending (fq s') = [] \<and> g_full_latched (fq s') = g_full_latched (fq s))"
      by (rule keeps_mono) (use t q in \<open>auto simp: same_gate_def intro: api.trans [OF st]\<close>)
  qed
qed

lemma drain_queue_returns: "live s \<Longrightarrow> returns (drain_queue r s) (\<lambda>_. True)"
proof (induction "pending (fq s)" arbitrary: r s)
  case Nil
  then show ?case by (simp add: drain_queue_empty)
next
  case (Cons x xs)
  obtain q where q: "queue_inv q" "pending q = xs"
    and eq: "drain_queue r s =
       Option.bind (fdir_handle_failure (Some x) (fdir_port_sync_exit ((fdir_port_sync_enter s)\<lparr>fq := q\<rparr>)))
         (drain_queue x)"
    using drain_queue_next [OF liveD(4) [OF Cons.prems] Cons.hyps(2) [symmetric], of r] by blast
  let ?x = "fdir_port_sync_exit ((fdir_port_sync_enter s)\<lparr>fq := q\<rparr>)"
  have live: "live ?x" by (rule api_step_live [OF api_step_fq [OF q(1)] Cons.prems])
  show ?case
    unfolding eq
  proof (rule returns_bindI [OF returns_conj [OF handle_failure_returns [OF live]
        handle_failure_keeps [OF liveD(1) [OF live]]]])
    fix t
    assume "True \<and> api_step True ?x t \<and> fq t = fq ?x \<and>
       g_supervision_enabled t = g_supervision_enabled ?x \<and> g_entity_count t = g_entity_count ?x"
    then show "returns (drain_queue x t) (\<lambda>_. True)"
      using api_step_live [OF _ live, of True t] q by (intro Cons.hyps(1)) simp_all
  qed
qed

lemma supervisor_tick_keeps [api_keeps]:
  assumes "fdir_inv s"
  shows "keeps (fdir_supervisor_tick s) (\<lambda>s'. api_step True s s' \<and> same_gate s s' \<and>
     (g_supervision_enabled s \<noteq> 0 \<longrightarrow> pending (fq s') = []))"
proof (cases "g_supervision_enabled s = 0")
  case True
  then show ?thesis
    by (simp add: fdir_supervisor_tick_def supervision_enabled_eq api_step_section_refl same_gate_def)
next
  case False
  let ?x = "fdir_port_sync_exit (fdir_port_sync_enter s)"
  have x: "api_step True s ?x" "fdir_inv ?x" by (simp_all add: api_step_section_refl assms)
  have "keeps (Option.bind (drain_queue zero_report ?x) fdir_check_watchdogs)
     (\<lambda>s'. api_step True s s' \<and> same_gate s s' \<and> pending (fq s') = [])"
  proof (rule keeps_bindI [OF drain_queue_keeps [OF x(2)]], elim conjE)
    fix t assume t: "api_step True ?x t" "same_gate ?x t" "pending (fq t) = []"
    have st: "api_step True s t" by (rule api.trans [OF x(1) t(1)])
    then have "fdir_inv t" using api_step_frame(4) assms by blast
    from check_watchdogs_keeps [OF this]
    show "keeps (fdir_check_watchdogs t) (\<lambda>s'. api_step True s s' \<and> same_gate s s' \<and> pending (fq s') = [])"
      by (rule keeps_mono) (use t in \<open>auto simp: same_gate_def intro: api.trans [OF st]\<close>)
  qed
  then show ?thesis
    using False by (simp add: fdir_supervisor_tick_def supervision_enabled_eq)
qed

lemma supervisor_tick_returns [api_total]:
  assumes "live s"
  shows "returns (fdir_supervisor_tick s) (\<lambda>_. True)"
proof -
  let ?x = "fdir_port_sync_exit (fdir_port_sync_enter s)"
  have x: "live ?x" using assms by simp
  have "returns (Option.bind (drain_queue zero_report ?x) fdir_check_watchdogs) (\<lambda>_. True)"
  proof (rule returns_bindI [OF returns_conj [OF drain_queue_returns [OF x] drain_queue_keeps [OF liveD(1) [OF x]]]])
    fix t
    assume "True \<and> api_step True ?x t \<and> same_gate ?x t \<and>
       pending (fq t) = [] \<and> g_full_latched (fq t) = g_full_latched (fq ?x)"
    then show "returns (fdir_check_watchdogs t) (\<lambda>_. True)"
      using api_step_live [OF _ x, of True t] by (intro check_watchdogs_returns) simp
  qed
  then show ?thesis
    by (simp add: fdir_supervisor_tick_def supervision_enabled_eq)
qed

end
