(* ===== verification/Fdir_System.thy ===== *)
theory Fdir_System
  imports Loops
begin

text \<open>
  The library as a transition system: the calls of the public API in any order, the application's
  environment changing in between. The interface \<open>inductive_invariant\<close> gives invariance by rule
  induction; the library's invariant is its instance \<open>lib\<close>.
\<close>

subsection \<open>The calls\<close>

text \<open>
  Every function declared in \<open>include/*.h\<close> that the application calls on the library; the three
  pass-through wrappers of \<open>port.h\<close>, with which an application would call its own hooks, are left
  out. The results are specified function by function; \<open>exec\<close> keeps the state.
\<close>

datatype (plugins only: code) 'e api_call =
    Init "'e fdir_config option" "'e fdir_port option"
  | Entity_register "'e fdir_entity_desc option" "fdir_entity_id option"
  | Entity_name fdir_entity_id
  | System_mode
  | Supervision_enabled
  | Set_supervision fdir_bool
  | Entity_may_run fdir_entity_id
  | Worker_may_run fdir_entity_id
  | Set_system_mode fdir_mode
  | Deescalate
  | Enter_degraded
  | Enter_safe
  | Reassess
  | Try_reboot "string option"
  | Log_note "string option"
  | Log_overflow u16 u32 u32
  | Supervisor_tick
  | Handle_failure "fdir_failure_report option"
  | Check_watchdogs
  | Submit_failure "fdir_failure_report option"
  | Report_fault fdir_entity_id fdir_reason u16 "string option"
  | Report_fault_ex fdir_entity_id fdir_reason u16 "string option" u8
  | Queue_full_latched
  | Heartbeat fdir_entity_id
  | Health_set fdir_entity_id fdir_health u16 "string option"
  | Health_reset fdir_entity_id
  | Health_snapshot fdir_entity_id
  | Health_snapshot_copy fdir_entity_id "fdir_health_snapshot option"
  | Health_is_stale fdir_entity_id u32 u32
  | Fault_is_latched fdir_entity_id fdir_reason
  | Subsystem_register "'e fdir_subsystem_desc option" "fdir_subsystem_id option"
  | Subsystem_name fdir_subsystem_id
  | Subsystem_is_available fdir_subsystem_id
  | Subsystem_is_degraded fdir_subsystem_id
  | Subsystem_is_critical_path fdir_subsystem_id
  | Critical_unavailable_count
  | Mark_available fdir_subsystem_id
  | Mark_unavailable fdir_subsystem_id
  | Mark_degraded fdir_subsystem_id
  | On_entity_exhausted fdir_subsystem_id fdir_entity_id fdir_failure_report

primrec exec :: "'e api_call \<Rightarrow> 'e fdir \<Rightarrow> 'e fdir option" where
  "exec (Init config port) s = Some (snd (fdir_init config port s))"
| "exec (Entity_register desc out) s = map_option snd (fdir_entity_register desc out s)"
| "exec (Entity_name eid) s = map_option (\<lambda>_. s) (fdir_entity_name eid s)"
| "exec System_mode s = Some (snd (fdir_system_mode s))"
| "exec Supervision_enabled s = Some (snd (fdir_supervision_enabled s))"
| "exec (Set_supervision b) s = map_option snd (fdir_set_supervision_enabled b s)"
| "exec (Entity_may_run eid) s = map_option snd (fdir_entity_may_run eid s)"
| "exec (Worker_may_run eid) s = map_option snd (fdir_worker_may_run eid s)"
| "exec (Set_system_mode mode) s = map_option snd (fdir_set_system_mode mode s)"
| "exec Deescalate s = map_option snd (fdir_deescalate_system_mode s)"
| "exec Enter_degraded s = fdir_enter_degraded_mode s"
| "exec Enter_safe s = fdir_enter_safe_mode s"
| "exec Reassess s = fdir_reassess_system_mode s"
| "exec (Try_reboot why) s = fdir_try_reboot why s"
| "exec (Log_note note) s = fdir_log_note note s"
| "exec (Log_overflow q d h) s = fdir_log_queue_overflow q d h s"
| "exec Supervisor_tick s = fdir_supervisor_tick s"
| "exec (Handle_failure r) s = fdir_handle_failure r s"
| "exec Check_watchdogs s = fdir_check_watchdogs s"
| "exec (Submit_failure r) s = map_option snd (fdir_submit_failure r s)"
| "exec (Report_fault eid reason code detail) s = map_option snd (fdir_report_fault eid reason code detail s)"
| "exec (Report_fault_ex eid reason code detail flags) s =
     map_option snd (fdir_report_fault_ex eid reason code detail flags s)"
| "exec Queue_full_latched s = Some (snd (fdir_failure_queue_full_latched s))"
| "exec (Heartbeat eid) s = fdir_health_heartbeat_notify eid s"
| "exec (Health_set eid health code detail) s = fdir_health_set eid health code detail s"
| "exec (Health_reset eid) s = fdir_health_reset eid s"
| "exec (Health_snapshot eid) s = map_option (\<lambda>_. s) (fdir_health_snapshot eid (hl s))"
| "exec (Health_snapshot_copy eid out) s = map_option snd (fdir_health_snapshot_copy eid out s)"
| "exec (Health_is_stale eid now age) s = map_option (\<lambda>_. s) (fdir_health_is_stale eid now age (hl s))"
| "exec (Fault_is_latched eid reason) s = map_option snd (fdir_health_fault_is_latched eid reason s)"
| "exec (Subsystem_register desc out) s = map_option snd (fdir_subsystem_register desc out s)"
| "exec (Subsystem_name sid) s = map_option (\<lambda>_. s) (fdir_subsystem_name sid (sb s))"
| "exec (Subsystem_is_available sid) s = map_option (\<lambda>_. s) (fdir_subsystem_is_available sid (sb s))"
| "exec (Subsystem_is_degraded sid) s = map_option (\<lambda>_. s) (fdir_subsystem_is_degraded sid (sb s))"
| "exec (Subsystem_is_critical_path sid) s = map_option (\<lambda>_. s) (fdir_subsystem_is_critical_path sid (sb s))"
| "exec Critical_unavailable_count s =
     map_option (\<lambda>_. s) (fdir_subsystems_critical_unavailable_count (sb s))"
| "exec (Mark_available sid) s = fdir_subsystem_mark_available sid s"
| "exec (Mark_unavailable sid) s = fdir_subsystem_mark_unavailable sid s"
| "exec (Mark_degraded sid) s = fdir_subsystem_mark_degraded sid s"
| "exec (On_entity_exhausted sid eid r) s = map_option snd (fdir_subsystem_on_entity_exhausted sid eid r s)"

text \<open>An application's sequence of calls.\<close>

fun run :: "'e api_call list \<Rightarrow> 'e fdir \<Rightarrow> 'e fdir option" where
  "run [] s = Some s"
| "run (c # cs) s = Option.bind (exec c s) (run cs)"

text \<open>The calls that may lower the mode: the ground commands.\<close>

definition ground :: "'e api_call \<Rightarrow> bool" where
  "ground c \<longleftrightarrow> c = Deescalate \<or> (\<exists>mode. c = Set_system_mode mode)"

definition is_init :: "'e api_call \<Rightarrow> bool" where
  "is_init c \<longleftrightarrow> (\<exists>config port. c = Init config port)"


subsection \<open>Every call keeps the contract\<close>

lemma keeps_map_snd: "keeps (map_option snd m) P \<longleftrightarrow> keeps m (\<lambda>(_, s). P s)"
  by (cases m) auto

lemma keeps_map_const: "keeps (map_option (\<lambda>_. s) m) P \<longleftrightarrow> (m \<noteq> None \<longrightarrow> P s)"
  by (cases m) auto

lemma returns_map: "returns (map_option f m) P \<longleftrightarrow> returns m (\<lambda>x. P (f x))"
  by (cases m) auto

lemma api_step_exhausted:
  assumes "fdir_inv s"
  shows "keeps (fdir_subsystem_on_entity_exhausted sid eid r s) (\<lambda>(_, s'). api_step up s s')"
proof -
  have "api_step up s (ext (Call_exhausted a b c d x) e s)" for a b c d x e
    using assms
    by (auto simp: api_step_def lib_step_def restarts_def intro!: exI [of _ "[Call_exhausted a b c d x]"])
  then show ?thesis
    using slot_of_eq [OF fdir_invD(4) [OF assms]]
    by (auto simp: fdir_subsystem_on_entity_exhausted_def api.refl split: option.split prod.split)
qed

lemma exec_keeps:
  assumes "fdir_inv s" "\<not> is_init c"
  shows "keeps (exec c s) (api_step (\<not> ground c) s)"
proof -
  have loops: "keeps (fdir_check_watchdogs s) (api_step True s)" "keeps (fdir_supervisor_tick s) (api_step True s)"
    "keeps (fdir_handle_failure r s) (api_step True s)" for r
    using check_watchdogs_keeps [OF assms(1)] supervisor_tick_keeps [OF assms(1)]
      handle_failure_keeps [OF assms(1), of r]
    by (auto elim: keeps_mono)
  have queries: "keeps (fdir_health_fault_is_latched eid reason s) (\<lambda>(_, s'). api_step True s s')"
    "keeps (fdir_health_snapshot_copy eid out s) (\<lambda>(_, s'). api_step True s s')" for eid reason out
    using returns_keeps [OF health_queries(1) [OF assms(1), of eid reason True]]
      returns_keeps [OF health_queries(2) [OF assms(1), of eid out True]]
    by (auto simp: keeps_def)
  note facts = loops queries mode_commands_keep [OF assms(1)] set_system_mode_keeps [OF assms(1)]
    deescalate_keeps [OF assms(1)] set_supervision_keeps [OF assms(1)] entity_register_keeps [OF assms(1)]
    subsystem_register_keeps [OF assms(1)] marks_keep [OF assms(1)] health_setters_keep [OF assms(1)]
    heartbeat_keeps [OF assms(1)] worker_keeps [OF assms(1)] report_fault_keeps [OF assms(1)]
    returns_keeps [OF submit_failure_returns [OF assms(1)]]
    returns_keeps [OF may_run_returns [OF assms(1)]]
    api_step_exhausted [OF assms(1)] api_step_section_refl [of True s]
  show ?thesis
    using assms(2)
    by (cases c)
      (simp_all add: ground_def is_init_def facts keeps_map_snd keeps_map_const api.refl system_mode_eq supervision_enabled_eq
        fdir_failure_queue_full_latched_def Let_def)
qed

lemma exec_returns:
  assumes "live s"
  shows "returns (exec c s) (\<lambda>_. True)"
proof -
  note inv = liveD(1) [OF assms]
  have drop: "returns m P \<Longrightarrow> returns m (\<lambda>_. True)" for m :: "'b option" and P
    by (erule returns_mono) simp
  have name: "returns (fdir_entity_name eid s) (\<lambda>_. True)" for eid
    using registered_check [OF inv, of eid] registered_index [OF inv, of eid]
    by (auto simp: fdir_entity_name_def)
  have queries: "returns (fdir_health_fault_is_latched eid reason s) (\<lambda>_. True)"
    "returns (fdir_health_snapshot_copy eid out s) (\<lambda>_. True)"
    "returns (fdir_submit_failure r s) (\<lambda>_. True)" for eid reason out r
    using returns_mono [OF health_queries(1) [OF inv]] returns_mono [OF health_queries(2) [OF inv]]
      returns_mono [OF submit_failure_returns [OF inv]]
    by (metis (no_types, lifting))+
  note facts = mode_commands_return [OF assms] ground_commands_return [OF assms]
    set_supervision_returns [OF assms] entity_register_returns [OF assms]
    subsystem_register_returns [OF assms] api_marks_return [OF assms] sub_queries_return [OF assms]
    health_returns [OF assms] worker_returns [OF assms] report_fault_returns [OF assms]
    check_watchdogs_returns [OF assms] supervisor_tick_returns [OF assms] handle_failure_returns [OF assms]
    on_entity_exhausted_returns [OF assms] name queries
  show ?thesis
    by (cases c)
      (simp_all add: facts returns_map entity_may_run_eq [OF inv] snapshot_eq is_stale_eq liveD(5) [OF assms])
qed


subsection \<open>Initialisation\<close>

lemma init_ok:
  assumes "port_is_valid (Some p)"
  shows "fdir_init config (Some p) s =
     (FDIR_OK, (fdir_boot (env s))\<lparr>g_port := p, g_port_ready := True,
        g_config := (case config of None \<Rightarrow> fdir_config_default | Some c \<Rightarrow> c),
        g_supervision_enabled := 1, calls := calls s\<rparr>)"
  using assms
  by (cases s; cases "fq s"; cases "hl s"; cases "sb s")
    (simp add: fdir_init_def fdir_port_bind_def fdir_internal_set_config_def fdir_boot_def zero_queue_def
      zero_health_def zero_subsystems_def fdir_failure_queue_init_def fdir_health_init_def
      fdir_subsystems_init_def split: option.split)

lemma init_bad:
  assumes "\<not> port_is_valid port"
  shows "fdir_init config port s = (FDIR_ERR_PORT, s\<lparr>g_port_ready := False\<rparr>)"
  using assms by (simp add: fdir_init_def fdir_port_bind_def)

lemma init_ok_live:
  assumes "port_is_valid (Some p)"
  shows "live (snd (fdir_init config (Some p) s))"
proof -
  have "fdir_inv ((fdir_boot (env s))\<lparr>g_port := p, g_port_ready := True, g_config := c,
      g_supervision_enabled := 1, calls := calls s\<rparr>)" for c
    using fdir_inv_boot [of "env s"] assms
    by (simp add: fdir_inv_def port_inv_def ents_inv_def)
  then show ?thesis
    unfolding init_ok [OF assms] by (simp add: live_def)
qed

lemma init_inv: "fdir_inv s \<Longrightarrow> fdir_inv (snd (fdir_init config port s))"
proof (cases "port_is_valid port")
  case True
  then obtain p where p: "port = Some p" by (cases port) (auto simp: port_is_valid_def)
  with True init_ok_live [of p config s] show ?thesis by (simp add: live_def)
qed (auto simp: init_bad fdir_inv_def port_inv_def ents_inv_def)


subsection \<open>Reachable states\<close>

inductive fdir_next :: "'e fdir \<Rightarrow> 'e fdir \<Rightarrow> bool" where
  call: "exec c s = Some s' \<Longrightarrow> fdir_next s s'"
| environment: "fdir_next s (s\<lparr>env := e\<rparr>)"

inductive fdir_reachable :: "'e fdir \<Rightarrow> bool" where
  boot: "fdir_reachable (fdir_boot e)"
| step: "fdir_reachable s \<Longrightarrow> fdir_next s s' \<Longrightarrow> fdir_reachable s'"

inductive_cases fdir_nextE: "fdir_next s s'"

lemma exec_reachable: "fdir_reachable s \<Longrightarrow> exec c s = Some s' \<Longrightarrow> fdir_reachable s'"
  by (blast intro: fdir_reachable.step fdir_next.call)

lemma run_reachable: "fdir_reachable s \<Longrightarrow> run cs s = Some s' \<Longrightarrow> fdir_reachable s'"
  by (induction cs s rule: run.induct) (auto split: bind_splits intro: exec_reachable)

lemma exec_inv:
  assumes "fdir_inv s" "exec c s = Some s'"
  shows "fdir_inv s'"
proof (cases "is_init c")
  case True
  then obtain config port where "c = Init config port" by (auto simp: is_init_def)
  with assms init_inv show ?thesis by auto
next
  case False
  from keepsD [OF exec_keeps [OF assms(1) this] assms(2)] show ?thesis
    using api_step_frame(4) assms(1) by blast
qed

interpretation lib: inductive_invariant "\<lambda>s. \<exists>e. s = fdir_boot e" fdir_next fdir_reachable fdir_inv
proof unfold_locales
  fix s :: "'a fdir" and Q :: "'a fdir \<Rightarrow> bool"
  assume "fdir_reachable s" "\<And>s. \<exists>e. s = fdir_boot e \<Longrightarrow> Q s"
    "\<And>s s'. fdir_reachable s \<Longrightarrow> Q s \<Longrightarrow> fdir_next s s' \<Longrightarrow> Q s'"
  then show "Q s" by induction blast+
next
  fix s :: "'a fdir"
  assume "\<exists>e. s = fdir_boot e"
  then show "fdir_inv s" by (auto simp: fdir_inv_boot)
next
  fix s s' :: "'a fdir"
  assume inv: "fdir_inv s" and "fdir_next s s'"
  have env: "fdir_inv (s\<lparr>env := e\<rparr>)" for e
    using inv by (simp add: fdir_inv_def port_inv_def ents_inv_def)
  from \<open>fdir_next s s'\<close> show "fdir_inv s'"
    by (cases rule: fdir_next.cases) (auto intro: exec_inv [OF inv] env)
qed

end
