(* ===== verification/Recovery_Effects.thy ===== *)
theory Recovery_Effects
  imports Api_Contract
begin

text \<open>
  What the recovery engine does to the entity it works on, and that it leaves the others alone.
  Everything but \<open>try_restart\<close>, the latch and the health update leaves the entity table and the
  health table as they are, restarts nothing and raises no watchdog event (\<open>engine_frame\<close>), so the
  effect of an action on both tables is that of its restart attempt.
\<close>

text \<open>The events among the calls, and the calls made since an earlier state.\<close>

definition emitted :: "ext_call list \<Rightarrow> fdir_event list" where
  "emitted cs = concat (map (\<lambda>c. case c of Call_emit ev \<Rightarrow> [ev] | _ \<Rightarrow> []) cs)"

definition since :: "'e fdir \<Rightarrow> 'e fdir \<Rightarrow> ext_call list" where
  "since s s' = drop (length (calls s)) (calls s')"

lemma emitted_append [simp]: "emitted (xs @ ys) = emitted xs @ emitted ys"
  by (simp add: emitted_def)

lemma emitted_simps [simp]:
  "emitted [] = []" "emitted (Call_emit ev # cs) = ev # emitted cs" "emitted (Call_now t # cs) = emitted cs"
  "emitted (Call_restart i u rc # cs) = emitted cs" "emitted (Call_lock # cs) = emitted cs"
  "emitted (Call_unlock # cs) = emitted cs" "emitted (Call_reboot w # cs) = emitted cs"
  "emitted (Call_decide i r a b u x # cs) = emitted cs"
  "emitted (Call_exhausted k i r u x # cs) = emitted cs"
  "emitted (Call_escalation m l ro u # cs) = emitted cs"
  by (simp_all add: emitted_def)

lemma since_append: "calls s' = calls s @ cs \<Longrightarrow> since s s' = cs"
  by (simp add: since_def)

text \<open>The entities that the watchdog events among the calls are about, in their order.\<close>

definition watchdogs :: "ext_call list \<Rightarrow> fdir_entity_id list" where
  "watchdogs cs = map ev_entity (filter (\<lambda>ev. ev_kind ev = FDIR_EVENT_WATCHDOG) (emitted cs))"

lemma watchdogs_append [simp]: "watchdogs (xs @ ys) = watchdogs xs @ watchdogs ys"
  by (simp add: watchdogs_def)

lemma watchdogs_Nil [simp]: "watchdogs [] = []"
  by (simp add: watchdogs_def)

text \<open>A call that neither raises a watchdog event nor restarts an entity.\<close>

fun plain_call :: "ext_call \<Rightarrow> bool" where
  "plain_call (Call_emit ev) = (ev_kind ev \<noteq> FDIR_EVENT_WATCHDOG)"
| "plain_call (Call_restart _ _ _) = False"
| "plain_call _ = True"

lemma plain_call_simps [simp]:
  assumes "plain_call c"
  shows "watchdogs (c # cs) = watchdogs cs" "restarts i (c # cs) = restarts i cs"
  using assms by (cases c; simp add: watchdogs_def restarts_def)+

lemma watchdogs_emit [simp]:
  "watchdogs (Call_emit ev # cs) = (if ev_kind ev = FDIR_EVENT_WATCHDOG then [ev_entity ev] else []) @ watchdogs cs"
  by (simp add: watchdogs_def)

lemma restarts_emit [simp]: "restarts i (Call_emit ev # cs) = restarts i cs"
  by (simp add: restarts_def)

lemma restart_call_simps [simp]:
  "watchdogs (Call_restart j u rc # cs) = watchdogs cs"
  "restarts i (Call_restart j u rc # cs) = restarts i cs + (if i = j then 1 else 0)"
  by (simp add: watchdogs_def, cases "i = j") (simp_all add: restarts_def)

named_theorems eng_keeps \<open>a function leaves the entity and health tables alone\<close>

definition engine_frame :: "'e fdir \<Rightarrow> 'e fdir \<Rightarrow> bool" where
  "engine_frame s s' \<longleftrightarrow>
     hl s' = hl s \<and> g_entities s' = g_entities s \<and> g_entity_count s' = g_entity_count s \<and>
     watchdogs (calls s') = watchdogs (calls s) \<and> (\<forall>i. restarts i (calls s') = restarts i (calls s))"

interpretation eng: two_state engine_frame
  by unfold_locales (simp_all add: engine_frame_def)

lemma engine_frame_ext [simp]: "plain_call c \<Longrightarrow> engine_frame s (ext c e s)"
  by (simp add: engine_frame_def)

lemma engine_frame_refl [simp, intro]: "engine_frame s s"
  by (simp add: engine_frame_def)

lemma emit_eng [eng_keeps]:
  "kind \<noteq> FDIR_EVENT_WATCHDOG \<Longrightarrow> keeps (emit_event_full kind mode entity reason code level phase detail s) (engine_frame s)"
  by (rule keeps_mono [OF emit_event_full_keeps]) (auto simp: engine_frame_def full_event_def)

lemma emit_sub_eng [eng_keeps]:
  "keeps (fdir_internal_emit_subsystem_state sub entity reason code phase detail s) (engine_frame s)"
  by (rule keeps_mono [OF emit_subsystem_state_keeps]) (auto simp: engine_frame_def sub_event_def)

lemma notify_eng: "engine_frame s (notify_system_handler mode report s)"
  by (simp add: notify_system_handler_def Let_def split: option.split)

lemma set_mode_eng [eng_keeps]: "keeps (set_mode mode entity detail report s) (engine_frame s)"
proof -
  have "engine_frame s (s\<lparr>g_mode := mode\<rparr>)" by (simp add: engine_frame_def)
  note emit = eng.keeps_from [OF this emit_eng]
  show ?thesis
    by (auto simp: set_mode_def intro!: keeps_mono [OF emit] intro: eng.trans notify_eng simp: keeps_bind)
qed

lemma modes_eng [eng_keeps]:
  "keeps (enter_degraded_mode_unsafe s) (engine_frame s)"
  "keeps (enter_safe_mode_unsafe s) (engine_frame s)"
  by (simp_all add: enter_degraded_mode_unsafe_def enter_safe_mode_unsafe_def set_mode_eng)

lemma dual_path_eng [eng_keeps]: "keeps (evaluate_dual_path s) (engine_frame s)"
  unfolding evaluate_dual_path_def
  by (rule keeps_bindI [of _ "\<lambda>_. True"]) (simp_all add: keeps_def [of "fdir_subsystems_critical_unavailable_count _"] modes_eng)

lemma reboot_eng [eng_keeps]:
  "keeps (fdir_request_reboot why s) (engine_frame s)"
  "keeps (try_reboot_unsafe reason s) (engine_frame s)"
proof -
  show r: "keeps (fdir_request_reboot why s) (engine_frame s)" for why and s :: "'a fdir"
    by (rule keeps_mono [OF reboot_keeps]) auto
  show "keeps (try_reboot_unsafe reason s) (engine_frame s)"
    unfolding try_reboot_unsafe_def Let_def by (intro eng.keeps_seq set_mode_eng r)
qed

lemma marks_eng [eng_keeps]:
  "keeps (mark_linked_degraded sub eid report s) (engine_frame s)"
  "keeps (mark_linked_unavailable sub eid report s) (engine_frame s)"
proof -
  have "engine_frame s (s\<lparr>sb := t\<rparr>)" for t by (simp add: engine_frame_def)
  note sub = eng.keeps_from [OF this emit_sub_eng]
  show "keeps (mark_linked_degraded sub eid report s) (engine_frame s)"
    unfolding mark_linked_degraded_def Let_def
    by (auto intro!: keeps_bindI [of _ "\<lambda>_. True"] sub simp: keeps_def [of "fdir_subsystem_mark_degraded_unsafe _ _"])
  show "keeps (mark_linked_unavailable sub eid report s) (engine_frame s)"
    unfolding mark_linked_unavailable_def Let_def
    by (auto intro!: keeps_bindI [of _ "\<lambda>_. True"] sub simp: keeps_def [of "fdir_subsystem_mark_unavailable_unsafe _ _"])
qed

lemma exhausted_eng [eng_keeps]:
  "keeps (fdir_subsystem_on_entity_exhausted sub entity report s) (\<lambda>(_, s'). engine_frame s s')"
  by (auto simp: fdir_subsystem_on_entity_exhausted_def keeps_def
      split: bind_splits option.splits prod.splits)

lemma resolve_eng [eng_keeps]:
  "keeps (resolve_exhausted_action eid action report s) (\<lambda>(_, s'). engine_frame s s')"
  by (auto simp: resolve_exhausted_action_def Let_def keeps_def split: bind_splits if_splits
      intro: eng.trans dest!: keepsD [OF exhausted_eng] keepsD [OF emit_sub_eng])

lemma call_decide_eng: "engine_frame s (snd (call_decide eid slot report s))"
  by (simp add: call_decide_def Let_def split: option.split prod.split)


subsection \<open>The effect of an action on the two tables\<close>

lemma apply_action_other:
  "action \<noteq> FDIR_ACTION_RESTART \<Longrightarrow> keeps (apply_action eid action report s) (engine_frame s)"
  by (subst apply_action.simps)
    (auto simp: Let_def keeps_if
      intro!: keeps_bindI [of "arr_get _ _" "\<lambda>_. True"] eng.keeps_seq [OF marks_eng(2)]
        eng.keeps_seq [OF modes_eng(1)] eng.keeps_seq [OF marks_eng(1)] eng_keeps
      simp: keeps_def [of "arr_get _ _"])

lemma apply_action_restart:
  "keeps (apply_action eid FDIR_ACTION_RESTART report s)
     (\<lambda>s'. \<exists>status t. try_restart eid (rep_reason report) s = Some (status, t) \<and> engine_frame t s')"
proof (unfold keeps_def, intro allI impI)
  fix s' assume eq: "apply_action eid FDIR_ACTION_RESTART report s = Some s'"
  obtain status t where t: "try_restart eid (rep_reason report) s = Some (status, t)"
    using eq by (subst (asm) apply_action.simps) (auto split: bind_splits)
  have "engine_frame t s'"
  proof (cases "status = FDIR_OK")
    case True
    with eq t show ?thesis by (subst (asm) apply_action.simps) (auto split: bind_splits)
  next
    case False
    with eq t obtain a where "a \<noteq> FDIR_ACTION_RESTART" "apply_action eid a report t = Some s'"
      by (subst (asm) apply_action.simps) (auto simp: Let_def split: bind_splits if_splits)
    then show ?thesis using keepsD [OF apply_action_other] by blast
  qed
  with t show "\<exists>status t. try_restart eid (rep_reason report) s = Some (status, t) \<and> engine_frame t s'"
    by blast
qed

subsection \<open>A restart attempt\<close>

definition entity_event :: "fdir_event_kind \<Rightarrow> fdir_mode \<Rightarrow> fdir_entity_id \<Rightarrow> fdir_reason \<Rightarrow> fdir_anomaly_phase \<Rightarrow> fdir_event \<Rightarrow> bool" where
  "entity_event kind mode eid reason phase ev \<longleftrightarrow>
     ev_kind ev = kind \<and> ev_mode ev = mode \<and> ev_entity ev = eid \<and> ev_reason ev = reason \<and>
     ev_level ev = FDIR_LEVEL_ENTITY \<and> ev_phase ev = phase"

lemma emit_entity_event:
  assumes "live s"
  obtains s' t ev where
    "emit_event_full kind mode eid reason code FDIR_LEVEL_ENTITY phase detail s = Some s'"
    "outside s s'" "calls s' = calls s @ [Call_now t, Call_emit ev]" "entity_event kind mode eid reason phase ev"
    "ev_error_code ev = code" "cstr (ev_detail ev) = (case detail of None \<Rightarrow> [] | Some d \<Rightarrow> take 31 (cstr d))"
proof -
  obtain s' where s': "emit_event_full kind mode eid reason code FDIR_LEVEL_ENTITY phase detail s = Some s'"
    using live_hooks_return(3) [OF assms] by (metis returnsE)
  obtain t e e' ev where ev: "s' = ext (Call_emit ev) e' (ext (Call_now t) e s)"
    "full_event kind mode eid reason code FDIR_LEVEL_ENTITY phase detail t ev"
    using keepsD [OF emit_event_full_keeps s'] by blast
  show ?thesis
    by (rule that [OF s', of t ev]) (use ev in \<open>simp_all add: outside_iff full_event_def entity_event_def\<close>)
qed

definition bumped :: "fdir_entity_id \<Rightarrow> fdir_reason \<Rightarrow> 'e fdir \<Rightarrow> 'e fdir_entity_slot list" where
  "bumped eid reason s = (g_entities s)[unat eid := bump_restart reason (g_entities s ! unat eid)]"

definition unlatched_ok :: "fdir_entity_id \<Rightarrow> 'e fdir \<Rightarrow> bool" where
  "unlatched_ok eid s \<longleftrightarrow>
     hs_health (g_health (hl s) ! unat eid) = FDIR_HEALTH_OK \<and>
     hs_error_code (g_health (hl s) ! unat eid) = 0 \<and> cstr (hs_detail (g_health (hl s) ! unat eid)) = [] \<and>
     g_fault_latched (hl s) ! unat eid = 0"

text \<open>The health table outside one entry.\<close>

definition others_same :: "fdir_entity_id \<Rightarrow> health_table \<Rightarrow> health_table \<Rightarrow> bool" where
  "others_same eid h h' \<longleftrightarrow>
     g_entity_limit h' = g_entity_limit h \<and>
     (\<forall>j. j \<noteq> unat eid \<longrightarrow>
        g_health h' ! j = g_health h ! j \<and> g_fault_latched h' ! j = g_fault_latched h ! j \<and>
        g_latched_reason h' ! j = g_latched_reason h ! j)"

lemma others_same_refl [simp]: "others_same eid h h"
  by (simp add: others_same_def)

lemma others_same_trans: "others_same eid h i \<Longrightarrow> others_same eid i j \<Longrightarrow> others_same eid h j"
  by (simp add: others_same_def)

lemma others_same_update:
  "others_same eid h (h\<lparr>g_health := (g_health h)[unat eid := a]\<rparr>)"
  "others_same eid h (h\<lparr>g_fault_latched := (g_fault_latched h)[unat eid := b],
                        g_latched_reason := (g_latched_reason h)[unat eid := c]\<rparr>)"
  by (simp_all add: others_same_def)

definition latched_reason :: "fdir_entity_id \<Rightarrow> health_table \<Rightarrow> fdir_reason" where
  "latched_reason eid h =
     (if g_fault_latched h ! unat eid \<noteq> 0 then g_latched_reason h ! unat eid else reason_0xFF)"

lemma clear_and_reset:
  assumes "live s" "registered eid s"
  obtains h s' t where "fdir_health_clear_latch_unsafe eid (hl s) = Some (latched_reason eid (hl s), h)"
    "fdir_health_reset_unsafe eid (s\<lparr>hl := h\<rparr>) = Some s'" "live s'" "unlatched_ok eid s'"
    "others_same eid (hl s) (hl s')" "g_entities s' = g_entities s" "g_mode s' = g_mode s"
    "calls s' = calls s @ [Call_now t]"
proof -
  have tr: "tracked eid (hl s)" using registered_tracked [OF liveD(1)] assms by blast
  define h where "h = (hl s)\<lparr>g_fault_latched := (g_fault_latched (hl s))[unat eid := 0],
      g_latched_reason := (g_latched_reason (hl s))[unat eid := FDIR_REASON_INIT_FAILED]\<rparr>"
  have clear: "fdir_health_clear_latch_unsafe eid (hl s) = Some (latched_reason eid (hl s), h)"
    using clear_latch_eq [OF liveD(5) [OF assms(1)] tr] by (simp add: h_def latched_reason_def)
  have "rec_step s (s\<lparr>hl := h\<rparr>)"
    using keepsD [OF clear_latch_keeps clear] by (auto simp: hl_step_def intro: rec_step_hl)
  then have live: "live (s\<lparr>hl := h\<rparr>)" using assms(1) rec_step_live by blast
  have tr': "tracked eid (hl (s\<lparr>hl := h\<rparr>))" using tr by (simp add: tracked_def h_def)
  obtain t e snap where
    reset: "fdir_health_reset_unsafe eid (s\<lparr>hl := h\<rparr>) =
      Some ((ext (Call_now t) e (s\<lparr>hl := h\<rparr>))\<lparr>hl := (hl (s\<lparr>hl := h\<rparr>))\<lparr>g_health := (g_health (hl (s\<lparr>hl := h\<rparr>)))[unat eid := snap]\<rparr>\<rparr>)"
    and snap: "snapshot_inv snap" "hs_health snap = FDIR_HEALTH_OK" "hs_error_code snap = 0"
      "hs_last_heartbeat_ms snap = t" "cstr (hs_detail snap) = []"
    by (rule reset_unsafe_tracked [OF liveD(5,3,2) [OF live] tr'])
  show ?thesis
    by (rule that [OF clear reset _ _ _ _ _, of t])
      (use rec_step_live [OF keepsD [OF reset_unsafe_keeps reset] live] snap
        tracked_index [OF liveD(5) [OF assms(1)] tr]
        in \<open>simp_all add: h_def unlatched_ok_def others_same_def\<close>)
qed

definition restart_events ::
  "fdir_entity_id \<Rightarrow> fdir_reason \<Rightarrow> fdir_reason \<Rightarrow> fdir_mode \<Rightarrow> fdir_event list \<Rightarrow> bool" where
  "restart_events eid was reason mode evs \<longleftrightarrow>
     (\<exists>restart. entity_event FDIR_EVENT_RESTART mode eid reason FDIR_ANOMALY_RAISED restart \<and>
        (if was \<noteq> reason_0xFF
         then \<exists>cleared. entity_event FDIR_EVENT_FAILURE mode eid was FDIR_ANOMALY_CLEARED cleared \<and>
                evs = [cleared, restart]
         else evs = [restart]))"

lemma outside_live: "outside s s' \<Longrightarrow> live s \<Longrightarrow> live s'"
  using fdir_inv_outside [of s s'] by (simp add: live_def outside_iff)

lemma restart_events_emitted:
  assumes "live s"
  obtains s1 s2 cs where
    "(if was \<noteq> reason_0xFF then emit_event_full FDIR_EVENT_FAILURE (g_mode s) eid was 0
        FDIR_LEVEL_ENTITY FDIR_ANOMALY_CLEARED nm s else Some s) = Some s1"
    "emit_event_full FDIR_EVENT_RESTART (g_mode s1) eid reason 0 FDIR_LEVEL_ENTITY FDIR_ANOMALY_RAISED nm s1 = Some s2"
    "outside s s2" "calls s2 = calls s @ cs" "\<forall>i. restarts i cs = 0"
    "restart_events eid was reason (g_mode s) (emitted cs)"
proof -
  obtain s1 cs where s1: "(if was \<noteq> reason_0xFF then emit_event_full FDIR_EVENT_FAILURE (g_mode s) eid was 0
        FDIR_LEVEL_ENTITY FDIR_ANOMALY_CLEARED nm s else Some s) = Some s1" "outside s s1" "calls s1 = calls s @ cs" "\<forall>i. restarts i cs = 0"
    and cs: "if was \<noteq> reason_0xFF then \<exists>ev. entity_event FDIR_EVENT_FAILURE (g_mode s) eid was
        FDIR_ANOMALY_CLEARED ev \<and> emitted cs = [ev] else emitted cs = []"
  proof (cases "was = reason_0xFF")
    case True
    then show ?thesis by (intro that [of s "[]"]) simp_all
  next
    case False
    obtain s1 tm ev where "emit_event_full FDIR_EVENT_FAILURE (g_mode s) eid was 0
        FDIR_LEVEL_ENTITY FDIR_ANOMALY_CLEARED nm s = Some s1" "outside s s1"
      "calls s1 = calls s @ [Call_now tm, Call_emit ev]"
      "entity_event FDIR_EVENT_FAILURE (g_mode s) eid was FDIR_ANOMALY_CLEARED ev"
      "ev_error_code ev = 0" "cstr (ev_detail ev) = (case nm of None \<Rightarrow> [] | Some d \<Rightarrow> take 31 (cstr d))"
      by (rule emit_entity_event [OF assms])
    with False show ?thesis by (intro that [of s1 "[Call_now tm, Call_emit ev]"]) (simp_all add: entity_event_def)
  qed
  obtain s2 tm ev where s2: "emit_event_full FDIR_EVENT_RESTART (g_mode s1) eid reason 0
      FDIR_LEVEL_ENTITY FDIR_ANOMALY_RAISED nm s1 = Some s2" "outside s1 s2"
    "calls s2 = calls s1 @ [Call_now tm, Call_emit ev]"
    "entity_event FDIR_EVENT_RESTART (g_mode s1) eid reason FDIR_ANOMALY_RAISED ev"
    "ev_error_code ev = 0" "cstr (ev_detail ev) = (case nm of None \<Rightarrow> [] | Some d \<Rightarrow> take 31 (cstr d))"
    by (rule emit_entity_event [OF outside_live [OF s1(2) assms]])
  have mode: "g_mode s1 = g_mode s" using s1(2) by (simp add: outside_iff)
  have "restart_events eid was reason (g_mode s) (emitted (cs @ [Call_now tm, Call_emit ev]))"
  proof (cases "was = reason_0xFF")
    case True
    then show ?thesis using cs s2(4) mode by (simp add: restart_events_def)
  next
    case False
    with cs obtain c where "entity_event FDIR_EVENT_FAILURE (g_mode s) eid was FDIR_ANOMALY_CLEARED c" "emitted cs = [c]"
      by auto
    with False s2(4) mode show ?thesis
      unfolding restart_events_def by (intro exI [of _ ev]) simp
  qed
  then show ?thesis
    by (rule that [OF s1(1) s2(1) outside_trans [OF s1(2) s2(2)], rotated 2])
      (use s1(3,4) s2(3,4) in \<open>simp_all add: entity_event_def\<close>)
qed

lemma restart_events_quiet: "restart_events eid was reason mode (emitted cs) \<Longrightarrow> watchdogs cs = []"
  by (auto simp: restart_events_def entity_event_def watchdogs_def split: if_splits)

lemma try_restart_cases:
  assumes "live s" "registered eid s"
  defines "slot \<equiv> g_entities s ! unat eid"
  obtains
    (no_callback) "ed_restart (es_desc slot) = None" "try_restart eid reason s = Some (FDIR_ERR_PORT, s)"
  | (refused) f rc e where "ed_restart (es_desc slot) = Some f" "f eid (ed_user (es_desc slot)) (env s) = (rc, e)"
      "rc \<noteq> 0" "try_restart eid reason s = Some (FDIR_ERR_STATE,
         ext (Call_restart eid (ed_user (es_desc slot)) rc) e (s\<lparr>g_entities := bumped eid reason s\<rparr>))"
  | (ok) f e s' cs where "ed_restart (es_desc slot) = Some f" "f eid (ed_user (es_desc slot)) (env s) = (0, e)"
      "try_restart eid reason s = Some (FDIR_OK, s')" "g_entities s' = bumped eid reason s"
      "unlatched_ok eid s'" "others_same eid (hl s) (hl s')" "g_mode s' = g_mode s"
      "calls s' = calls s @ Call_restart eid (ed_user (es_desc slot)) 0 # cs" "\<forall>i. restarts i cs = 0"
      "restart_events eid (latched_reason eid (hl s)) reason (g_mode s) (emitted cs)"
proof (cases "ed_restart (es_desc slot)")
  case None
  with registered_index [OF liveD(1) [OF assms(1)] assms(2)] show ?thesis
    by (intro that(1)) (simp_all add: try_restart_def slot_def)
next
  case (Some f)
  note ix = registered_index [OF liveD(1) [OF assms(1)] assms(2)]
  obtain rc e where f: "f eid (ed_user (es_desc slot)) (env s) = (rc, e)" by fastforce
  define s1 where "s1 = ext (Call_restart eid (ed_user (es_desc slot)) rc) e (s\<lparr>g_entities := bumped eid reason s\<rparr>)"
  show ?thesis
  proof (cases "rc = 0")
    case False
    then show ?thesis
      by (intro that(2) [OF Some f]) (use Some f ix in \<open>simp_all add: try_restart_def slot_def bumped_def\<close>)
  next
    case True
    have "rec_step s s1"
      unfolding s1_def bumped_def using ix by (rule rec_step_restart) simp
    then have live1: "live s1" and reg1: "registered eid s1"
      using assms(1,2) rec_step_live rec_step_registered by blast+
    obtain h s2 t where h: "fdir_health_clear_latch_unsafe eid (hl s1) = Some (latched_reason eid (hl s1), h)"
      and s2: "fdir_health_reset_unsafe eid (s1\<lparr>hl := h\<rparr>) = Some s2" "live s2" "unlatched_ok eid s2"
        "others_same eid (hl s1) (hl s2)" "g_entities s2 = g_entities s1" "g_mode s2 = g_mode s1"
        "calls s2 = calls s1 @ [Call_now t]"
      by (rule clear_and_reset [OF live1 reg1])
    obtain s3 s4 cs where s3: "(if latched_reason eid (hl s1) \<noteq> reason_0xFF
          then emit_event_full FDIR_EVENT_FAILURE (g_mode s2) eid (latched_reason eid (hl s1)) 0
          FDIR_LEVEL_ENTITY FDIR_ANOMALY_CLEARED (ed_name (es_desc slot)) s2 else Some s2) = Some s3"
      and s4: "emit_event_full FDIR_EVENT_RESTART (g_mode s3) eid reason 0 FDIR_LEVEL_ENTITY
          FDIR_ANOMALY_RAISED (ed_name (es_desc slot)) s3 = Some s4"
        "outside s2 s4" "calls s4 = calls s2 @ cs" "\<forall>i. restarts i cs = 0"
        "restart_events eid (latched_reason eid (hl s1)) reason (g_mode s2) (emitted cs)"
      by (rule restart_events_emitted [OF s2(2)])
    have run: "try_restart eid reason s = Some (FDIR_OK, s4)"
      using Some f ix True h s2(1) s3 s4(1)
      by (cases "latched_reason eid (hl s1) = reason_0xFF")
        (simp_all add: try_restart_def slot_def [symmetric] s1_def bumped_def)
    have same: "hl s4 = hl s2" "g_entities s4 = g_entities s2" "g_mode s4 = g_mode s2"
      using s4(2) by (simp_all add: outside_iff)
    show ?thesis
      by (rule that(3) [OF Some _ run, of e "Call_now t # cs"])
        (use f True same s2 s4 in \<open>simp_all add: s1_def unlatched_ok_def\<close>)
  qed
qed

subsection \<open>Recovery of one entity\<close>

text \<open>An entity whose failure stands: marked FAILED and latched for the reported reason.\<close>

definition stands_failed :: "fdir_entity_id \<Rightarrow> fdir_reason \<Rightarrow> 'e fdir \<Rightarrow> bool" where
  "stands_failed eid reason s \<longleftrightarrow> failed eid (hl s) \<and> latched eid reason (hl s)"

lemma latch_then_set:
  assumes "live s" "registered eid s"
  obtains rc h h' where "fdir_health_latch_fault_unsafe eid reason (hl s) = Some (rc, h)"
    "fdir_health_set_unsafe eid FDIR_HEALTH_FAILED code detail h = Some h'"
    "rec_step s (s\<lparr>hl := h'\<rparr>)" "stands_failed eid reason (s\<lparr>hl := h'\<rparr>)" "others_same eid (hl s) h'"
proof -
  have tr: "tracked eid (hl s)" using registered_tracked [OF liveD(1)] assms by blast
  obtain rc h where h: "fdir_health_latch_fault_unsafe eid reason (hl s) = Some (rc, h)"
    and lh: "latched eid reason h" and same: "others_same eid (hl s) h"
  proof (cases "latched eid reason (hl s)")
    case True
    then show ?thesis
      using that [of 1 "hl s"] latch_fault_eq [OF liveD(5) [OF assms(1)] tr, of reason] by simp
  next
    case False
    then show ?thesis
      using latch_fault_eq [OF liveD(5) [OF assms(1)] tr, of reason] tracked_index [OF liveD(5) [OF assms(1)] tr] tr
      by (intro that [of 0 "(hl s)\<lparr>g_fault_latched := (g_fault_latched (hl s))[unat eid := 1],
          g_latched_reason := (g_latched_reason (hl s))[unat eid := reason]\<rparr>"])
        (simp_all add: latched_def tracked_def others_same_def)
  qed
  have hinv: "health_inv h" using keepsD [OF latch_keeps h] liveD(5) [OF assms(1)] by (simp add: hl_step_def)
  have trh: "tracked eid h" using lh by (simp add: latched_def)
  obtain snap where h': "fdir_health_set_unsafe eid FDIR_HEALTH_FAILED code detail h =
      Some (h\<lparr>g_health := (g_health h)[unat eid := snap]\<rparr>)" "hs_health snap = FDIR_HEALTH_FAILED"
    using hinv trh by (cases rule: set_unsafe_cases [of h eid FDIR_HEALTH_FAILED code detail]) auto
  show ?thesis
    by (rule that [OF h h'(1) latch_set_rec [OF h h'(1)]])
      (use lh trh h'(2) same tracked_index [OF hinv trh]
        in \<open>auto simp: stands_failed_def failed_def latched_def tracked_def others_same_def\<close>)
qed

lemma engine_frame_facts:
  assumes "engine_frame s t"
  shows "stands_failed eid reason t = stands_failed eid reason s" "unlatched_ok eid t = unlatched_ok eid s"
    "bumped eid reason t = bumped eid reason s"
  using assms by (simp_all add: engine_frame_def stands_failed_def unlatched_ok_def bumped_def)

text \<open>The effect of an action on the entity it is applied to.\<close>

definition action_effect :: "fdir_entity_id \<Rightarrow> fdir_reason \<Rightarrow> fdir_action \<Rightarrow> 'e fdir \<Rightarrow> 'e fdir \<Rightarrow> bool" where
  "action_effect eid reason action s s' \<longleftrightarrow>
     (if action = FDIR_ACTION_RESTART \<and> ed_restart (es_desc (g_entities s ! unat eid)) \<noteq> None then
        g_entities s' = bumped eid reason s \<and> watchdogs (calls s') = watchdogs (calls s) \<and>
        (\<forall>i. restarts i (calls s') = restarts i (calls s) + (if i = eid then 1 else 0)) \<and>
        (hl s' = hl s \<or> unlatched_ok eid s' \<and> others_same eid (hl s) (hl s'))
      else engine_frame s s')"

lemma try_restart_effect:
  assumes "live s" "registered eid s" "try_restart eid reason s = Some (status, t)"
  shows "action_effect eid reason FDIR_ACTION_RESTART s t"
  using assms(1,2)
proof (cases rule: try_restart_cases [of s eid reason])
  case no_callback
  with assms(3) show ?thesis by (simp add: action_effect_def)
next
  case (refused f rc e)
  with assms(3) show ?thesis by (auto simp: action_effect_def)
next
  case (ok f e s' cs)
  with assms(3) restart_events_quiet [OF ok(10)] show ?thesis by (simp add: action_effect_def)
qed

lemma apply_action_effect:
  assumes "live s" "registered eid s" "apply_action eid action report s = Some s'"
  shows "action_effect eid (rep_reason report) action s s'"
proof (cases "action = FDIR_ACTION_RESTART")
  case False
  then show ?thesis
    using keepsD [OF apply_action_other [OF False] assms(3)] by (simp add: action_effect_def)
next
  case True
  with keepsD [OF apply_action_restart] assms(3) obtain status t where
    t: "try_restart eid (rep_reason report) s = Some (status, t)" "engine_frame t s'" by blast
  show ?thesis
    using try_restart_effect [OF assms(1,2) t(1)] t(2) True
    by (auto simp: action_effect_def engine_frame_def unlatched_ok_def)
qed

lemma recover_entity_steps:
  assumes "live s" "registered (rep_entity r) s" "recover_entity r s = Some s'"
  obtains action t where "live t" "registered (rep_entity r) t" "g_entities t = g_entities s"
    "stands_failed (rep_entity r) (rep_reason r) t" "others_same (rep_entity r) (hl s) (hl t)"
    "watchdogs (calls t) = watchdogs (calls s)" "\<forall>i. restarts i (calls t) = restarts i (calls s)"
    "action_effect (rep_entity r) (rep_reason r) action t s'"
    "ed_decide (es_desc (g_entities s ! unat (rep_entity r))) = None \<and>
     ed_linked_subsystem (es_desc (g_entities s ! unat (rep_entity r))) = FDIR_SUBSYSTEM_NONE \<longrightarrow>
     action = default_decide (g_entities s ! unat (rep_entity r)) r"
proof -
  let ?e = "rep_entity r" and ?slot = "g_entities s ! unat (rep_entity r)"
  note ix = registered_index [OF liveD(1) [OF assms(1)] assms(2)]
  obtain rc h h' where h: "fdir_health_latch_fault_unsafe ?e (rep_reason r) (hl s) = Some (rc, h)"
    "fdir_health_set_unsafe ?e FDIR_HEALTH_FAILED (rep_error_code r) (Some (cstr (rep_detail r))) h = Some h'"
    and s1: "rec_step s (s\<lparr>hl := h'\<rparr>)" "stands_failed ?e (rep_reason r) (s\<lparr>hl := h'\<rparr>)" "others_same ?e (hl s) h'"
    by (rule latch_then_set [OF assms(1,2)])
  define s2 where "s2 = snd (call_decide ?e ?slot r (s\<lparr>hl := h'\<rparr>))"
  define a where "a = fst (call_decide ?e ?slot r (s\<lparr>hl := h'\<rparr>))"
  define b where "b = (if a = FDIR_ACTION_NONE then default_decide ?slot r else a)"
  have "Option.bind (resolve_exhausted_action ?e b r s2)
      (\<lambda>(c, t). Option.bind (apply_action ?e c r t) evaluate_dual_path) = Some s'"
    using assms(3) h ix unfolding b_def a_def s2_def
    by (simp add: recover_entity_def Let_def split_beta split del: if_split)
  then obtain c t u where t: "resolve_exhausted_action ?e b r s2 = Some (c, t)"
    and u: "apply_action ?e c r t = Some u" and s': "evaluate_dual_path u = Some s'"
    by (auto split: bind_splits)
  have "rec_step s t"
    using s1(1) call_decide_rec keepsD [OF resolve_keeps t] unfolding s2_def
    by (metis (no_types, lifting) rec.trans case_prod_conv)
  then have lt: "live t" "registered ?e t"
    using assms(1,2) rec_step_live rec_step_registered by blast+
  have "engine_frame (s\<lparr>hl := h'\<rparr>) t"
    using eng.trans [OF call_decide_eng] keepsD [OF resolve_eng t] unfolding s2_def by blast
  then have tables: "hl t = h'" "g_entities t = g_entities s"
    "watchdogs (calls t) = watchdogs (calls s)" "\<forall>i. restarts i (calls t) = restarts i (calls s)"
    by (simp_all add: engine_frame_def)
  have eff: "action_effect ?e (rep_reason r) c t s'"
    using apply_action_effect [OF lt u] keepsD [OF dual_path_eng s']
    by (auto simp: action_effect_def engine_frame_def unlatched_ok_def)
  have "c = default_decide ?slot r"
    if "ed_decide (es_desc ?slot) = None" "ed_linked_subsystem (es_desc ?slot) = FDIR_SUBSYSTEM_NONE"
    using t that ix
    by (auto simp: b_def a_def s2_def call_decide_def resolve_exhausted_action_def split: if_splits)
  then show ?thesis
    using lt tables s1 eff by (intro that [of t c]) (auto simp: stands_failed_def)
qed

lemma recover_entity_effect:
  assumes "live s" "registered (rep_entity r) s" "recover_entity r s = Some s'"
  shows "others_same (rep_entity r) (hl s) (hl s')"
    and "g_entities s' = g_entities s \<or> g_entities s' = bumped (rep_entity r) (rep_reason r) s"
    and "stands_failed (rep_entity r) (rep_reason r) s' \<or> unlatched_ok (rep_entity r) s' \<and>
      restarts (rep_entity r) (calls s') = Suc (restarts (rep_entity r) (calls s))"
    and "watchdogs (calls s') = watchdogs (calls s)"
    and "i \<noteq> rep_entity r \<Longrightarrow> restarts i (calls s') = restarts i (calls s)"
proof -
  obtain action t where t: "g_entities t = g_entities s"
    "stands_failed (rep_entity r) (rep_reason r) t" "others_same (rep_entity r) (hl s) (hl t)"
    "watchdogs (calls t) = watchdogs (calls s)" "\<forall>i. restarts i (calls t) = restarts i (calls s)"
    "action_effect (rep_entity r) (rep_reason r) action t s'"
    using recover_entity_steps [OF assms] by metis
  then show "others_same (rep_entity r) (hl s) (hl s')"
    "g_entities s' = g_entities s \<or> g_entities s' = bumped (rep_entity r) (rep_reason r) s"
    "stands_failed (rep_entity r) (rep_reason r) s' \<or> unlatched_ok (rep_entity r) s' \<and>
      restarts (rep_entity r) (calls s') = Suc (restarts (rep_entity r) (calls s))"
    "watchdogs (calls s') = watchdogs (calls s)"
    "i \<noteq> rep_entity r \<Longrightarrow> restarts i (calls s') = restarts i (calls s)"
    by (auto simp: action_effect_def engine_frame_def bumped_def stands_failed_def
        split: if_splits intro: others_same_trans)
qed

end
