(* ===== verification/Demo.thy ===== *)
theory Demo
  imports Recovery_Contract
begin

text \<open>
  A small application in a concrete state, on which the theorems about the engine and the API are
  instantiated: the environment is the millisecond clock, the port has all hooks, one entity with a
  restart callback and one restart is linked to one critical-path subsystem, and the threshold for
  SAFE is one. \<open>demo_stuck\<close> is the same application with a restart callback that fails.
\<close>

definition demo_port :: "nat fdir_port" where
  "demo_port =
     \<lparr>get_now_ms = Some (\<lambda>e. (of_nat e, e)), emit_event = Some (\<lambda>_ e. e),
      request_reboot = Some (\<lambda>_ e. e), lock = Some (\<lambda>e. e), unlock = Some (\<lambda>e. e)\<rparr>"

definition demo_desc :: "int \<Rightarrow> nat fdir_entity_desc" where
  "demo_desc rc =
     \<lparr>ed_name = Some ''sensor'', ed_max_restarts = 1, ed_max_watchdog_restarts = 1,
      ed_on_exhausted = FDIR_ACTION_UNAVAILABLE, ed_linked_subsystem = 0,
      ed_restart = Some (\<lambda>_ _ e. (rc, e)), ed_decide = None, ed_user = 0\<rparr>"

definition demo_slot :: "int \<Rightarrow> nat fdir_entity_slot" where
  "demo_slot rc = zero_entity_slot\<lparr>es_desc := demo_desc rc, es_used := 1\<rparr>"

definition demo_sub :: "nat fdir_subsystem_slot" where
  "demo_sub = zero_subsystem_slot\<lparr>ss_used := 1, ss_available := 1,
     ss_desc := zero_subsystem_desc\<lparr>sd_is_critical_path := 1\<rparr>\<rparr>"

definition demo_state :: "int \<Rightarrow> nat fdir" where
  "demo_state rc =
     (fdir_boot 100)\<lparr>g_port := demo_port, g_port_ready := True,
       g_config := fdir_config_default\<lparr>safe_mode_critical_failure_threshold := 1\<rparr>,
       g_supervision_enabled := 1, g_entity_count := 1,
       g_entities := (replicate FDIR_ENTITY_CAP zero_entity_slot)[0 := demo_slot rc],
       hl := zero_health\<lparr>g_entity_limit := 1\<rparr>,
       sb := zero_subsystems\<lparr>g_sub_count := 1, g_subs := (g_subs zero_subsystems)[0 := demo_sub]\<rparr>\<rparr>"

abbreviation demo :: "nat fdir" where "demo \<equiv> demo_state 0"
abbreviation demo_stuck :: "nat fdir" where "demo_stuck \<equiv> demo_state 1"

definition demo_report :: fdir_failure_report where
  "demo_report = zero_report\<lparr>rep_reason := FDIR_REASON_IO_ERROR\<rparr>"

lemma demo_port_valid: "port_is_valid (Some demo_port)"
  by (simp add: port_is_valid_def demo_port_def)

lemma demo_simps [simp]:
  "g_supervision_enabled (demo_state rc) = 1" "g_port_ready (demo_state rc)" "g_mode (demo_state rc) = FDIR_MODE_NOMINAL"
  "g_port (demo_state rc) = demo_port" "g_entity_count (demo_state rc) = 1" "calls (demo_state rc) = []"
  "env (demo_state rc) = 100" "fq (demo_state rc) = zero_queue" "g_entities (demo_state rc) ! 0 = demo_slot rc"
  by (simp_all add: demo_state_def fdir_boot_def)

lemma demo_live: "live (demo_state rc)"
proof -
  have "health_inv (zero_health\<lparr>g_entity_limit := 1\<rparr>)"
    using health_inv_zero by (simp add: health_inv_def zero_health_def)
  moreover have "subs_inv (zero_subsystems\<lparr>g_sub_count := 1, g_subs := (g_subs zero_subsystems)[0 := demo_sub]\<rparr>)"
    by (auto simp: subs_inv_def zero_subsystems_def zero_subsystem_slot_def demo_sub_def nth_list_update_if)
  moreover have "ents_inv (demo_state rc)"
    by (auto simp: ents_inv_def demo_state_def fdir_boot_def zero_entity_slot_def demo_slot_def demo_desc_def
        nth_list_update_if)
  ultimately show ?thesis
    using demo_port_valid
    by (simp add: live_def fdir_inv_def port_inv_def demo_state_def fdir_boot_def mode_ok_cases zero_health_def)
qed

lemma demo_registered [simp]: "registered 0 (demo_state rc)"
  by (simp add: registered_def)

lemma demo_unlatched [simp]: "\<not> latched 0 reason (hl (demo_state rc))" "\<not> failed 0 (hl (demo_state rc))"
  by (simp_all add: latched_def failed_def demo_state_def zero_health_def zero_snapshot_def)

lemma demo_report_simps [simp]: "rep_entity demo_report = 0" "rep_reason demo_report = FDIR_REASON_IO_ERROR"
  by (simp_all add: demo_report_def zero_report_def)

lemma demo_paired: "lock_paired (demo_state rc)"
  by (simp add: lock_paired_def demo_port_def)

end
