(* ===== verification/Handling.thy ===== *)
theory Handling
  imports Recovery_Effects Demo
begin

text \<open>
  What handling a failure amounts to: mode changes and the SAFE threshold, the effect of each
  recovery action, suppression of repeated faults, and the outcome for the entity concerned.
\<close>

subsection \<open>Mode changes\<close>

text \<open>\<open>to_mode m s s'\<close>: the mode is \<open>m\<close> now and no other variable of the library changed.\<close>

definition to_mode :: "fdir_mode \<Rightarrow> 'e fdir \<Rightarrow> 'e fdir \<Rightarrow> bool" where
  "to_mode m s s' \<longleftrightarrow> outside (s\<lparr>g_mode := m\<rparr>) s'"

lemma to_modeD:
  assumes "to_mode m s s'"
  shows "g_mode s' = m" "sb s' = sb s" "hl s' = hl s" "fq s' = fq s" "g_entities s' = g_entities s"
    "g_config s' = g_config s" "g_entity_count s' = g_entity_count s"
    "g_supervision_enabled s' = g_supervision_enabled s"
  using assms by (simp_all add: to_mode_def outside_iff)

lemma to_mode_same [simp]: "to_mode (g_mode s) s s"
  by (simp add: to_mode_def outside_iff)

lemma to_mode_same_mode: "g_mode s = m \<Longrightarrow> to_mode m s s"
  by (simp add: to_mode_def outside_iff)

lemma to_mode_trans: "to_mode m s t \<Longrightarrow> to_mode n t u \<Longrightarrow> to_mode n s u"
  by (simp add: to_mode_def outside_iff)

lemma outside_ext': "outside s t \<Longrightarrow> outside s (ext c e t)"
  by (simp add: outside_iff)

lemma set_mode_spec:
  assumes "live s"
  shows "returns (set_mode mode entity detail report s) (to_mode mode s)"
proof -
  have "outside s (notify_system_handler m report s)" for m and s :: "'a fdir"
    by (simp add: notify_system_handler_def Let_def split: option.split)
  then have "keeps (set_mode mode entity detail report s) (to_mode mode s)"
    by (auto simp: set_mode_def to_mode_def outside_iff keeps_def split: bind_splits
        dest!: keepsD [OF emit_event_full_keeps])
  from returns_conj [OF set_mode_returns [OF assms] this] show ?thesis
    by (rule returns_mono) simp
qed

lemma enter_modes_spec:
  assumes "live s"
  shows "returns (enter_degraded_mode_unsafe s)
       (to_mode (if g_mode s = FDIR_MODE_NOMINAL then FDIR_MODE_DEGRADED else g_mode s) s)"
    and "returns (enter_safe_mode_unsafe s)
       (to_mode (if g_mode s = FDIR_MODE_REBOOT_PENDING then g_mode s else FDIR_MODE_SAFE) s)"
  using set_mode_spec [OF assms]
  by (simp_all add: enter_degraded_mode_unsafe_def enter_safe_mode_unsafe_def to_mode_same_mode)

definition threshold :: "'e fdir \<Rightarrow> nat" where
  "threshold s = unat (safe_mode_critical_failure_threshold (g_config s))"

definition dual_path_mode :: "'e fdir \<Rightarrow> fdir_mode" where
  "dual_path_mode s =
     (if card (critical_down (sb s)) \<ge> threshold s \<and> g_mode s \<noteq> FDIR_MODE_REBOOT_PENDING
      then FDIR_MODE_SAFE else g_mode s)"

lemma dual_path_spec:
  assumes "live s"
  shows "returns (evaluate_dual_path s) (to_mode (dual_path_mode s) s)"
proof -
  obtain n where n: "fdir_subsystems_critical_unavailable_count (sb s) = Some n" "unat n = card (critical_down (sb s))"
    using critical_count_card [OF liveD(6) [OF assms]] by (auto simp: returns_def)
  have "(n \<ge> safe_mode_critical_failure_threshold (g_config s)) = (card (critical_down (sb s)) \<ge> threshold s)"
    using n(2) by (simp add: threshold_def word_le_nat_alt)
  with n(1) enter_modes_spec(2) [OF assms] show ?thesis
    by (simp add: evaluate_dual_path_def fdir_internal_get_config_def dual_path_mode_def split: if_splits)
qed

lemma try_reboot_spec:
  assumes "live s"
  shows "returns (try_reboot_unsafe reason s) (\<lambda>s'. to_mode FDIR_MODE_REBOOT_PENDING s s' \<and>
     (\<exists>cs. calls s' = calls s @ cs @ [Call_reboot (case reason of None \<Rightarrow> ''reboot'' | Some r \<Rightarrow> r)]))"
proof -
  let ?why = "case reason of None \<Rightarrow> ''reboot'' | Some r \<Rightarrow> r"
  have "returns (set_mode FDIR_MODE_REBOOT_PENDING FDIR_ENTITY_NONE (Some ?why) None s)
      (\<lambda>t. to_mode FDIR_MODE_REBOOT_PENDING s t \<and> sys_step s t)"
    by (rule returns_conj [OF set_mode_spec [OF assms] keeps_mono [OF set_mode_sys]]) (auto simp: mode_ok_def)
  then show ?thesis
    unfolding try_reboot_unsafe_def Let_def
  proof (rule returns_bindI, elim conjE)
    fix t assume t: "to_mode FDIR_MODE_REBOOT_PENDING s t" "sys_step s t"
    have "live t" using sys_step_live [OF t(2) assms] .
    obtain cs where "calls t = calls s @ cs" using t(2) by (auto simp: sys_step_def)
    with reboot_returns [OF liveD(3,2) [OF \<open>live t\<close>], of ?why]
    show "returns (fdir_request_reboot ?why t) (\<lambda>s'. to_mode FDIR_MODE_REBOOT_PENDING s s' \<and>
       (\<exists>cs. calls s' = calls s @ cs @ [Call_reboot ?why]))"
      by (elim returns_mono) (use t(1) in \<open>auto simp: to_mode_def intro: outside_ext'\<close>)
  qed
qed


subsection \<open>Actions\<close>

lemma mark_linked_spec:
  assumes "live s"
  shows "returns (mark_linked_unavailable sub eid report s) (\<lambda>s'. outside (s\<lparr>sb := sb s'\<rparr>) s' \<and>
       (if sub = FDIR_SUBSYSTEM_NONE then s' = s
        else fdir_subsystem_mark_unavailable_unsafe sub (sb s) = Some (sb s')))"
    and "returns (mark_linked_degraded sub eid report s) (\<lambda>s'. outside (s\<lparr>sb := sb s'\<rparr>) s' \<and>
       (if sub = FDIR_SUBSYSTEM_NONE then s' = s
        else fdir_subsystem_mark_degraded_unsafe sub (sb s) = Some (sb s')))"
proof -
  have emit: "keeps (fdir_internal_emit_subsystem_state sub eid a b c d (s\<lparr>sb := t\<rparr>)) (\<lambda>s'. outside (s\<lparr>sb := t\<rparr>) s')" for a b c d t
    by (rule keeps_mono [OF emit_subsystem_state_keeps]) (auto simp: outside_iff)
  have "keeps (mark_linked_unavailable sub eid report s) (\<lambda>s'. outside (s\<lparr>sb := sb s'\<rparr>) s' \<and>
       (if sub = FDIR_SUBSYSTEM_NONE then s' = s
        else fdir_subsystem_mark_unavailable_unsafe sub (sb s) = Some (sb s')))"
    "keeps (mark_linked_degraded sub eid report s) (\<lambda>s'. outside (s\<lparr>sb := sb s'\<rparr>) s' \<and>
       (if sub = FDIR_SUBSYSTEM_NONE then s' = s
        else fdir_subsystem_mark_degraded_unsafe sub (sb s) = Some (sb s')))"
    by (auto simp: mark_linked_unavailable_def mark_linked_degraded_def keeps_def outside_iff
        split: bind_splits dest!: keepsD [OF emit])
  with mark_linked_returns [OF assms, of sub eid report]
  show "returns (mark_linked_unavailable sub eid report s) (\<lambda>s'. outside (s\<lparr>sb := sb s'\<rparr>) s' \<and>
       (if sub = FDIR_SUBSYSTEM_NONE then s' = s
        else fdir_subsystem_mark_unavailable_unsafe sub (sb s) = Some (sb s')))"
    "returns (mark_linked_degraded sub eid report s) (\<lambda>s'. outside (s\<lparr>sb := sb s'\<rparr>) s' \<and>
       (if sub = FDIR_SUBSYSTEM_NONE then s' = s
        else fdir_subsystem_mark_degraded_unsafe sub (sb s) = Some (sb s')))"
    by (auto simp: returns_def keeps_def)
qed

text \<open>The subsystem table after a recovery action that marks the linked subsystem.\<close>

definition linked_after ::
  "(fdir_subsystem_id \<Rightarrow> 'e subsystem_table \<Rightarrow> 'e subsystem_table option) \<Rightarrow> fdir_subsystem_id
     \<Rightarrow> 'e subsystem_table \<Rightarrow> 'e subsystem_table option" where
  "linked_after mark sub t = (if sub = FDIR_SUBSYSTEM_NONE then Some t else mark sub t)"

lemma linked_marks:
  assumes "live s"
  defines "R \<equiv> \<lambda>mark sub t. g_mode t = g_mode s \<and> g_config t = g_config s \<and> live t \<and>
      linked_after mark sub (sb s) = Some (sb t)"
  shows "returns (mark_linked_unavailable sub eid report s) (R fdir_subsystem_mark_unavailable_unsafe sub)"
    and "returns (mark_linked_degraded sub eid report s) (R fdir_subsystem_mark_degraded_unsafe sub)"
proof -
  show "returns (mark_linked_unavailable sub eid report s) (R fdir_subsystem_mark_unavailable_unsafe sub)"
    by (rule returns_mono [OF returns_conj [OF mark_linked_spec(1) [OF assms(1)] mark_linked_keeps]])
      (auto simp: R_def linked_after_def outside_iff split: if_splits intro: rec_step_live assms(1))
  show "returns (mark_linked_degraded sub eid report s) (R fdir_subsystem_mark_degraded_unsafe sub)"
    by (rule returns_mono [OF returns_conj [OF mark_linked_spec(2) [OF assms(1)] mark_linked_degraded_keeps]])
      (auto simp: R_def linked_after_def outside_iff split: if_splits intro: rec_step_live assms(1))
qed

text \<open>The mode after the UNAVAILABLE action, given the subsystem table it leaves.\<close>

definition unavailable_mode :: "'e fdir \<Rightarrow> 'e subsystem_table \<Rightarrow> fdir_mode" where
  "unavailable_mode s t =
     (if g_mode s = FDIR_MODE_REBOOT_PENDING then g_mode s
      else if card (critical_down t) \<ge> threshold s then FDIR_MODE_SAFE
      else if g_mode s = FDIR_MODE_NOMINAL then FDIR_MODE_DEGRADED else g_mode s)"

lemma degrade_then_dual_path:
  assumes "live t"
  shows "returns (Option.bind (enter_degraded_mode_unsafe t) evaluate_dual_path)
     (to_mode (unavailable_mode t (sb t)) t)"
proof (rule returns_bindI [OF returns_conj [OF enter_modes_spec(1) [OF assms] enter_degraded_keeps]], elim conjE)
  fix u assume u: "to_mode (if g_mode t = FDIR_MODE_NOMINAL then FDIR_MODE_DEGRADED else g_mode t) t u" "rec_step t u"
  show "returns (evaluate_dual_path u) (to_mode (unavailable_mode t (sb t)) t)"
    using to_modeD [OF u(1)] to_mode_trans [OF u(1)]
    by (intro returns_mono [OF dual_path_spec [OF rec_step_live [OF u(2) assms]]])
      (auto simp: dual_path_mode_def unavailable_mode_def threshold_def split: if_splits)
qed

lemma marked_actions:
  assumes "live s"
  defines "down \<equiv> \<lambda>sub s'. linked_after fdir_subsystem_mark_unavailable_unsafe sub (sb s) = Some (sb s')"
  shows "returns (Option.bind (mark_linked_degraded sub eid report s) enter_degraded_mode_unsafe)
      (\<lambda>s'. linked_after fdir_subsystem_mark_degraded_unsafe sub (sb s) = Some (sb s') \<and>
         g_mode s' = (if g_mode s = FDIR_MODE_NOMINAL then FDIR_MODE_DEGRADED else g_mode s))"
    and "returns (Option.bind (mark_linked_unavailable sub eid report s)
        (\<lambda>t. Option.bind (enter_degraded_mode_unsafe t) evaluate_dual_path))
      (\<lambda>s'. down sub s' \<and> g_mode s' = unavailable_mode s (sb s'))"
    and "returns (Option.bind (mark_linked_unavailable sub eid report s) enter_safe_mode_unsafe)
      (\<lambda>s'. down sub s' \<and>
         g_mode s' = (if g_mode s = FDIR_MODE_REBOOT_PENDING then g_mode s else FDIR_MODE_SAFE))"
    and "returns (Option.bind (mark_linked_unavailable sub eid report s) (try_reboot_unsafe (Some why)))
      (\<lambda>s'. down sub s' \<and> g_mode s' = FDIR_MODE_REBOOT_PENDING \<and> last (calls s') = Call_reboot why)"
  unfolding down_def
  subgoal
    by (rule returns_bindI [OF linked_marks(2) [OF assms(1)]], elim conjE, rule returns_mono [OF enter_modes_spec(1)])
      (simp_all add: to_modeD(1) to_modeD(2))
  subgoal
    by (rule returns_bindI [OF linked_marks(1) [OF assms(1)]], elim conjE, rule returns_mono [OF degrade_then_dual_path])
      (simp_all add: to_modeD(1) to_modeD(2) threshold_def unavailable_mode_def)
  subgoal
    by (rule returns_bindI [OF linked_marks(1) [OF assms(1)]], elim conjE, rule returns_mono [OF enter_modes_spec(2)])
      (simp_all add: to_modeD(1) to_modeD(2))
  subgoal
    by (rule returns_bindI [OF linked_marks(1) [OF assms(1)]], elim conjE, rule returns_mono [OF try_reboot_spec])
      (auto simp: to_modeD(1) to_modeD(2))
  done

text \<open>What an action other than RESTART does.\<close>

definition action_outcome ::
  "fdir_subsystem_id \<Rightarrow> fdir_action \<Rightarrow> fdir_failure_report \<Rightarrow> 'e fdir \<Rightarrow> 'e fdir \<Rightarrow> bool" where
  "action_outcome sub action report s s' \<longleftrightarrow>
     (case action of
       FDIR_ACTION_DEGRADE \<Rightarrow>
         linked_after fdir_subsystem_mark_degraded_unsafe sub (sb s) = Some (sb s') \<and>
         g_mode s' = (if g_mode s = FDIR_MODE_NOMINAL then FDIR_MODE_DEGRADED else g_mode s)
     | FDIR_ACTION_UNAVAILABLE \<Rightarrow>
         linked_after fdir_subsystem_mark_unavailable_unsafe sub (sb s) = Some (sb s') \<and>
         g_mode s' = unavailable_mode s (sb s')
     | FDIR_ACTION_SAFE \<Rightarrow>
         linked_after fdir_subsystem_mark_unavailable_unsafe sub (sb s) = Some (sb s') \<and>
         g_mode s' = (if g_mode s = FDIR_MODE_REBOOT_PENDING then g_mode s else FDIR_MODE_SAFE)
     | FDIR_ACTION_REBOOT \<Rightarrow>
         linked_after fdir_subsystem_mark_unavailable_unsafe sub (sb s) = Some (sb s') \<and>
         g_mode s' = FDIR_MODE_REBOOT_PENDING \<and>
         last (calls s') = Call_reboot
           (if cstr (rep_detail report) \<noteq> [] then cstr (rep_detail report) else ''fdir_reboot'')
     | _ \<Rightarrow> s' = s)"

lemma other_action:
  assumes "live s" "registered eid s" "action \<noteq> FDIR_ACTION_RESTART"
  defines "sub \<equiv> ed_linked_subsystem (es_desc (g_entities s ! unat eid))"
  shows "returns (apply_action eid action report s) (action_outcome sub action report s)"
proof -
  note ix = registered_index [OF liveD(1) [OF assms(1)] assms(2)]
  note actions = marked_actions [OF assms(1), of sub eid report]
  show ?thesis
  proof (cases action)
    case FDIR_ACTION_DEGRADE
    with ix actions(1) show ?thesis
      unfolding action_outcome_def by (subst apply_action.simps) (simp add: sub_def [symmetric])
  next
    case FDIR_ACTION_UNAVAILABLE
    with ix actions(2) show ?thesis
      unfolding action_outcome_def by (subst apply_action.simps) (simp add: sub_def [symmetric])
  next
    case FDIR_ACTION_SAFE
    with ix actions(3) show ?thesis
      unfolding action_outcome_def by (subst apply_action.simps) (simp add: sub_def [symmetric])
  next
    case FDIR_ACTION_REBOOT
    with ix actions(4) show ?thesis
      unfolding action_outcome_def by (subst apply_action.simps) (simp add: sub_def [symmetric] split del: if_split)
  qed (use ix assms(3) in \<open>subst apply_action.simps, simp add: action_outcome_def\<close>)+
qed

text \<open>RESTART is an attempt, and the entity's exhaustion policy if it fails.\<close>

lemma restart_action:
  assumes "live s" "registered eid s" "try_restart eid (rep_reason report) s = Some (status, t)"
    "ed_on_exhausted (es_desc (g_entities t ! unat eid)) = policy"
    "ed_linked_subsystem (es_desc (g_entities t ! unat eid)) = sub"
  shows "if status = FDIR_OK then apply_action eid FDIR_ACTION_RESTART report s = Some t
     else returns (apply_action eid FDIR_ACTION_RESTART report s) (action_outcome sub policy report t)"
proof -
  note ix = registered_index [OF liveD(1) [OF assms(1)] assms(2)]
  have "rec_step s t" using keepsD [OF try_restart_keeps assms(3)] by simp
  then have t: "live t" "registered eid t" using assms(1,2) rec_step_live rec_step_registered by blast+
  have "policy \<noteq> FDIR_ACTION_RESTART" using registered_slot(2) [OF liveD(1) [OF t(1)] t(2)] assms(4) by simp
  with other_action [OF t this] registered_index [OF liveD(1) [OF t(1)] t(2)] ix assms(3-5) show ?thesis
    by (subst (1 2) apply_action.simps [of eid FDIR_ACTION_RESTART]) (simp add: Let_def)
qed

text \<open>
  C15. The recovery actions do what their names say, on every branch. NONE and unknown values change
  nothing. DEGRADE marks the linked subsystem degraded and leaves NOMINAL for DEGRADED. UNAVAILABLE
  takes the linked subsystem out of service, leaves NOMINAL and goes to SAFE if the threshold of
  unavailable critical subsystems is reached. SAFE takes it out of service and enters SAFE unless a
  reboot is pending. REBOOT takes it out of service, enters REBOOT_PENDING and, last of all, requests
  the reboot with the detail of the report, or \<open>fdir_reboot\<close> if that is empty. RESTART calls the entity's
  restart hook once and counts the attempt; if the hook succeeds, the entity is healthy and unlatched, the
  mode is unchanged and the events of a restart go out; if it fails, the entity's exhaustion policy is
  carried out as one of the other actions, and so it is, without a call, if the entity has no hook.
\<close>

theorem action_spec:
  assumes "live s" "registered eid s"
  defines "desc \<equiv> es_desc (g_entities s ! unat eid)"
  shows "returns (apply_action eid action report s) (\<lambda>s'.
     if action \<noteq> FDIR_ACTION_RESTART
     then action_outcome (ed_linked_subsystem desc) action report s s'
     else case ed_restart desc of
       None \<Rightarrow> action_outcome (ed_linked_subsystem desc) (ed_on_exhausted desc) report s s'
     | Some f \<Rightarrow>
         (case f eid (ed_user desc) (env s) of
            (rc, e) \<Rightarrow>
              if rc \<noteq> 0
              then action_outcome (ed_linked_subsystem desc) (ed_on_exhausted desc) report
                     (ext (Call_restart eid (ed_user desc) rc) e (s\<lparr>g_entities := bumped eid (rep_reason report) s\<rparr>)) s'
              else g_entities s' = bumped eid (rep_reason report) s \<and> unlatched_ok eid s' \<and> g_mode s' = g_mode s \<and>
                   (\<exists>cs. since s s' = Call_restart eid (ed_user desc) 0 # cs \<and> restarts eid cs = 0 \<and>
                      restart_events eid (latched_reason eid (hl s)) (rep_reason report) (g_mode s) (emitted cs))))"
proof (cases "action = FDIR_ACTION_RESTART")
  case False
  with other_action [OF assms(1,2) False] show ?thesis by (simp add: desc_def)
next
  case True
  note ix = registered_index [OF liveD(1) [OF assms(1)] assms(2)]
  show ?thesis
    using assms(1,2)
  proof (cases rule: try_restart_cases [of s eid "rep_reason report"])
    case no_callback
    from restart_action [OF assms(1,2) this(2) refl refl] no_callback(1) True show ?thesis by (simp add: desc_def)
  next
    case (refused f rc e)
    have "es_desc (bumped eid (rep_reason report) s ! unat eid) = desc" using ix by (simp add: bumped_def desc_def)
    with restart_action [OF assms(1,2) refused(4) refl refl] refused(1-3) True show ?thesis by (simp add: desc_def)
  next
    case (ok f e s' cs)
    from restart_action [OF assms(1,2) ok(3) refl refl] ok True show ?thesis
      by (simp add: desc_def since_append)
  qed
qed

text \<open>A restart that the hook refuses, and the entity's policy UNAVAILABLE.\<close>

theorem action_spec_witness:
  "live demo_stuck \<and> registered 0 demo_stuck \<and>
   returns (apply_action 0 FDIR_ACTION_RESTART demo_report demo_stuck)
     (\<lambda>s'. linked_after fdir_subsystem_mark_unavailable_unsafe 0 (sb demo_stuck) = Some (sb s'))"
proof -
  have "returns (apply_action 0 FDIR_ACTION_RESTART demo_report demo_stuck)
      (\<lambda>s'. linked_after fdir_subsystem_mark_unavailable_unsafe 0 (sb demo_stuck) = Some (sb s'))"
    by (rule returns_mono [OF action_spec [OF demo_live [of 1] demo_registered]])
      (simp add: demo_slot_def demo_desc_def action_outcome_def)
  with demo_live show ?thesis by simp
qed


text \<open>
  A restart attempt calls the entity's restart callback exactly once and counts it, whatever it
  answers. If it fails, nothing else changes. If it succeeds, the latch is cleared and the health
  reset, and two events go out: CLEARED for the fault that was latched, if there was one, and then
  RESTART. An entity without a callback is left as it is.
\<close>

theorem restart_attempt_spec:
  assumes "live s" "registered eid s"
  shows "returns (try_restart eid reason s) (\<lambda>(status, s').
     let slot = g_entities s ! unat eid; u = ed_user (es_desc slot) in
     case ed_restart (es_desc slot) of
       None \<Rightarrow> status = FDIR_ERR_PORT \<and> s' = s
     | Some f \<Rightarrow>
         g_entities s' = bumped eid reason s \<and>
         (case f eid u (env s) of
            (rc, e) \<Rightarrow>
              if rc \<noteq> 0
              then status = FDIR_ERR_STATE \<and> hl s' = hl s \<and> since s s' = [Call_restart eid u rc]
              else status = FDIR_OK \<and> unlatched_ok eid s' \<and>
                   (\<exists>cs. since s s' = Call_restart eid u 0 # cs \<and> restarts eid cs = 0 \<and>
                      restart_events eid (latched_reason eid (hl s)) reason (g_mode s) (emitted cs))))"
  using assms
proof (cases rule: try_restart_cases [of s eid reason])
  case (ok f e s' cs)
  then show ?thesis by (simp add: Let_def since_append)
qed (auto simp: Let_def since_def)

theorem restart_attempt_spec_witness:
  "live demo \<and> registered 0 demo \<and>
   returns (try_restart 0 FDIR_REASON_IO_ERROR demo) (\<lambda>(status, s'). status = FDIR_OK \<and> unlatched_ok 0 s')"
proof -
  have "ed_restart (es_desc (g_entities demo ! 0)) = Some (\<lambda>_ _ e. (0, e))"
    by (simp add: demo_slot_def demo_desc_def)
  then show ?thesis
    using demo_live [of 0] returns_mono [OF restart_attempt_spec [OF demo_live [of 0] demo_registered, of FDIR_REASON_IO_ERROR],
      of "\<lambda>(status, s'). status = FDIR_OK \<and> unlatched_ok 0 s'"] by (auto simp: Let_def)
qed


subsection \<open>Handling a report\<close>

definition only_locks :: "ext_call list \<Rightarrow> bool" where
  "only_locks cs \<longleftrightarrow> set cs \<subseteq> {Call_lock, Call_unlock}"

lemma only_locks_section: "only_locks (since s (fdir_port_sync_exit (fdir_port_sync_enter s)))"
  by (auto simp: only_locks_def since_def calls_sync_enter calls_sync_exit)

lemma only_locks_handling: "only_locks (since s (fdir_port_sync_exit (handling s)))"
  by (auto simp: only_locks_def since_def handling_def calls_sync_enter calls_sync_exit)

lemma raise_event_cases:
  assumes "live s"
  obtains s' t ev where "raise_event r s = Some s'" "outside s s'"
    "calls s' = calls s @ [Call_now t, Call_emit ev]"
    "entity_event (if rep_reason r = FDIR_REASON_WATCHDOG then FDIR_EVENT_WATCHDOG else FDIR_EVENT_FAILURE)
       (g_mode s) (rep_entity r) (rep_reason r) FDIR_ANOMALY_RAISED ev"
    "ev_error_code ev = rep_error_code r" "cstr (ev_detail ev) = take 31 (cstr (rep_detail r))"
  unfolding raise_event_def
  by (rule emit_entity_event [OF assms, of _ _ "rep_entity r" "rep_reason r" "rep_error_code r"
        FDIR_ANOMALY_RAISED "Some (cstr (rep_detail r))"])
    (rule that, auto simp: raise_event_def)

text \<open>Handling one report, by cases: inhibited, repeated, unknown entity, recovery.\<close>

lemma handle_failure_cases:
  assumes "live s"
  obtains
    (inhibited) "g_supervision_enabled s = 0"
      "fdir_handle_failure (Some r) s = Some (fdir_port_sync_exit (fdir_port_sync_enter s))"
  | (repeated) "g_supervision_enabled s \<noteq> 0" "latched (rep_entity r) (rep_reason r) (hl s)"
      "fdir_handle_failure (Some r) s = Some (fdir_port_sync_exit (handling s))"
  | (handled) t u tm ev where "g_supervision_enabled s \<noteq> 0" "\<not> latched (rep_entity r) (rep_reason r) (hl s)"
      "outside (handling s) t" "live t" "calls t = calls (handling s) @ [Call_now tm, Call_emit ev]"
      "entity_event (if rep_reason r = FDIR_REASON_WATCHDOG then FDIR_EVENT_WATCHDOG else FDIR_EVENT_FAILURE)
         (g_mode s) (rep_entity r) (rep_reason r) FDIR_ANOMALY_RAISED ev"
      "(if registered (rep_entity r) s then recover_entity r t else enter_degraded_mode_unsafe t) = Some u"
      "rec_step t u" "fdir_handle_failure (Some r) s = Some (fdir_port_sync_exit u)"
proof -
  note eq = handle_failure_eq [OF liveD(1) [OF assms], of r]
  consider "g_supervision_enabled s = 0"
    | "g_supervision_enabled s \<noteq> 0" "latched (rep_entity r) (rep_reason r) (hl s)"
    | "g_supervision_enabled s \<noteq> 0" "\<not> latched (rep_entity r) (rep_reason r) (hl s)" by blast
  then show ?thesis
  proof cases
    case 3
    have live: "live (handling s)" using assms by simp
    obtain t tm ev where t: "raise_event r (handling s) = Some t" "outside (handling s) t"
      "calls t = calls (handling s) @ [Call_now tm, Call_emit ev]"
      "entity_event (if rep_reason r = FDIR_REASON_WATCHDOG then FDIR_EVENT_WATCHDOG else FDIR_EVENT_FAILURE)
         (g_mode (handling s)) (rep_entity r) (rep_reason r) FDIR_ANOMALY_RAISED ev"
      "ev_error_code ev = rep_error_code r" "cstr (ev_detail ev) = take 31 (cstr (rep_detail r))"
      by (rule raise_event_cases [OF live])
    have lt: "live t" by (rule outside_live [OF t(2) live])
    have reg: "registered (rep_entity r) t = registered (rep_entity r) s"
      using t(2) by (simp add: registered_def outside_iff)
    obtain u where u: "(if registered (rep_entity r) s then recover_entity r t else enter_degraded_mode_unsafe t) = Some u"
      using recover_entity_returns [OF lt, of r] enter_modes_return(1) [OF lt] reg by (auto simp: returns_def)
    then have step: "rec_step t u"
      using keepsD [OF recover_entity_keeps] keepsD [OF enter_degraded_keeps] by (auto split: if_splits)
    show ?thesis
      by (rule that(3) [OF 3 t(2) lt t(3) _ u step]) (use t(4) eq 3 t(1) u reg in \<open>simp_all split: if_splits\<close>)
  qed (use eq that(1,2) in simp_all)
qed

text \<open>
  C12. A fault that is latched already is suppressed: handling the report again changes no variable of
  the library and makes no call but those to the lock, so it raises no event, consults no policy and
  restarts nothing. The same holds for every report while supervision is disabled.
\<close>

theorem repeated_fault_suppressed:
  assumes "live s" "g_supervision_enabled s = 0 \<or> latched (rep_entity r) (rep_reason r) (hl s)"
  shows "returns (fdir_handle_failure (Some r) s) (\<lambda>s'. outside s s' \<and> only_locks (since s s'))"
  using assms(1)
proof (cases rule: handle_failure_cases [of s r])
  case inhibited
  then show ?thesis using only_locks_section by (auto intro: outside_trans)
next
  case repeated
  then show ?thesis
    using only_locks_handling [of s] outside_trans [OF outside_handling outside_exit] by simp
next
  case handled
  with assms(2) show ?thesis by simp
qed

text \<open>The demo application with its entity's fault latched, while supervision is on.\<close>

theorem repeated_fault_suppressed_witness:
  "\<exists>s :: nat fdir. live s \<and> g_supervision_enabled s \<noteq> 0 \<and> latched 0 FDIR_REASON_IO_ERROR (hl s) \<and>
     returns (fdir_handle_failure (Some demo_report) s) (\<lambda>s'. outside s s' \<and> only_locks (since s s'))"
proof -
  let ?h = "(hl demo)\<lparr>g_fault_latched := (g_fault_latched (hl demo))[0 := 1],
      g_latched_reason := (g_latched_reason (hl demo))[0 := FDIR_REASON_IO_ERROR]\<rparr>"
  let ?s = "demo\<lparr>hl := ?h\<rparr>"
  have inv: "health_inv (hl demo)" by (rule liveD(5) [OF demo_live])
  then have "health_inv ?h" by (simp add: health_inv_def)
  then have live: "live ?s"
    using demo_live [of 0] by (simp add: live_def fdir_inv_def port_inv_def ents_inv_def)
  have "latched 0 FDIR_REASON_IO_ERROR (hl ?s)"
    using inv by (simp add: latched_def tracked_def health_inv_def) (simp add: demo_state_def)
  with live repeated_fault_suppressed [OF live, of demo_report] show ?thesis
    by (intro exI [of _ ?s]) simp
qed

text \<open>
  C4. Handling a new report of a registered entity leaves one of two situations: its failure stands,
  marked FAILED and latched for that reason, or it was restarted successfully, healthy again with no
  fault latched. The first event is the RAISED event for the report. The entity was restarted at most
  once; no other entity's health, latch, restart counter or descriptor changed.
\<close>

theorem handle_failure_outcome:
  assumes "live s" "g_supervision_enabled s \<noteq> 0" "registered (rep_entity r) s"
    "\<not> latched (rep_entity r) (rep_reason r) (hl s)"
  shows "returns (fdir_handle_failure (Some r) s) (\<lambda>s'.
     (stands_failed (rep_entity r) (rep_reason r) s' \<or> unlatched_ok (rep_entity r) s') \<and>
     others_same (rep_entity r) (hl s) (hl s') \<and>
     (g_entities s' = g_entities s \<or> g_entities s' = bumped (rep_entity r) (rep_reason r) s) \<and>
     (\<exists>ev evs. emitted (since s s') = ev # evs \<and>
        entity_event (if rep_reason r = FDIR_REASON_WATCHDOG then FDIR_EVENT_WATCHDOG else FDIR_EVENT_FAILURE)
          (g_mode s) (rep_entity r) (rep_reason r) FDIR_ANOMALY_RAISED ev))"
  using assms(1)
proof (cases rule: handle_failure_cases [of s r])
  case (handled t u tm ev)
  have rec: "recover_entity r t = Some u" and reg: "registered (rep_entity r) t"
    using handled(3,7) assms(3) by (simp_all add: registered_def outside_iff)
  have same: "hl t = hl s" "g_entities t = g_entities s" using handled(3) by (simp_all add: outside_iff)
  obtain cs where "calls u = calls t @ cs" using handled(8) by (auto simp: rec_step_def sys_step_def)
  then have "\<exists>evs. emitted (since s (fdir_port_sync_exit u)) = ev # evs"
    using handled(5) by (auto simp: since_def handling_def calls_sync_enter calls_sync_exit)
  then show ?thesis
    unfolding handled(9) using recover_entity_effect [OF handled(4) reg rec] handled(6) same
    by (auto simp: stands_failed_def unlatched_ok_def bumped_def)
qed (use assms in auto)

theorem handle_failure_outcome_witness:
  "live demo_stuck \<and> registered 0 demo_stuck \<and>
   returns (fdir_handle_failure (Some demo_report) demo_stuck) (\<lambda>s'.
     stands_failed 0 FDIR_REASON_IO_ERROR s' \<or> unlatched_ok 0 s')"
  using demo_live returns_mono [OF handle_failure_outcome [OF demo_live [of 1], of demo_report],
      of "\<lambda>s'. stands_failed 0 FDIR_REASON_IO_ERROR s' \<or> unlatched_ok 0 s'"] by simp

text \<open>
  C10. The SAFE threshold cannot be missed: after a new failure of a registered entity is handled, the
  system is in SAFE mode or has a reboot pending whenever the number of unavailable critical-path
  subsystems has reached the configured threshold, whatever action was taken and whoever took the
  subsystems out of service.
\<close>

theorem handle_failure_dual_path:
  assumes "live s" "g_supervision_enabled s \<noteq> 0" "registered (rep_entity r) s"
    "\<not> latched (rep_entity r) (rep_reason r) (hl s)"
  shows "returns (fdir_handle_failure (Some r) s) (\<lambda>s'.
     card (critical_down (sb s')) \<ge> threshold s \<longrightarrow> FDIR_MODE_SAFE \<le> g_mode s')"
  using assms(1)
proof (cases rule: handle_failure_cases [of s r])
  case (handled t u tm ev)
  have rec: "recover_entity r t = Some u"
    using handled(7) assms(3) by simp
  obtain v where v: "rec_step t v" "evaluate_dual_path v = Some u"
    by (rule recover_entity_last [OF rec])
  have "live v" by (rule rec_step_live [OF v(1) handled(4)])
  from returnsD [OF dual_path_spec [OF this] v(2)] have m: "to_mode (dual_path_mode v) v u" .
  have "g_config v = g_config s"
    using rec_step_frame(3) [OF v(1)] handled(3) by (simp add: outside_iff)
  then show ?thesis
    unfolding handled(9) using to_modeD [OF m] fdir_mode_order
    by (auto simp: dual_path_mode_def threshold_def fdir_mode_order)
qed (use assms in auto)

theorem handle_failure_dual_path_witness:
  "live demo_stuck \<and> registered 0 demo_stuck \<and>
   returns (fdir_handle_failure (Some demo_report) demo_stuck) (\<lambda>s'.
     card (critical_down (sb s')) \<ge> threshold demo_stuck \<and> FDIR_MODE_SAFE \<le> g_mode s')"
proof -
  have count: "map_option (\<lambda>s'. fdir_subsystems_critical_unavailable_count (sb s'))
      (fdir_handle_failure (Some demo_report) demo_stuck) = Some (Some 1)" by code_simp
  have thr: "threshold demo_stuck = 1" by (simp add: threshold_def demo_state_def fdir_config_default_def)
  obtain s' where s': "fdir_handle_failure (Some demo_report) demo_stuck = Some s'"
    using handle_failure_returns [OF demo_live] by (metis returnsE)
  have "fdir_inv s'"
    using api_step_frame(4) [of True demo_stuck s'] keepsD [OF handle_failure_keeps [OF liveD(1) [OF demo_live]] s']
      liveD(1) [OF demo_live] by blast
  from critical_count_card [OF fdir_invD(4) [OF this]] count s' have "card (critical_down (sb s')) = 1"
    by (auto simp: returns_def)
  then show ?thesis
    using handle_failure_dual_path [OF demo_live [of 1], of demo_report] demo_live [of 1] s' thr by simp
qed

end
