(* ===== verification/Watchdog.thy ===== *)
theory Watchdog
  imports Fdir_System Handling
begin

text \<open>
  The watchdog scan: it raises a WATCHDOG event for exactly the entities whose heartbeat is overdue when
  it starts, one for each, in the order of their ids, and handles them; it leaves the records of all
  others alone, although each round runs a complete recovery with the lock released in between.
\<close>

definition same_entry :: "fdir_entity_id \<Rightarrow> health_table \<Rightarrow> health_table \<Rightarrow> bool" where
  "same_entry i h h' \<longleftrightarrow>
     g_health h' ! unat i = g_health h ! unat i \<and> g_fault_latched h' ! unat i = g_fault_latched h ! unat i \<and>
     g_latched_reason h' ! unat i = g_latched_reason h ! unat i"

lemma same_entry_refl [simp]: "same_entry i h h"
  by (simp add: same_entry_def)

lemma same_entry_trans: "same_entry i h h' \<Longrightarrow> same_entry i h' h'' \<Longrightarrow> same_entry i h h''"
  by (simp add: same_entry_def)

lemma others_same_entry: "others_same e h h' \<Longrightarrow> i \<noteq> e \<Longrightarrow> same_entry i h h'"
  by (simp add: others_same_def same_entry_def word_unat_eq_iff)

lemma tally_sync [simp]:
  "watchdogs (calls (fdir_port_sync_enter s)) = watchdogs (calls s)" "watchdogs (calls (fdir_port_sync_exit s)) = watchdogs (calls s)"
  "restarts i (calls (fdir_port_sync_enter s)) = restarts i (calls s)" "restarts i (calls (fdir_port_sync_exit s)) = restarts i (calls s)"
  by (simp_all add: calls_sync_enter calls_sync_exit)

text \<open>A failure that has been dealt with: the entity restarted once between the two states, or standing failed.\<close>

definition dealt_with :: "fdir_entity_id \<Rightarrow> fdir_reason \<Rightarrow> 'e fdir \<Rightarrow> 'e fdir \<Rightarrow> bool" where
  "dealt_with i reason s s' \<longleftrightarrow> stands_failed i reason s' \<or>
     unlatched_ok i s' \<and> restarts i (calls s') = Suc (restarts i (calls s))"

text \<open>Handling the failure of one entity.\<close>

lemma handle_failure_effect:
  assumes "live s" "g_supervision_enabled s \<noteq> 0" "registered (rep_entity r) s"
    "\<not> latched (rep_entity r) (rep_reason r) (hl s)" "fdir_handle_failure (Some r) s = Some s'"
  shows "live s'" "g_supervision_enabled s' = g_supervision_enabled s" "g_entity_count s' = g_entity_count s"
    "others_same (rep_entity r) (hl s) (hl s')" "dealt_with (rep_entity r) (rep_reason r) s s'"
    "watchdogs (calls s') = watchdogs (calls s) @ (if rep_reason r = FDIR_REASON_WATCHDOG then [rep_entity r] else [])"
    "i \<noteq> rep_entity r \<Longrightarrow> restarts i (calls s') = restarts i (calls s)"
proof -
  from keepsD [OF handle_failure_keeps [OF liveD(1) [OF assms(1)]] assms(5)]
  show "live s'" "g_supervision_enabled s' = g_supervision_enabled s" "g_entity_count s' = g_entity_count s"
    using api_step_live assms(1) by blast+
  have eff: "others_same (rep_entity r) (hl s) (hl s') \<and> dealt_with (rep_entity r) (rep_reason r) s s' \<and>
    watchdogs (calls s') = watchdogs (calls s) @ (if rep_reason r = FDIR_REASON_WATCHDOG then [rep_entity r] else []) \<and>
    (\<forall>i. i \<noteq> rep_entity r \<longrightarrow> restarts i (calls s') = restarts i (calls s))"
    using assms(1)
  proof (cases rule: handle_failure_cases [of s r])
    case (handled t u tm ev)
    have rec: "recover_entity r t = Some u" and reg: "registered (rep_entity r) t"
      using handled(3,7) assms(3) by (simp_all add: registered_def outside_iff)
    have t: "watchdogs (calls t) = watchdogs (calls s) @ (if rep_reason r = FDIR_REASON_WATCHDOG then [rep_entity r] else [])"
      "restarts i (calls t) = restarts i (calls s)" for i
      using handled(5,6) by (simp_all add: handling_def entity_event_def)
    from recover_entity_effect [OF handled(4) reg rec] show ?thesis
      using handled(3,9) assms(5) t by (auto simp: outside_iff dealt_with_def stands_failed_def unlatched_ok_def)
  qed (use assms in auto)
  then show "others_same (rep_entity r) (hl s) (hl s')" "dealt_with (rep_entity r) (rep_reason r) s s'"
    "watchdogs (calls s') = watchdogs (calls s) @ (if rep_reason r = FDIR_REASON_WATCHDOG then [rep_entity r] else [])"
    "i \<noteq> rep_entity r \<Longrightarrow> restarts i (calls s') = restarts i (calls s)" by auto
qed

text \<open>An entity that is left alone: its record, its latch, and no restart.\<close>

definition left_alone :: "fdir_entity_id \<Rightarrow> 'e fdir \<Rightarrow> 'e fdir \<Rightarrow> bool" where
  "left_alone i s s' \<longleftrightarrow> same_entry i (hl s) (hl s') \<and> g_entity_limit (hl s') = g_entity_limit (hl s) \<and>
     restarts i (calls s') = restarts i (calls s)"

interpretation left_alone: two_state "left_alone i" for i
  by unfold_locales (auto simp: left_alone_def intro: same_entry_trans)

lemma left_alone_facts:
  assumes "left_alone i s t"
  shows "overdue i now age t = overdue i now age s"
    "dealt_with i reason t u \<Longrightarrow> dealt_with i reason s u" "dealt_with i reason u s \<Longrightarrow> dealt_with i reason u t"
  using assms
  by (auto simp: left_alone_def same_entry_def overdue_def dealt_with_def stands_failed_def unlatched_ok_def latched_def
      failed_def tracked_def)

text \<open>What the scan leaves of an entity: dealt with or standing failed if it was overdue, left alone if not.\<close>

definition scanned :: "fdir_entity_id \<Rightarrow> u32 \<Rightarrow> u32 \<Rightarrow> 'e fdir \<Rightarrow> 'e fdir \<Rightarrow> bool" where
  "scanned i now age s s' \<longleftrightarrow>
     (if overdue i now age s then dealt_with i FDIR_REASON_WATCHDOG s s' else left_alone i s s')"

text \<open>The part of the scan from the entity \<open>eid\<close> on.\<close>

definition scanned_from :: "fdir_entity_id \<Rightarrow> fdir_entity_id \<Rightarrow> u32 \<Rightarrow> u32 \<Rightarrow> 'e fdir \<Rightarrow> 'e fdir \<Rightarrow> bool" where
  "scanned_from eid i now age s s' \<longleftrightarrow> (if i < eid then left_alone i s s' else scanned i now age s s')"

lemma scanned_enter [simp]:
  "scanned i now age (fdir_port_sync_enter s) s' = scanned i now age s s'"
  "scanned_from eid i now age (fdir_port_sync_enter s) s' = scanned_from eid i now age s s'"
  by (simp_all add: scanned_from_def scanned_def overdue_def dealt_with_def left_alone_def)

lemma less_next: "registered eid s \<Longrightarrow> i < eid + 1 \<longleftrightarrow> i < eid \<or> i = eid"
  by (auto simp: registered_def word_less_nat_alt unat_inc word_unat_eq_iff)

lemma scanned_from_skip:
  assumes "registered eid s" "\<not> overdue eid now age s" "scanned_from (eid + 1) i now age s s'"
  shows "scanned_from eid i now age s s'"
  using assms by (auto simp: scanned_from_def scanned_def less_next [OF assms(1)] split: if_splits)

lemma scanned_from_handled:
  assumes "registered eid s" "overdue eid now age s" "\<And>i. i \<noteq> eid \<Longrightarrow> left_alone i s t"
    "dealt_with eid FDIR_REASON_WATCHDOG s t" "scanned_from (eid + 1) i now age t s'"
  shows "scanned_from eid i now age s s'"
proof (cases "i = eid")
  case True
  with assms(5) have "left_alone eid t s'" by (simp add: scanned_from_def less_next [OF assms(1)])
  with left_alone_facts(3) [OF this assms(4)] assms(2) True show ?thesis by (simp add: scanned_from_def scanned_def)
next
  case False
  note u = assms(3) [OF False]
  from assms(5) False left_alone_facts(1,2) [OF u] left_alone.trans [OF u] show ?thesis
    by (auto simp: scanned_from_def scanned_def less_next [OF assms(1)] split: if_splits)
qed

text \<open>The registered entities from \<open>eid\<close> on.\<close>

definition ids_from :: "fdir_entity_id \<Rightarrow> 'e fdir \<Rightarrow> fdir_entity_id list" where
  "ids_from eid s = map of_nat [unat eid..<unat (g_entity_count s)]"

lemma ids_from_Cons: "registered eid s \<Longrightarrow> ids_from eid s = eid # ids_from (eid + 1) s"
  by (auto simp: ids_from_def registered_def word_less_nat_alt upt_conv_Cons unat_inc)

lemma ids_from_end: "\<not> registered eid s \<Longrightarrow> ids_from eid s = []"
  by (simp add: ids_from_def registered_def word_less_nat_alt)

lemma in_ids_from: "registered eid s \<Longrightarrow> i \<in> set (ids_from (eid + 1) s) \<Longrightarrow> i \<noteq> eid"
  using unsigned_less [of "g_entity_count s", where 'a = nat]
  by (auto simp: ids_from_def registered_def word_less_nat_alt unat_inc unat_of_nat)

text \<open>One round of the scan that handles an entity.\<close>

lemma watchdog_round:
  assumes "live s" "g_supervision_enabled s \<noteq> 0" "registered eid s" "overdue eid now age s"
    "watchdog_loop eid now age s = Some s'"
  obtains t where "live t" "g_supervision_enabled t \<noteq> 0" "g_entity_count t = g_entity_count s"
    "watchdog_loop (eid + 1) now age (fdir_port_sync_enter t) = Some s'"
    "dealt_with eid FDIR_REASON_WATCHDOG s t" "\<And>i. i \<noteq> eid \<Longrightarrow> left_alone i s t"
    "watchdogs (calls t) = watchdogs (calls s) @ [eid]"
proof -
  obtain d where r: "watchdog_report eid now = Some \<lparr>rep_entity = eid, rep_reason = FDIR_REASON_WATCHDOG,
      rep_error_code = 0, rep_detail = d, rep_timestamp_ms = now, rep_flags = FDIR_FAULT_FLAG_CRITICAL\<rparr>"
    (is "_ = Some ?r") using watchdog_report_eq by metis
  obtain t where t: "fdir_handle_failure (Some ?r) (fdir_port_sync_exit s) = Some t"
    "watchdog_loop (eid + 1) now age (fdir_port_sync_enter t) = Some s'"
    using assms(5) by (auto simp: watchdog_loop_handle [OF liveD(1) [OF assms(1)] assms(3,4) r] split: bind_splits)
  have "\<not> latched eid FDIR_REASON_WATCHDOG (hl s)" using assms(4) by (simp add: overdue_def)
  then have pre: "live (fdir_port_sync_exit s)" "g_supervision_enabled (fdir_port_sync_exit s) \<noteq> 0"
    "registered (rep_entity ?r) (fdir_port_sync_exit s)" "\<not> latched (rep_entity ?r) (rep_reason ?r) (hl (fdir_port_sync_exit s))"
    using assms(1-3) by (simp_all add: registered_def)
  note eff = handle_failure_effect [OF pre t(1)]
  have "left_alone i s t" if "i \<noteq> eid" for i
    using eff(4) eff(7) [of i] that others_same_entry [OF eff(4)] by (simp add: left_alone_def others_same_def)
  with eff t(2) assms(2) show ?thesis by (intro that [of t]) (simp_all add: dealt_with_def)
qed

lemma watchdog_loop_scans:
  assumes "live s" "g_supervision_enabled s \<noteq> 0" "watchdog_loop eid now age s = Some s'"
  shows "registered i s \<longrightarrow> scanned_from eid i now age s s'"
    and "watchdogs (calls s') = watchdogs (calls s) @ filter (\<lambda>i. overdue i now age s) (ids_from eid s)"
proof -
  have "(registered i s \<longrightarrow> scanned_from eid i now age s s') \<and>
    watchdogs (calls s') = watchdogs (calls s) @ filter (\<lambda>i. overdue i now age s) (ids_from eid s)"
    using assms
  proof (induction "256 - unat eid" arbitrary: eid s rule: less_induct)
    case less
    have inv: "fdir_inv s" using less.prems(1) by (rule liveD)
    consider "\<not> registered eid s" | "registered eid s" "\<not> overdue eid now age s"
      | "registered eid s" "overdue eid now age s" by blast
    then show ?case
    proof cases
      case 1
      then have "registered i s \<Longrightarrow> i < eid" by (auto simp: registered_def)
      with 1 less.prems(3) show ?thesis
        by (auto simp: watchdog_loop_done scanned_from_def ids_from_end left_alone.refl)
    next
      case 2
      from less.hyps [OF registered_next [OF 2(1)] less.prems(1,2)] less.prems(3) 2 show ?thesis
        by (auto simp: watchdog_loop_skip [OF inv 2] ids_from_Cons intro: scanned_from_skip)
    next
      case 3
      obtain t where t: "live t" "g_supervision_enabled t \<noteq> 0" "g_entity_count t = g_entity_count s"
        "watchdog_loop (eid + 1) now age (fdir_port_sync_enter t) = Some s'"
        "dealt_with eid FDIR_REASON_WATCHDOG s t" "\<And>i. i \<noteq> eid \<Longrightarrow> left_alone i s t"
        "watchdogs (calls t) = watchdogs (calls s) @ [eid]"
        by (rule watchdog_round [OF less.prems(1,2) 3 less.prems(3)]) blast
      have "filter (\<lambda>i. overdue i now age t) (ids_from (eid + 1) s) = filter (\<lambda>i. overdue i now age s) (ids_from (eid + 1) s)"
        by (rule filter_cong [OF refl]) (use left_alone_facts(1) [OF t(6)] in_ids_from [OF 3(1)] in blast)
      moreover have "ids_from (eid + 1) (fdir_port_sync_enter t) = ids_from (eid + 1) s"
        "registered i (fdir_port_sync_enter t) = registered i s" using t(3) by (simp_all add: ids_from_def registered_def)
      moreover have "overdue i now age (fdir_port_sync_enter t) = overdue i now age t" for i by (simp add: overdue_def)
      ultimately show ?thesis
        using less.hyps [OF registered_next [OF 3(1)], of "fdir_port_sync_enter t"] t 3
        by (auto simp: ids_from_Cons intro: scanned_from_handled [OF 3 t(6,5)])
    qed
  qed
  then show "registered i s \<longrightarrow> scanned_from eid i now age s s'"
    "watchdogs (calls s') = watchdogs (calls s) @ filter (\<lambda>i. overdue i now age s) (ids_from eid s)" by blast+
qed

lemma check_watchdogs_effect:
  assumes "live s" "g_supervision_enabled s \<noteq> 0" "fdir_get_now_ms s = Some (now, t)"
  shows "returns (fdir_check_watchdogs s) (\<lambda>s'.
     watchdogs (since s s') = filter (\<lambda>i. overdue i now (fdir_heartbeat_max_age_ms s) s) (ids_from 0 s) \<and>
     (\<forall>i. registered i s \<longrightarrow>
       (if overdue i now (fdir_heartbeat_max_age_ms s) s
        then stands_failed i FDIR_REASON_WATCHDOG s' \<or> unlatched_ok i s' \<and> restarts i (since s s') = 1
        else same_entry i (hl s) (hl s') \<and> restarts i (since s s') = 0)))"
proof -
  obtain e where t: "t = ext (Call_now now) e s"
    using keepsD [OF get_now_keeps assms(3)] by auto
  let ?x = "fdir_port_sync_enter (fdir_port_sync_exit (fdir_port_sync_enter t))"
  let ?age = "fdir_heartbeat_max_age_ms s"
  have x: "live ?x" "g_supervision_enabled ?x \<noteq> 0" "hl ?x = hl s" "g_entity_count ?x = g_entity_count s"
    "watchdogs (calls ?x) = watchdogs (calls s)" "\<And>i. restarts i (calls ?x) = restarts i (calls s)"
    using assms t by simp_all
  obtain s' where s': "watchdog_loop 0 now ?age ?x = Some s'"
    using watchdog_loop_returns [OF x(1)] by (metis returnsE)
  let ?r = "fdir_port_sync_exit s'"
  have eq: "fdir_check_watchdogs s = Some ?r"
    using assms(2,3) t s'
    by (simp add: fdir_check_watchdogs_def supervision_enabled_eq Let_def fdir_heartbeat_max_age_ms_def
        fdir_internal_get_config_def)
  obtain cs where cs: "calls ?r = calls s @ cs"
    using keepsD [OF check_watchdogs_keeps [OF liveD(1) [OF assms(1)]] eq] by (auto simp: api_step_def lib_step_def)
  have tally: "watchdogs (calls ?r) = watchdogs (calls s) @ watchdogs cs"
    "restarts i (calls ?r) = restarts i (calls s) + restarts i cs" for i
    by (simp_all only: cs watchdogs_append restarts_append)
  note since = since_append [OF cs] tally [unfolded tally_sync]
  have od: "overdue i now ?age ?x = overdue i now ?age s" "ids_from 0 ?x = ids_from 0 s" for i
    using x(3,4) by (simp_all add: overdue_def ids_from_def)
  have "if overdue i now ?age s
      then stands_failed i FDIR_REASON_WATCHDOG ?r \<or> unlatched_ok i ?r \<and> restarts i (since s ?r) = 1
      else same_entry i (hl s) (hl ?r) \<and> restarts i (since s ?r) = 0" if "registered i s" for i
  proof -
    have "scanned i now ?age ?x s'"
      using watchdog_loop_scans(1) [OF x(1,2) s', of i] that x(4) by (simp add: scanned_from_def registered_def)
    then show ?thesis
      unfolding scanned_def od dealt_with_def left_alone_def x(3,6) since
      by (auto simp: stands_failed_def unlatched_ok_def)
  qed
  moreover have "watchdogs cs = filter (\<lambda>i. overdue i now ?age ?x) (ids_from 0 ?x)"
    using watchdog_loop_scans(2) [OF x(1,2) s'] since(2) x(5) by simp
  ultimately show ?thesis unfolding eq returns_Some by (auto simp: since(1) od simp del: One_nat_def split del: if_split)
qed

text \<open>
  C5. The watchdog scan handles exactly the overdue entities. With the clock read at its start and the
  permitted age of the configuration, an entity is overdue if it is not FAILED, has no watchdog fault
  latched, and its heartbeat is older than permitted. The scan raises one WATCHDOG event for each
  registered entity that is overdue when it starts, in the order of their ids, and none for any other
  entity. Each overdue entity has either been restarted, with exactly one call of its restart hook, and is
  healthy, or it stands FAILED with the watchdog fault latched. The health record and the latch of every
  other entity are left alone and it is not restarted.
\<close>

theorem watchdog_scan_spec:
  assumes "live s" "g_supervision_enabled s \<noteq> 0" "fdir_get_now_ms s = Some (now, t)"
  shows "returns (fdir_check_watchdogs s) (\<lambda>s'.
     watchdogs (since s s') = filter (\<lambda>i. overdue i now (fdir_heartbeat_max_age_ms s) s) (ids_from 0 s) \<and>
     (\<forall>i. registered i s \<longrightarrow>
       (if overdue i now (fdir_heartbeat_max_age_ms s) s
        then stands_failed i FDIR_REASON_WATCHDOG s' \<or> unlatched_ok i s' \<and> restarts i (since s s') = 1
        else same_entry i (hl s) (hl s') \<and> restarts i (since s s') = 0)))"
  by (rule check_watchdogs_effect [OF assms])

text \<open>The entity of the demo application, 20 seconds after its last heartbeat.\<close>

theorem watchdog_scan_spec_witness:
  "\<exists>s. s = demo\<lparr>env := 20000\<rparr> \<and> live s \<and> registered 0 s \<and> overdue 0 20000 (fdir_heartbeat_max_age_ms s) s \<and>
     returns (fdir_check_watchdogs s) (\<lambda>s'. watchdogs (since s s') = [0] \<and>
       (stands_failed 0 FDIR_REASON_WATCHDOG s' \<or> restarts 0 (since s s') = 1))"
proof -
  let ?s = "demo\<lparr>env := 20000\<rparr>"
  have live: "live ?s" using demo_live [of 0] by (simp add: live_def fdir_inv_def port_inv_def ents_inv_def)
  have reg: "registered 0 ?s" by (simp add: registered_def)
  have now: "fdir_get_now_ms ?s = Some (20000, ext (Call_now 20000) 20000 ?s)"
    by (simp add: fdir_get_now_ms_def demo_port_def)
  have "g_health (hl demo) ! 0 = zero_snapshot" "fdir_heartbeat_max_age_ms ?s = fdir_heartbeat_max_age_ms demo"
    by (simp_all add: demo_state_def zero_health_def fdir_heartbeat_max_age_ms_def fdir_internal_get_config_def)
  then have od: "overdue 0 20000 (fdir_heartbeat_max_age_ms ?s) ?s"
    using demo_unlatched
    by (simp add: overdue_def zero_snapshot_def) (simp add: fdir_heartbeat_max_age_ms_def fdir_internal_get_config_def
        demo_state_def fdir_config_default_def)
  have ids: "ids_from 0 ?s = [0]" by (simp add: ids_from_def)
  have "returns (fdir_check_watchdogs ?s) (\<lambda>s'. watchdogs (since ?s s') = [0] \<and>
      (stands_failed 0 FDIR_REASON_WATCHDOG s' \<or> restarts 0 (since ?s s') = 1))"
    by (rule returns_mono [OF watchdog_scan_spec [OF live _ now]]) (use reg od ids in auto)
  with live reg od show ?thesis by blast
qed

end
