(* ===== verification/Supervised.thy ===== *)
theory Supervised
  imports Fdir_System Handling
begin

text \<open>
  Interfaces for invariants of the library. A predicate on the state that the lock and the clock keep
  and that does not depend on the failure queue and the health table is kept by the calls that use
  nothing else: heartbeats, the worker gate and fault reports. If the handling of one report keeps it
  as well, it is kept by the watchdog scan, by the drain loop and by the whole tick.
\<close>

lemma keeps_bind_any: "(\<And>x. m = Some x \<Longrightarrow> keeps (k x) Q) \<Longrightarrow> keeps (Option.bind m k) Q"
  by (auto simp: keeps_def split: bind_splits)

locale port_invariant =
  fixes I :: "'e fdir \<Rightarrow> bool"
  assumes enter: "I s \<Longrightarrow> I (fdir_port_sync_enter s)"
    and exit: "I s \<Longrightarrow> I (fdir_port_sync_exit s)"
    and queue: "I s \<Longrightarrow> I (s\<lparr>fq := q\<rparr>)"
    and health: "I s \<Longrightarrow> I (s\<lparr>hl := h\<rparr>)"
    and clock: "I s \<Longrightarrow> keeps (fdir_get_now_ms s) (\<lambda>(_, t). I t)"
begin

lemma reset_inv: "I s \<Longrightarrow> keeps (fdir_health_reset_unsafe eid s) I"
  unfolding fdir_health_reset_unsafe_def
  by (auto simp: keeps_if intro!: keeps_bindI [OF clock] keeps_bind_any [of "arr_get _ _"] keeps_bind_any [of "arr_set _ _ _"] health)

lemma heartbeat_inv: "I s \<Longrightarrow> keeps (fdir_health_heartbeat_notify eid s) I"
  unfolding fdir_health_heartbeat_notify_def Let_def
  by (auto simp: keeps_if intro!: keeps_bindI [OF clock] keeps_bind_any [of "arr_get _ _"] keeps_bind_any [of "arr_set _ _ _"]
      exit health enter)

lemma mode_inv: "I s \<Longrightarrow> I (snd (fdir_system_mode s))"
  by (simp add: system_mode_eq enter exit)

lemma gate_inv:
  assumes "I s"
  shows "keeps (fdir_worker_may_run eid s) (\<lambda>(_, t). I t)"
proof -
  have "keeps (fdir_entity_may_run eid s) (\<lambda>(_, t). I t)" if "I s" for s
    unfolding fdir_entity_may_run_def Let_def
    by (auto simp: that keeps_if enter exit intro!: keeps_bind_any split: option.split)
  then show ?thesis
    unfolding fdir_worker_may_run_def system_mode_eq Let_def
    by (auto simp: assms keeps_if enter exit intro!: keeps_bindI [OF heartbeat_inv])
qed

lemma report_inv: "I s \<Longrightarrow> keeps (report_fault_impl eid reason code detail flags s) (\<lambda>(_, t). I t)"
  unfolding report_fault_impl_def Let_def
  by (auto simp: keeps_if intro!: keeps_bindI [OF clock] keeps_bind_any [of "fdir_health_fault_is_latched_unsafe _ _ _"]
      keeps_bind_any [of "fdir_health_snapshot _ _"] keeps_bind_any [of "copy_detail _ _"]
      keeps_bind_any [of "enqueue_failure_unsafe _ _"] keeps_bind_any [of "fdir_health_set_unsafe _ _ _ _ _"]
      exit queue health enter)

end

locale supervised = port_invariant +
  assumes handle: "live s \<Longrightarrow> I s \<Longrightarrow> keeps (fdir_handle_failure report s) I"
begin

lemma handle_live:
  assumes "live s" "I s"
  shows "keeps (fdir_handle_failure report s) (\<lambda>t. live t \<and> I t \<and> fq t = fq s)"
  by (rule keeps_mono [OF keeps_conj [OF handle_failure_keeps [OF liveD(1) [OF assms(1)]] handle [OF assms]]])
    (auto intro: api_step_live [OF _ assms(1)])

lemma watchdog_loop_inv: "live s \<Longrightarrow> I s \<Longrightarrow> keeps (watchdog_loop eid now age s) I"
proof (induction "256 - unat eid" arbitrary: eid s rule: less_induct)
  case less
  have inv: "fdir_inv s" using less.prems(1) by (rule liveD)
  consider "\<not> registered eid s" | "registered eid s" "\<not> overdue eid now age s"
    | "registered eid s" "overdue eid now age s" by blast
  then show ?case
  proof cases
    case 3
    obtain r where r: "watchdog_report eid now = Some r" by (rule watchdog_report_eq)
    have x: "live (fdir_port_sync_exit s)" "I (fdir_port_sync_exit s)" using less.prems exit by simp_all
    show ?thesis
      unfolding watchdog_loop_handle [OF inv 3 r]
      by (rule keeps_bindI [OF handle_live [OF x]]) (auto intro!: less.hyps [OF registered_next [OF 3(1)]] enter)
  qed (simp_all add: watchdog_loop_done watchdog_loop_skip [OF inv] less.hyps [OF registered_next] less.prems)
qed

lemma check_watchdogs_inv:
  assumes "live s" "I s"
  shows "keeps (fdir_check_watchdogs s) I"
  unfolding fdir_check_watchdogs_def supervision_enabled_eq
proof (rule keeps_bindI [OF keeps_conj [OF get_now_keeps clock [OF assms(2)]]], clarify)
  fix now e assume t: "I (ext (Call_now now) e s)"
  with assms(1) enter exit show "keeps (let max_age = fdir_heartbeat_max_age_ms (ext (Call_now now) e s);
           (enabled, s) = (g_supervision_enabled (ext (Call_now now) e s),
                fdir_port_sync_exit (fdir_port_sync_enter (ext (Call_now now) e s)))
       in if enabled = 0 then Some s
          else let s = fdir_port_sync_enter s
               in Option.bind (watchdog_loop 0 now max_age s) (\<lambda>s. Some (fdir_port_sync_exit s))) I"
    by (auto simp: Let_def keeps_if intro!: keeps_bindI [OF watchdog_loop_inv])
qed

lemma drain_queue_inv: "live s \<Longrightarrow> I s \<Longrightarrow> keeps (drain_queue r s) I"
proof (induction "pending (fq s)" arbitrary: r s)
  case Nil
  then show ?case by (simp add: drain_queue_empty enter exit queue)
next
  case (Cons x xs)
  obtain q where q: "queue_inv q" "pending q = xs"
    and eq: "drain_queue r s =
       Option.bind (fdir_handle_failure (Some x) (fdir_port_sync_exit ((fdir_port_sync_enter s)\<lparr>fq := q\<rparr>)))
         (drain_queue x)"
    using drain_queue_next [OF liveD(4) [OF Cons.prems(1)] Cons.hyps(2) [symmetric], of r] by blast
  have x: "live (fdir_port_sync_exit ((fdir_port_sync_enter s)\<lparr>fq := q\<rparr>))"
    "I (fdir_port_sync_exit ((fdir_port_sync_enter s)\<lparr>fq := q\<rparr>))"
    using api_step_live [OF api_step_fq [OF q(1)] Cons.prems(1)] enter exit queue Cons.prems(2) by auto
  show ?case
    unfolding eq by (rule keeps_bindI [OF handle_live [OF x]]) (use q in \<open>auto intro!: Cons.hyps(1)\<close>)
qed

lemma supervisor_tick_inv:
  assumes "live s" "I s"
  shows "keeps (fdir_supervisor_tick s) I"
proof -
  let ?x = "fdir_port_sync_exit (fdir_port_sync_enter s)"
  have x: "live ?x" "I ?x" using assms enter exit by simp_all
  have "keeps (Option.bind (drain_queue zero_report ?x) fdir_check_watchdogs) I"
    by (rule keeps_bindI [OF keeps_conj [OF drain_queue_keeps [OF liveD(1) [OF x(1)]] drain_queue_inv [OF x]]])
      (auto intro!: check_watchdogs_inv intro: api_step_live [OF _ x(1)])
  with x show ?thesis by (simp add: fdir_supervisor_tick_def supervision_enabled_eq)
qed

end

end
