(* ===== verification/Entity_Frame.thy ===== *)
theory Entity_Frame
  imports Supervised
begin

text \<open>
  The entity table changes at two places only: registration adds a slot, and the recovery of an entity
  counts its restart. Every other call of the API leaves the table as it is. The interface
  \<open>slot_invariant\<close> turns a predicate on slots that these two places keep into an invariant of the
  library.
\<close>

subsection \<open>Calls that leave the entity table alone\<close>

definition ents_same :: "'e fdir \<Rightarrow> 'e fdir \<Rightarrow> bool" where
  "ents_same s s' \<longleftrightarrow> g_entities s' = g_entities s \<and> g_entity_count s' = g_entity_count s"

lemma ents_same_simps [simp]:
  "ents_same s s" "ents_same s (fdir_port_sync_enter t) = ents_same s t"
  "ents_same s (fdir_port_sync_exit t) = ents_same s t" "ents_same (fdir_port_sync_enter s) t = ents_same s t"
  "ents_same (fdir_port_sync_exit s) t = ents_same s t" "ents_same s (ext c e t) = ents_same s t"
  "ents_same s (t\<lparr>hl := h\<rparr>) = ents_same s t" "ents_same s (t\<lparr>fq := q\<rparr>) = ents_same s t"
  "ents_same s (t\<lparr>sb := b\<rparr>) = ents_same s t" "ents_same s (t\<lparr>g_supervision_enabled := g\<rparr>) = ents_same s t"
  "ents_same (s\<lparr>sb := b\<rparr>) t = ents_same s t" "ents_same (s\<lparr>fq := q\<rparr>) t = ents_same s t"
  "ents_same (s\<lparr>g_supervision_enabled := g\<rparr>) t = ents_same s t" "ents_same (ext c e s) t = ents_same s t"
  by (simp_all add: ents_same_def)

lemma engine_ents: "engine_frame s s' \<Longrightarrow> ents_same s s'"
  by (simp add: engine_frame_def ents_same_def)

lemma eng_section:
  "keeps m (engine_frame (fdir_port_sync_enter s)) \<Longrightarrow>
   keeps (Option.bind m (\<lambda>t. Some (fdir_port_sync_exit t))) (ents_same s)"
  by (auto simp: keeps_def split: bind_splits dest!: engine_ents)

lemma mode_calls_ents:
  "keeps (fdir_enter_degraded_mode s) (ents_same s)" "keeps (fdir_enter_safe_mode s) (ents_same s)"
  "keeps (fdir_reassess_system_mode s) (ents_same s)" "keeps (fdir_try_reboot why s) (ents_same s)"
  "keeps (fdir_log_note note s) (ents_same s)" "keeps (fdir_log_queue_overflow q d h s) (ents_same s)"
  unfolding fdir_enter_degraded_mode_def fdir_enter_safe_mode_def fdir_reassess_system_mode_def
    fdir_try_reboot_def fdir_log_note_def fdir_log_queue_overflow_def Let_def
  by (intro eng_section eng_keeps; simp)+

lemma emit_note_eng:
  "keeps (emit_event_full FDIR_EVENT_NOTE mode entity reason code level phase detail s) (engine_frame s)"
  by (rule emit_eng) simp

lemma ground_calls_ents:
  "keeps (fdir_set_system_mode mode s) (\<lambda>(_, s'). ents_same s s')"
  "keeps (fdir_deescalate_system_mode s) (\<lambda>(_, s'). ents_same s s')"
  "keeps (fdir_set_supervision_enabled b s) (\<lambda>(_, s'). ents_same s s')"
  by (auto simp: keeps_def fdir_set_system_mode_def deescalate_eq fdir_set_supervision_enabled_def Let_def
      split: bind_splits if_splits dest!: keepsD [OF set_mode_eng]
        keepsD [OF emit_note_eng] engine_ents)

lemma mark_calls_ents:
  "keeps (fdir_subsystem_mark_available sid s) (ents_same s)"
  "keeps (fdir_subsystem_mark_unavailable sid s) (ents_same s)"
  "keeps (fdir_subsystem_mark_degraded sid s) (ents_same s)"
  "keeps (fdir_subsystem_on_entity_exhausted sid eid r s) (\<lambda>(_, s'). ents_same s s')"
  "keeps (fdir_subsystem_register d out s) (\<lambda>(_, s'). ents_same s s')"
  by (auto simp: keeps_def fdir_subsystem_mark_available_def fdir_subsystem_mark_unavailable_def
      fdir_subsystem_mark_degraded_def fdir_subsystem_register_def Let_def
      split: bind_splits if_splits option.splits dest!: keepsD [OF emit_sub_eng] keepsD [OF exhausted_eng] engine_ents)

lemma health_calls_ents:
  "keeps (fdir_health_set eid health code detail s) (ents_same s)"
  "keeps (fdir_health_reset eid s) (ents_same s)"
  "keeps (fdir_health_heartbeat_notify eid s) (ents_same s)"
  "keeps (fdir_health_snapshot_copy eid out s) (\<lambda>(_, s'). ents_same s s')"
  "keeps (fdir_health_fault_is_latched eid reason s) (\<lambda>(_, s'). ents_same s s')"
  by (auto simp: keeps_def health_set_section health_reset_section fdir_health_reset_unsafe_def
      fdir_health_heartbeat_notify_def fdir_health_snapshot_copy_def fdir_health_fault_is_latched_def Let_def
      split: bind_splits if_splits option.splits dest!: keepsD [OF get_now_keeps])

lemma reset_ents: "keeps (fdir_health_reset_unsafe eid s) (ents_same s)"
  by (auto simp: keeps_def fdir_health_reset_unsafe_def Let_def
      split: bind_splits if_splits dest!: keepsD [OF get_now_keeps])

lemma report_calls_ents:
  "keeps (fdir_submit_failure r s) (\<lambda>(_, s'). ents_same s s')"
  "keeps (report_fault_impl eid reason code detail flags s) (\<lambda>(_, s'). ents_same s s')"
  "keeps (fdir_entity_may_run eid s) (\<lambda>(_, s'). ents_same s s')"
  "keeps (fdir_worker_may_run eid s) (\<lambda>(_, s'). ents_same s s')"
proof -
  show hb: "keeps (fdir_submit_failure r s) (\<lambda>(_, s'). ents_same s s')"
    "keeps (report_fault_impl eid reason code detail flags s) (\<lambda>(_, s'). ents_same s s')"
    "keeps (fdir_entity_may_run eid s) (\<lambda>(_, s'). ents_same s s')" for s :: "'a fdir"
    by (auto simp: keeps_def fdir_submit_failure_def supervision_enabled_eq fdir_failure_queue_put_def
        report_fault_impl_def fdir_entity_may_run_def Let_def
        split: bind_splits if_splits option.splits dest!: keepsD [OF get_now_keeps])
  show "keeps (fdir_worker_may_run eid s) (\<lambda>(_, s'). ents_same s s')"
    by (auto simp: keeps_def fdir_worker_may_run_def system_mode_eq split: bind_splits if_splits
        dest!: keepsD [OF health_calls_ents(3)] keepsD [OF hb(3)])
qed

definition recovers :: "'e api_call \<Rightarrow> bool" where
  "recovers c \<longleftrightarrow> c = Supervisor_tick \<or> c = Check_watchdogs \<or> (\<exists>r. c = Handle_failure r)"

definition registers :: "'e api_call \<Rightarrow> bool" where
  "registers c \<longleftrightarrow> (\<exists>d out. c = Entity_register d out)"

lemma exec_ents:
  assumes "\<not> is_init c" "\<not> recovers c" "\<not> registers c"
  shows "keeps (exec c s) (ents_same s)"
  using assms
  by (cases c)
    (simp_all add: is_init_def recovers_def registers_def keeps_map_snd keeps_map_const mode_calls_ents
      ground_calls_ents mark_calls_ents health_calls_ents report_calls_ents fdir_report_fault_def
      fdir_report_fault_ex_def system_mode_eq supervision_enabled_eq fdir_failure_queue_full_latched_def Let_def)


subsection \<open>Invariants of the slots\<close>

definition all_slots :: "('e fdir_entity_slot \<Rightarrow> bool) \<Rightarrow> 'e fdir \<Rightarrow> bool" where
  "all_slots ok s \<longleftrightarrow> (\<forall>i. registered i s \<longrightarrow> ok (g_entities s ! unat i))"

lemma all_slots_ents: "ents_same s s' \<Longrightarrow> all_slots ok s' = all_slots ok s"
  by (simp add: all_slots_def ents_same_def registered_def)

lemma all_slots_simps [simp]:
  "all_slots ok (fdir_port_sync_enter s) = all_slots ok s" "all_slots ok (fdir_port_sync_exit s) = all_slots ok s"
  "all_slots ok (ext c e s) = all_slots ok s" "all_slots ok (s\<lparr>fq := q\<rparr>) = all_slots ok s"
  "all_slots ok (s\<lparr>hl := h\<rparr>) = all_slots ok s" "all_slots ok (s\<lparr>env := e\<rparr>) = all_slots ok s"
  by (simp_all add: all_slots_def registered_def)

lemma outside_ents: "outside s s' \<Longrightarrow> ents_same s s'"
  by (simp add: ents_same_def outside_iff)

text \<open>Without a port, the calls that recover entities stop before they get to the entity table.\<close>

lemma unbound_recovery:
  assumes "fdir_inv s" "\<not> g_port_ready s" "recovers c"
  shows "keeps (exec c s) (ents_same s)"
proof -
  have now: "fdir_get_now_ms v = None" "emit_event_full k m e r c l p d v = None"
    if "\<not> g_port_ready v" for v :: "'a fdir" and k m e r c l p d
    using that by (simp_all add: fdir_get_now_ms_def emit_event_full_def Let_def)
  have handle: "keeps (fdir_handle_failure r s) (ents_same s)" for r
    using assms(2)
    by (auto simp: fdir_handle_failure_def supervision_enabled_eq now keeps_def Let_def
        split: option.splits if_splits bind_splits)
  have check: "fdir_check_watchdogs v = None" if "\<not> g_port_ready v" for v :: "'a fdir"
    using that by (simp add: fdir_check_watchdogs_def now)
  let ?x = "fdir_port_sync_exit (fdir_port_sync_enter s)"
  have "keeps (drain_queue zero_report ?x) (\<lambda>t. fdir_check_watchdogs t = None)"
    using assms by (intro keeps_mono [OF drain_queue_keeps]) (auto intro!: check simp: api_step_def lib_step_def)
  then have "keeps (fdir_supervisor_tick s) (ents_same s)"
    by (auto simp: fdir_supervisor_tick_def supervision_enabled_eq keeps_def split: bind_splits)
  with handle check [OF assms(2)] assms(3) show ?thesis by (auto simp: recovers_def keeps_def)
qed

locale slot_invariant =
  fixes ok :: "'e fdir_entity_slot \<Rightarrow> bool"
  assumes fresh: "ok (new_entity_slot d nm slot)"
    and recovered: "live s \<Longrightarrow> registered (rep_entity r) s \<Longrightarrow> ok (g_entities s ! unat (rep_entity r)) \<Longrightarrow>
      recover_entity r s = Some s' \<Longrightarrow> ok (g_entities s' ! unat (rep_entity r))"
begin

lemma handle_failure_slots:
  assumes "live s" "all_slots ok s"
  shows "keeps (fdir_handle_failure report s) (all_slots ok)"
proof (cases report)
  case None
  with assms show ?thesis by (simp add: fdir_handle_failure_def)
next
  case (Some r)
  from assms(1) show ?thesis
  proof (cases rule: handle_failure_cases [of s r])
    case (handled t u tm ev)
    have t: "all_slots ok t" "registered (rep_entity r) t = registered (rep_entity r) s"
      using assms(2) handled(3) by (simp_all add: all_slots_def registered_def outside_iff)
    have "all_slots ok u"
    proof (cases "registered (rep_entity r) s")
      case True
      with handled(7) have rec: "recover_entity r t = Some u" by simp
      have e: "g_entities u = g_entities t \<or> g_entities u = bumped (rep_entity r) (rep_reason r) t"
        using recover_entity_effect(2) [OF handled(4) _ rec] True t(2) by simp
      have reg: "registered i u = registered i t" for i
        using handled(8) by (simp add: rec_step_def sys_step_registered)
      have "ok (g_entities u ! unat (rep_entity r))"
        using recovered [OF handled(4) _ _ rec] t True by (simp add: all_slots_def)
      with e t(1) show ?thesis
        unfolding all_slots_def reg bumped_def by (metis nth_list_update_neq)
    next
      case False
      with handled(7) have "enter_degraded_mode_unsafe t = Some u" by simp
      from keepsD [OF modes_eng(1) this] t(1) show ?thesis
        by (auto simp: all_slots_ents dest!: engine_ents)
    qed
    with handled(9) Some show ?thesis by simp
  qed (use assms Some in \<open>simp_all add: handling_def\<close>)
qed

end

sublocale slot_invariant \<subseteq> supervised "all_slots ok"
proof unfold_locales
  show "keeps (fdir_get_now_ms s) (\<lambda>(_, t). all_slots ok t)" if "all_slots ok s" for s
    by (rule keeps_mono [OF get_now_keeps]) (use that in auto)
qed (simp_all add: handle_failure_slots)

context slot_invariant
begin

lemma entity_register_slots:
  assumes "fdir_inv s" "all_slots ok s"
  shows "keeps (fdir_entity_register desc out_id s) (\<lambda>(_, s'). all_slots ok s')"
  using assms(1)
proof (cases rule: entity_register_cases [of s desc out_id])
  case (ok d nm)
  let ?s = "entity_added (new_entity_slot d nm (g_entities s ! unat (g_entity_count s))) (fdir_port_sync_enter s)"
  have len: "unat (g_entity_count s) < length (g_entities s)"
    using ok(2) fdir_invD(5) [OF assms(1)] by (simp add: ents_inv_def)
  have "registered i ?s \<Longrightarrow> registered i s \<or> i = g_entity_count s" for i
    using count_inc [OF ok(2)]
    by (auto simp: registered_def entity_added_def word_less_nat_alt word_unat_eq_iff)
  then have "all_slots ok ?s"
    using assms(2) fresh len
    by (auto simp: all_slots_def entity_added_def nth_list_update_if)
  moreover have "keeps (fdir_health_reset_unsafe (g_entity_count s) ?s) (ents_same ?s)"
    by (rule reset_ents)
  ultimately show ?thesis
    unfolding ok(7) by (auto simp: keeps_def all_slots_ents split: bind_splits)
qed (use assms in simp_all)

lemma exec_slots:
  assumes "fdir_inv s" "all_slots ok s" "exec c s = Some s'"
  shows "all_slots ok s'"
proof -
  consider "is_init c" | "registers c" | "recovers c" "g_port_ready s" | "recovers c" "\<not> g_port_ready s"
    | "\<not> is_init c" "\<not> recovers c" "\<not> registers c" by blast
  then show ?thesis
  proof cases
    case 1
    then obtain config port where c: "c = Init config port" by (auto simp: is_init_def)
    show ?thesis
    proof (cases "port_is_valid port")
      case True
      then obtain p where "port = Some p" by (cases port) (auto simp: port_is_valid_def)
      with True c assms(3) show ?thesis by (auto simp: init_ok all_slots_def registered_def fdir_boot_def)
    qed (use c assms(2,3) in \<open>auto simp: init_bad all_slots_def registered_def\<close>)
  next
    case 2
    then show ?thesis
      using assms(3) keepsD [OF entity_register_slots [OF assms(1,2)]] by (fastforce simp: registers_def)
  next
    case 3
    then have "live s" using assms(1) by (simp add: live_def)
    then show ?thesis
      using 3(1) assms(3) keepsD [OF handle_failure_slots [OF _ assms(2)]]
        keepsD [OF check_watchdogs_inv [OF _ assms(2)]] keepsD [OF supervisor_tick_inv [OF _ assms(2)]]
      by (auto simp: recovers_def)
  next
    case 4
    from keepsD [OF unbound_recovery [OF assms(1) 4(2,1)] assms(3)] assms(2) show ?thesis
      by (simp add: all_slots_ents)
  next
    case 5
    from keepsD [OF exec_ents [OF this] assms(3)] assms(2) show ?thesis by (simp add: all_slots_ents)
  qed
qed

lemma reachable_slots: "fdir_reachable s \<Longrightarrow> all_slots ok s"
proof (induction rule: fdir_reachable.induct)
  case (boot e)
  then show ?case by (simp add: all_slots_def registered_def fdir_boot_def)
next
  case (step s s')
  from step.hyps(2) show ?case
  proof (cases rule: fdir_next.cases)
    case (call c)
    from exec_slots [OF lib.reach_inv [OF step.hyps(1)] step.IH call] show ?thesis .
  qed (use step.IH in \<open>simp add: all_slots_def registered_def\<close>)
qed

end



subsection \<open>Restart budgets\<close>

text \<open>
  Within its budget: an entity without a decision hook and without a linked subsystem, whose recovery
  is decided by the library alone, has never been restarted more often than its descriptor permits.
\<close>

definition within_budget :: "'e fdir_entity_slot \<Rightarrow> bool" where
  "within_budget slot \<longleftrightarrow>
     (let d = es_desc slot in
      ed_decide d = None \<and> ed_linked_subsystem d = FDIR_SUBSYSTEM_NONE \<longrightarrow>
        (ed_max_restarts d = FDIR_RESTART_UNLIMITED \<or> es_restart_count slot \<le> ed_max_restarts d) \<and>
        (ed_max_watchdog_restarts d = FDIR_RESTART_UNLIMITED \<or>
         es_watchdog_restart_count slot \<le> ed_max_watchdog_restarts d))"

lemma bump_within_budget:
  assumes "within_budget slot" "default_decide slot r = FDIR_ACTION_RESTART"
    "ed_on_exhausted (es_desc slot) \<noteq> FDIR_ACTION_RESTART"
  shows "within_budget (bump_restart (rep_reason r) slot)"
  using assms
  by (auto simp: within_budget_def default_decide_def bump_restart_def Let_def inc_le split: if_splits)

interpretation budget: slot_invariant within_budget
proof unfold_locales
  show "within_budget (new_entity_slot d nm slot)" for d :: "'a fdir_entity_desc" and nm slot
    by (simp add: within_budget_def new_entity_slot_def Let_def)
  fix s s' :: "'a fdir" and r
  assume s: "live s" "registered (rep_entity r) s" "within_budget (g_entities s ! unat (rep_entity r))"
    "recover_entity r s = Some s'"
  let ?i = "unat (rep_entity r)"
  let ?slot = "g_entities s ! ?i"
  obtain action t where t: "g_entities t = g_entities s" "action_effect (rep_entity r) (rep_reason r) action t s'"
    "ed_decide (es_desc ?slot) = None \<and> ed_linked_subsystem (es_desc ?slot) = FDIR_SUBSYSTEM_NONE \<longrightarrow>
     action = default_decide ?slot r"
    using recover_entity_steps [OF s(1,2,4)] by metis
  have len: "?i < length (g_entities s)" and ex: "ed_on_exhausted (es_desc ?slot) \<noteq> FDIR_ACTION_RESTART"
    using registered_index [OF liveD(1) [OF s(1)] s(2)] registered_slot [OF liveD(1) [OF s(1)] s(2)] by auto
  consider "g_entities s' = g_entities s"
    | "g_entities s' = bumped (rep_entity r) (rep_reason r) s" "action = FDIR_ACTION_RESTART"
    using t(1,2) by (auto simp: action_effect_def engine_frame_def bumped_def split: if_splits)
  then show "within_budget (g_entities s' ! ?i)"
  proof cases
    case 2
    have "within_budget (bump_restart (rep_reason r) ?slot)"
    proof (cases "ed_decide (es_desc ?slot) = None \<and> ed_linked_subsystem (es_desc ?slot) = FDIR_SUBSYSTEM_NONE")
      case True
      with 2 t(3) ex s(3) show ?thesis by (intro bump_within_budget) auto
    qed (auto simp: within_budget_def bump_restart_def Let_def)
    with 2 len show ?thesis by (simp add: bumped_def)
  qed (use s(3) in simp)
qed

text \<open>
  C8. Restart budgets are never exceeded: in every reachable state, whatever faults were reported and
  whatever the restart hook answered, an entity that the library recovers on its own has been restarted
  at most \<open>max_restarts\<close> times for reported faults and at most \<open>max_watchdog_restarts\<close> times for missed
  heartbeats since it was registered, where 255 means no limit.
\<close>

theorem restart_budget_respected:
  assumes "fdir_reachable s" "registered i s"
    "ed_decide (es_desc (g_entities s ! unat i)) = None"
    "ed_linked_subsystem (es_desc (g_entities s ! unat i)) = FDIR_SUBSYSTEM_NONE"
  shows "(ed_max_restarts (es_desc (g_entities s ! unat i)) = FDIR_RESTART_UNLIMITED \<or>
      es_restart_count (g_entities s ! unat i) \<le> ed_max_restarts (es_desc (g_entities s ! unat i))) \<and>
     (ed_max_watchdog_restarts (es_desc (g_entities s ! unat i)) = FDIR_RESTART_UNLIMITED \<or>
      es_watchdog_restart_count (g_entities s ! unat i) \<le> ed_max_watchdog_restarts (es_desc (g_entities s ! unat i)))"
  using budget.reachable_slots [OF assms(1)] assms(2-4)
  by (auto simp: all_slots_def within_budget_def Let_def)

text \<open>An application that has used up its budget of one restart.\<close>

definition spent_calls :: "nat api_call list" where
  "spent_calls =
     [Init None (Some demo_port),
      Entity_register (Some ((demo_desc 0)\<lparr>ed_linked_subsystem := FDIR_SUBSYSTEM_NONE\<rparr>)) (Some 0),
      Handle_failure (Some demo_report)]"

theorem restart_budget_respected_witness:
  "\<exists>spent. run spent_calls (fdir_boot 100) = Some spent \<and> fdir_reachable spent \<and> registered 0 spent \<and>
     es_restart_count (g_entities spent ! 0) = 1 \<and>
     es_restart_count (g_entities spent ! 0) \<le> ed_max_restarts (es_desc (g_entities spent ! 0))"
proof -
  have "map_option (\<lambda>s. let slot = g_entities s ! 0; d = es_desc slot in
      (g_entity_count s, es_restart_count slot, ed_max_restarts d, ed_linked_subsystem d, Option.is_none (ed_decide d)))
      (run spent_calls (fdir_boot 100)) = Some (1, 1, 1, 255, True)" by code_simp
  then obtain s where s: "run spent_calls (fdir_boot 100) = Some s" "g_entity_count s = 1"
    "es_restart_count (g_entities s ! 0) = 1" "ed_max_restarts (es_desc (g_entities s ! 0)) = 1"
    "ed_linked_subsystem (es_desc (g_entities s ! 0)) = 255" "ed_decide (es_desc (g_entities s ! 0)) = None"
    by (auto simp: Let_def Option.is_none_def)
  have reach: "fdir_reachable s" by (rule run_reachable [OF fdir_reachable.boot s(1)])
  from restart_budget_respected [OF reach, of 0] reach s show ?thesis by (auto simp: registered_def)
qed

end
