(* ===== verification/Commands.thy ===== *)
theory Commands
  imports Fdir_System Handling
begin

text \<open>
  What each command of the API does, on every branch: initialisation, the ground commands and the
  escalation commands against an abstract mode machine, registration, the supervision gate, fault
  reporting and the gate of the workers.
\<close>

subsection \<open>The mode machine\<close>

text \<open>What the two ground commands answer in a mode, and the mode they leave.\<close>

fun commanded :: "fdir_mode \<Rightarrow> fdir_mode \<Rightarrow> fdir_status \<times> fdir_mode" where
  "commanded FDIR_MODE_REBOOT_PENDING m = (FDIR_ERR_STATE, m)"
| "commanded (FDIR_MODE_OTHER n) m = (FDIR_ERR_PARAM, m)"
| "commanded new m = (FDIR_OK, new)"

fun deescalated :: "fdir_mode \<Rightarrow> fdir_status \<times> fdir_mode" where
  "deescalated FDIR_MODE_SAFE = (FDIR_OK, FDIR_MODE_DEGRADED)"
| "deescalated FDIR_MODE_DEGRADED = (FDIR_OK, FDIR_MODE_NOMINAL)"
| "deescalated m = (FDIR_ERR_STATE, m)"

lemma to_mode_section:
  assumes "to_mode m (fdir_port_sync_enter s) t"
  shows "to_mode m s (fdir_port_sync_exit t)"
  using assms by (simp add: to_mode_def outside_iff)

lemma to_mode_idle: "to_mode (g_mode s) s (fdir_port_sync_exit (fdir_port_sync_enter s))"
  by (simp add: to_mode_def outside_iff)

lemma dual_path_mode_sync: "dual_path_mode (fdir_port_sync_enter s) = dual_path_mode s"
  by (simp add: dual_path_mode_def threshold_def)

lemma section_to_mode:
  assumes "returns (f (fdir_port_sync_enter s)) (to_mode m (fdir_port_sync_enter s))"
  shows "returns (Option.bind (f (fdir_port_sync_enter s)) (\<lambda>t. Some (fdir_port_sync_exit t))) (to_mode m s)"
  using assms by (rule returns_bindI) (simp add: to_mode_section)

lemma section_to_mode_pair:
  assumes "returns (f (fdir_port_sync_enter s)) (to_mode m (fdir_port_sync_enter s))"
  shows "returns (Option.bind (f (fdir_port_sync_enter s)) (\<lambda>t. Some (x, fdir_port_sync_exit t)))
     (\<lambda>(y, s'). y = x \<and> to_mode m s s')"
  using assms by (rule returns_bindI) (simp add: to_mode_section)

text \<open>
  C16. The ground commands implement the abstract mode machine: \<open>fdir_set_system_mode\<close> accepts NOMINAL,
  DEGRADED and SAFE from every mode, refuses REBOOT_PENDING with ERR_STATE and anything else with
  ERR_PARAM; \<open>fdir_deescalate_system_mode\<close> goes one step down from SAFE and from DEGRADED and is
  refused with ERR_STATE elsewhere. The mode is the only variable of the library that changes.
\<close>

theorem ground_commands_spec:
  assumes "live s"
  shows "returns (fdir_set_system_mode mode s) (\<lambda>(status, s').
       status = fst (commanded mode (g_mode s)) \<and> to_mode (snd (commanded mode (g_mode s))) s s') \<and>
     returns (fdir_deescalate_system_mode s) (\<lambda>(status, s').
       status = fst (deescalated (g_mode s)) \<and> to_mode (snd (deescalated (g_mode s))) s s')"
proof
  have live: "live (fdir_port_sync_enter s)" using assms by simp
  note set = section_to_mode_pair [where f = "set_mode _ _ _ _", OF set_mode_spec [OF live]]
  show "returns (fdir_set_system_mode mode s) (\<lambda>(status, s').
       status = fst (commanded mode (g_mode s)) \<and> to_mode (snd (commanded mode (g_mode s))) s s')"
    using set to_mode_idle [of s]
    by (cases mode) (simp_all add: fdir_set_system_mode_def Let_def fdir_mode_order)
  show "returns (fdir_deescalate_system_mode s) (\<lambda>(status, s').
       status = fst (deescalated (g_mode s)) \<and> to_mode (snd (deescalated (g_mode s))) s s')"
    using set to_mode_idle [of s]
    by (cases "g_mode s") (simp_all add: deescalate_eq)
qed

theorem ground_commands_spec_witness:
  "live demo \<and> returns (fdir_set_system_mode FDIR_MODE_SAFE demo) (\<lambda>(status, s').
     status = FDIR_OK \<and> to_mode FDIR_MODE_SAFE demo s')"
  using demo_live ground_commands_spec [OF demo_live [of 0], of FDIR_MODE_SAFE] by simp

lemma escalation_commands_reassess:
  assumes "live s"
  shows "returns (fdir_reassess_system_mode s) (to_mode (dual_path_mode s) s)"
proof -
  have "live (fdir_port_sync_enter s)" using assms by simp
  from section_to_mode [where f = evaluate_dual_path, OF dual_path_spec [OF this]] show ?thesis
    by (simp add: fdir_reassess_system_mode_def Let_def dual_path_mode_sync)
qed

text \<open>
  The escalation commands: \<open>fdir_enter_degraded_mode\<close> only acts in NOMINAL; \<open>fdir_enter_safe_mode\<close>
  enters SAFE from everywhere but REBOOT_PENDING; \<open>fdir_reassess_system_mode\<close> enters SAFE exactly when
  the unavailable critical-path subsystems have reached the threshold and no reboot is pending;
  \<open>fdir_try_reboot\<close> enters REBOOT_PENDING and then asks the port to reboot, with the caller's reason or
  \<open>reboot\<close>. The mode is the only variable of the library that changes.
\<close>

theorem escalation_commands_spec:
  assumes "live s"
  shows "returns (fdir_enter_degraded_mode s)
       (to_mode (if g_mode s = FDIR_MODE_NOMINAL then FDIR_MODE_DEGRADED else g_mode s) s) \<and>
     returns (fdir_enter_safe_mode s)
       (to_mode (if g_mode s = FDIR_MODE_REBOOT_PENDING then g_mode s else FDIR_MODE_SAFE) s) \<and>
     returns (fdir_reassess_system_mode s) (to_mode (dual_path_mode s) s) \<and>
     returns (fdir_try_reboot why s) (\<lambda>s'. to_mode FDIR_MODE_REBOOT_PENDING s s' \<and>
       Call_reboot (case why of None \<Rightarrow> ''reboot'' | Some w \<Rightarrow> w) \<in> set (since s s'))"
proof (intro conjI)
  have live: "live (fdir_port_sync_enter s)" using assms by simp
  show "returns (fdir_enter_degraded_mode s)
       (to_mode (if g_mode s = FDIR_MODE_NOMINAL then FDIR_MODE_DEGRADED else g_mode s) s)"
    using section_to_mode [where f = enter_degraded_mode_unsafe, OF enter_modes_spec(1) [OF live]]
    by (simp add: fdir_enter_degraded_mode_def Let_def split: if_splits)
  show "returns (fdir_enter_safe_mode s)
       (to_mode (if g_mode s = FDIR_MODE_REBOOT_PENDING then g_mode s else FDIR_MODE_SAFE) s)"
    using section_to_mode [where f = enter_safe_mode_unsafe, OF enter_modes_spec(2) [OF live]]
    by (simp add: fdir_enter_safe_mode_def Let_def split: if_splits)
  show "returns (fdir_reassess_system_mode s) (to_mode (dual_path_mode s) s)"
    by (rule escalation_commands_reassess [OF assms])
  show "returns (fdir_try_reboot why s) (\<lambda>s'. to_mode FDIR_MODE_REBOOT_PENDING s s' \<and>
       Call_reboot (case why of None \<Rightarrow> ''reboot'' | Some w \<Rightarrow> w) \<in> set (since s s'))"
    unfolding fdir_try_reboot_def Let_def
    by (rule returns_bindI [OF try_reboot_spec [OF live, of why]])
      (auto simp: to_mode_section since_def calls_sync_enter calls_sync_exit)
qed

theorem escalation_commands_spec_witness:
  "live demo \<and> returns (fdir_enter_safe_mode demo) (to_mode FDIR_MODE_SAFE demo) \<and>
   returns (fdir_reassess_system_mode demo) (to_mode (dual_path_mode demo) demo)"
  using demo_live escalation_commands_spec [OF demo_live [of 0]] by simp



subsection \<open>Initialisation\<close>

text \<open>
  C20. A failed \<open>fdir_init\<close> leaves a library that aborts. With a port that lacks a required hook the
  call answers ERR_PORT and unbinds the old port but keeps every other variable, supervision included;
  the next watchdog scan, note, or report of a new fault then calls the unbound port and stops the
  program, while the queries still answer.
\<close>

theorem failed_init_aborts:
  assumes "live s" "\<not> port_is_valid port"
  shows "fst (fdir_init config port s) = FDIR_ERR_PORT \<and>
     snd (fdir_init config port s) = s\<lparr>g_port_ready := False\<rparr> \<and>
     exec Check_watchdogs (s\<lparr>g_port_ready := False\<rparr>) = None \<and>
     exec (Log_note note) (s\<lparr>g_port_ready := False\<rparr>) = None \<and>
     (suppressed e reason s \<or> exec (Report_fault e reason code detail) (s\<lparr>g_port_ready := False\<rparr>) = None) \<and>
     exec System_mode (s\<lparr>g_port_ready := False\<rparr>) \<noteq> None"
proof -
  let ?s = "s\<lparr>g_port_ready := False\<rparr>"
  have inv: "fdir_inv ?s"
    using liveD(1) [OF assms(1)] by (simp add: fdir_inv_def port_inv_def ents_inv_def)
  have now: "\<not> g_port_ready v \<Longrightarrow> fdir_get_now_ms v = None" for v :: "'a fdir"
    by (simp add: fdir_get_now_ms_def)
  have emit: "\<not> g_port_ready v \<Longrightarrow> emit_event_full a b c d e f g h v = None" for v :: "'a fdir" and a b c d e f g h
    by (simp add: emit_event_full_def now Let_def)
  have "suppressed e reason ?s = suppressed e reason s" by (simp add: suppressed_def)
  then show ?thesis
    using init_bad [OF assms(2)]
    by (simp add: fdir_check_watchdogs_def fdir_log_note_def now emit Let_def fdir_report_fault_def
        report_fault_eq [OF inv])
qed

theorem failed_init_aborts_witness:
  "live demo \<and> \<not> port_is_valid (None :: nat fdir_port option) \<and>
   fst (fdir_init None None demo) = FDIR_ERR_PORT \<and> exec Check_watchdogs (demo\<lparr>g_port_ready := False\<rparr>) = None"
proof -
  have bad: "\<not> port_is_valid (None :: nat fdir_port option)" by (simp add: port_is_valid_def)
  show ?thesis
    using demo_live bad failed_init_aborts [OF demo_live [of 0] bad, of None] by simp
qed

text \<open>
  A successful \<open>fdir_init\<close> is a fresh start: whatever happened before, the library is in its boot
  state with the given port and configuration (the default one if none is given), in NOMINAL mode with
  supervision on, nothing registered, nothing latched and no report waiting; it makes no call to the
  application.
\<close>

theorem init_fresh_start:
  assumes "port_is_valid (Some p)"
  shows "fdir_init config (Some p) s =
     (FDIR_OK, (fdir_boot (env s))\<lparr>g_port := p, g_port_ready := True,
        g_config := (case config of None \<Rightarrow> fdir_config_default | Some c \<Rightarrow> c),
        g_supervision_enabled := 1, calls := calls s\<rparr>) \<and>
     live (snd (fdir_init config (Some p) s))"
  using init_ok [OF assms] init_ok_live [OF assms] by simp

theorem init_fresh_start_witness:
  "port_is_valid (Some demo_port) \<and> fst (fdir_init None (Some demo_port) demo) = FDIR_OK \<and>
   live (snd (fdir_init None (Some demo_port) demo))"
  using demo_port_valid init_fresh_start [OF demo_port_valid, of None demo] by (metis fst_conv)


subsection \<open>Registration\<close>

lemma registered_other: "registered i s \<Longrightarrow> xs[unat (g_entity_count s) := y] ! unat i = xs ! unat i"
  by (simp add: registered_def word_less_nat_alt)

definition register_status :: "'e fdir_entity_desc option \<Rightarrow> fdir_entity_id option \<Rightarrow> 'e fdir \<Rightarrow> fdir_status" where
  "register_status desc out_id s =
     (case (desc, out_id) of
        (Some d, Some _) \<Rightarrow>
          if unat (g_entity_count s) = FDIR_ENTITY_CAP then FDIR_ERR_FULL
          else if ed_on_exhausted d = FDIR_ACTION_RESTART then FDIR_ERR_PARAM else FDIR_OK
      | _ \<Rightarrow> FDIR_ERR_PARAM)"

lemma entity_register_effect:
  assumes "live s"
  shows "returns (fdir_entity_register desc out_id s) (\<lambda>((status, out'), s').
     status = register_status desc out_id s \<and>
     (if status \<noteq> FDIR_OK then out' = out_id \<and> outside s s'
      else out' = Some (g_entity_count s) \<and> g_entity_count s' = g_entity_count s + 1 \<and> fq s' = fq s \<and> sb s' = sb s \<and>
        g_mode s' = g_mode s \<and> g_supervision_enabled s' = g_supervision_enabled s \<and>
        (let slot = g_entities s' ! unat (g_entity_count s); name = ed_name (the desc) in
           es_desc slot = (the desc)\<lparr>ed_name := Some (case name of None \<Rightarrow> [] | Some n \<Rightarrow> take 31 (cstr n))\<rparr> \<and>
           es_restart_count slot = 0 \<and> es_watchdog_restart_count slot = 0 \<and>
           fdir_entity_name (g_entity_count s) s' = Some (case name of None \<Rightarrow> [] | Some n \<Rightarrow> take 31 (cstr n))) \<and>
        hs_health (g_health (hl s') ! unat (g_entity_count s)) = FDIR_HEALTH_OK \<and>
        (\<forall>i. registered i s \<longrightarrow> g_entities s' ! unat i = g_entities s ! unat i \<and>
           g_health (hl s') ! unat i = g_health (hl s) ! unat i)))"
  using liveD(1) [OF assms]
proof (cases rule: entity_register_cases [of s desc out_id])
  case (ok d nm)
  let ?c = "g_entity_count s"
  let ?s = "entity_added (new_entity_slot d nm (g_entities s ! unat ?c)) (fdir_port_sync_enter s)"
  have "cs_step True (fdir_port_sync_enter s) ?s"
    by (rule entity_added_step) (use ok in simp_all)
  then have live: "live ?s" using assms by (auto simp: cs_step_def lib_step_def live_def)
  have more: "?c < ?c + 1" using ok(2) count_inc [of ?c] by (simp add: word_less_nat_alt)
  have tr: "tracked ?c (hl ?s)"
    using more by (simp add: tracked_def entity_added_def fdir_health_set_entity_limit_def)
  obtain t e snap where reset: "fdir_health_reset_unsafe ?c ?s =
       Some ((ext (Call_now t) e ?s)\<lparr>hl := (hl ?s)\<lparr>g_health := (g_health (hl ?s))[unat ?c := snap]\<rparr>\<rparr>)"
    "hs_health snap = FDIR_HEALTH_OK"
    using reset_unsafe_tracked [OF liveD(5,3,2) [OF live] tr] by metis
  have len: "unat ?c < length (g_entities s)" "unat ?c < length (g_health (hl s))"
    using ok(2) liveD(5,7) [OF assms] by (simp_all add: ents_inv_def health_inv_def)
  show ?thesis
    unfolding ok(7) using ok(1-3,6,8) reset len more
    by (auto simp: register_status_def entity_added_def new_entity_slot_def fdir_health_set_entity_limit_def
        fdir_entity_name_def Let_def not_le registered_other split: option.splits)
next
  case param
  then show ?thesis by (auto simp: register_status_def outside_iff split: option.split)
next
  case full
  then show ?thesis by (auto simp: register_status_def outside_iff)
qed

text \<open>
  Registering an entity, on every branch. A null argument or RESTART as the exhaustion action is
  refused with ERR_PARAM, a full table with ERR_FULL, and then nothing changes. Otherwise the entity
  gets the next id, its name is the given one cut to 31 characters (and \<open>fdir_entity_name\<close> reads it
  back), its restart counters are zero, its health is OK, and the entities registered before are as
  they were; queue, subsystems, mode and supervision are not touched.
\<close>

theorem entity_register_spec:
  assumes "live s"
  shows "returns (fdir_entity_register desc out_id s) (\<lambda>((status, out'), s').
     status = register_status desc out_id s \<and>
     (if status \<noteq> FDIR_OK then out' = out_id \<and> outside s s'
      else out' = Some (g_entity_count s) \<and> g_entity_count s' = g_entity_count s + 1 \<and> fq s' = fq s \<and> sb s' = sb s \<and>
        g_mode s' = g_mode s \<and> g_supervision_enabled s' = g_supervision_enabled s \<and>
        (let slot = g_entities s' ! unat (g_entity_count s); name = ed_name (the desc) in
           es_desc slot = (the desc)\<lparr>ed_name := Some (case name of None \<Rightarrow> [] | Some n \<Rightarrow> take 31 (cstr n))\<rparr> \<and>
           es_restart_count slot = 0 \<and> es_watchdog_restart_count slot = 0 \<and>
           fdir_entity_name (g_entity_count s) s' = Some (case name of None \<Rightarrow> [] | Some n \<Rightarrow> take 31 (cstr n))) \<and>
        hs_health (g_health (hl s') ! unat (g_entity_count s)) = FDIR_HEALTH_OK \<and>
        (\<forall>i. registered i s \<longrightarrow> g_entities s' ! unat i = g_entities s ! unat i \<and>
           g_health (hl s') ! unat i = g_health (hl s) ! unat i)))"
  by (rule entity_register_effect [OF assms])

theorem entity_register_spec_witness:
  "live demo \<and> returns (fdir_entity_register (Some (demo_desc 0)) (Some 9) demo) (\<lambda>((status, out'), s').
     status = FDIR_OK \<and> out' = Some 1 \<and> fdir_entity_name 1 s' = Some ''sensor'')"
proof -
  have "returns (fdir_entity_register (Some (demo_desc 0)) (Some 9) demo) (\<lambda>((status, out'), s').
     status = FDIR_OK \<and> out' = Some 1 \<and> fdir_entity_name 1 s' = Some ''sensor'')"
    by (rule returns_mono [OF entity_register_spec [OF demo_live]])
      (auto simp: register_status_def demo_desc_def Let_def cstr_def)
  with demo_live show ?thesis by simp
qed

end
