(* ===== verification/Reporting.thy ===== *)
theory Reporting
  imports Commands
begin

text \<open>
  The path of a fault from the code that sees it to the supervisor: what reporting does to the queue
  and to the health record, the supervision gate, the supervisor's pass over the queue, and the gate
  of the workers.
\<close>

subsection \<open>Reporting a fault\<close>

lemma enqueue_cases:
  assumes "queue_inv q"
  obtains (room) q' where "unat (g_count q) < FDIR_FAILURE_QUEUE_CAP" "enqueue_failure_unsafe r q = Some (FDIR_OK, q')"
      "pending q' = pending q @ [r]" "g_full_latched q' = g_full_latched q"
  | (full) q' where "unat (g_count q) = FDIR_FAILURE_QUEUE_CAP"
      "enqueue_failure_unsafe r q = Some (if critical_flag r then FDIR_ERR_BUSY else FDIR_ERR_STATE, q')"
      "pending q' = pending q" "g_full_latched q' = 1"
proof (cases "unat (g_count q) < FDIR_FAILURE_QUEUE_CAP")
  case True
  obtain q' where "fdir_failure_queue_put_unsafe (Some r) q = Some (0, q')" "pending q' = pending q @ [r]"
    "g_full_latched q' = g_full_latched q"
    using put_unsafe_room [OF assms True] by metis
  then show ?thesis using room [OF True] by (simp add: enqueue_failure_unsafe_def)
next
  case False
  then have "unat (g_count q) = FDIR_FAILURE_QUEUE_CAP" using assms by (simp add: queue_inv_def)
  with put_unsafe_full [OF assms this] full show ?thesis by (simp add: enqueue_failure_unsafe_def)
qed

text \<open>The report that a call of \<open>fdir_report_fault_ex\<close> puts into the queue.\<close>

definition reports ::
  "fdir_entity_id \<Rightarrow> fdir_reason \<Rightarrow> u16 \<Rightarrow> string option \<Rightarrow> u8 \<Rightarrow> fdir_failure_report \<Rightarrow> bool" where
  "reports entity reason code detail flags r \<longleftrightarrow>
     rep_entity r = entity \<and> rep_reason r = reason \<and> rep_error_code r = code \<and> rep_flags r = flags \<and>
     cstr (rep_detail r) = (case detail of None \<Rightarrow> [] | Some d \<Rightarrow> take 31 (cstr d))"

lemma set_failed:
  assumes "health_inv h"
  obtains h' where "fdir_health_set_unsafe eid FDIR_HEALTH_FAILED code detail h = Some h'"
    "tracked eid h \<Longrightarrow> failed eid h'" "others_same eid h h'" "g_fault_latched h' = g_fault_latched h"
  using assms
proof (cases rule: set_unsafe_cases [of h eid FDIR_HEALTH_FAILED code detail])
  case (tracked snap)
  with tracked_index [OF assms] that show ?thesis
    by (simp add: failed_def tracked_def others_same_update)
qed (use that in auto)

lemma report_fault_effect:
  assumes "live s"
  shows "returns (fdir_report_fault_ex entity reason code detail flags s) (\<lambda>(status, s').
     outside (s\<lparr>fq := fq s', hl := hl s'\<rparr>) s' \<and>
     (if suppressed entity reason s then status = FDIR_OK \<and> fq s' = fq s \<and> hl s' = hl s
      else if length (pending (fq s)) < FDIR_FAILURE_QUEUE_CAP then
        status = FDIR_OK \<and>
        (\<exists>r. pending (fq s') = pending (fq s) @ [r] \<and> reports entity reason code detail flags r) \<and>
        (registered entity s \<longrightarrow> failed entity (hl s')) \<and> others_same entity (hl s) (hl s') \<and>
        g_fault_latched (hl s') = g_fault_latched (hl s)
      else
        status = (if flags AND FDIR_FAULT_FLAG_CRITICAL \<noteq> 0 then FDIR_ERR_BUSY else FDIR_ERR_STATE) \<and>
        pending (fq s') = pending (fq s) \<and> g_full_latched (fq s') = 1 \<and> hl s' = hl s))"
proof (cases "suppressed entity reason s")
  case True
  then show ?thesis
    unfolding fdir_report_fault_ex_def report_fault_eq [OF liveD(1) [OF assms]] by (simp add: outside_iff)
next
  case False
  let ?s = "fdir_port_sync_enter s"
  obtain now e where now: "fdir_get_now_ms ?s = Some (now, ext (Call_now now) e ?s)"
    using get_now_returns [of ?s] liveD(2,3) [of ?s] assms by (auto simp: returns_def)
  obtain d where d: "copy_detail (zero_buf 32) detail = Some d"
    "cstr d = (case detail of None \<Rightarrow> [] | Some d \<Rightarrow> take 31 (cstr d))"
    using copy_detail_32 [of "zero_buf 32" detail] by (metis length_zero_buf)
  let ?r = "\<lparr>rep_entity = entity, rep_reason = reason, rep_error_code = code, rep_detail = d,
    rep_timestamp_ms = now, rep_flags = flags\<rparr>"
  have r: "reports entity reason code detail flags ?r" by (simp add: reports_def d(2))
  have tr: "registered entity s \<longrightarrow> tracked entity (hl s)" using registered_tracked [OF liveD(1)] assms by blast
  obtain h' where h': "fdir_health_set_unsafe entity FDIR_HEALTH_FAILED code detail (hl s) = Some h'"
    "tracked entity (hl s) \<Longrightarrow> failed entity h'" "others_same entity (hl s) h'"
    "g_fault_latched h' = g_fault_latched (hl s)"
    using set_failed [OF liveD(5) [OF assms]] by metis
  note eq = report_fault_eq [OF liveD(1) [OF assms]]
  from liveD(4) [OF assms] show ?thesis
  proof (cases rule: enqueue_cases [of "fq s" ?r])
    case (room q')
    then show ?thesis
      unfolding fdir_report_fault_ex_def eq using False now d(1) h' r tr by (auto simp: outside_iff)
  next
    case (full q')
    then show ?thesis
      unfolding fdir_report_fault_ex_def eq using False now d(1)
      by (auto simp: outside_iff critical_flag_def)
  qed
qed

text \<open>
  C13. Reporting a fault, on every branch. A fault that is inhibited by the supervision gate, latched
  already, or about an entity that stands FAILED is accepted and changes nothing. Otherwise, if the
  queue has room, the report waits behind the others and the entity is FAILED at once, with its latch
  and the other entities' records as they were. If the queue is full, the caller is told so, BUSY for a
  critical report and ERR_STATE otherwise, the overflow latch is set, and the entity's record is
  unchanged, so that the report can be repeated.
\<close>

theorem report_fault_spec:
  assumes "live s"
  shows "returns (fdir_report_fault_ex entity reason code detail flags s) (\<lambda>(status, s').
     outside (s\<lparr>fq := fq s', hl := hl s'\<rparr>) s' \<and>
     (if suppressed entity reason s then status = FDIR_OK \<and> fq s' = fq s \<and> hl s' = hl s
      else if length (pending (fq s)) < FDIR_FAILURE_QUEUE_CAP then
        status = FDIR_OK \<and>
        (\<exists>r. pending (fq s') = pending (fq s) @ [r] \<and> reports entity reason code detail flags r) \<and>
        (registered entity s \<longrightarrow> failed entity (hl s')) \<and> others_same entity (hl s) (hl s') \<and>
        g_fault_latched (hl s') = g_fault_latched (hl s)
      else
        status = (if flags AND FDIR_FAULT_FLAG_CRITICAL \<noteq> 0 then FDIR_ERR_BUSY else FDIR_ERR_STATE) \<and>
        pending (fq s') = pending (fq s) \<and> g_full_latched (fq s') = 1 \<and> hl s' = hl s))"
  by (rule report_fault_effect [OF assms])

lemma demo_fresh: "pending (fq (demo_state rc)) = []" "\<not> suppressed 0 reason (demo_state rc)"
  using demo_unlatched by (simp_all add: suppressed_def ring.items_empty)

theorem report_fault_spec_witness:
  "live demo \<and> returns (fdir_report_fault_ex 0 FDIR_REASON_IO_ERROR 7 None 1 demo) (\<lambda>(status, s').
     status = FDIR_OK \<and> length (pending (fq s')) = 1 \<and> failed 0 (hl s'))"
proof -
  have "returns (fdir_report_fault_ex 0 FDIR_REASON_IO_ERROR 7 None 1 demo) (\<lambda>(status, s').
     status = FDIR_OK \<and> length (pending (fq s')) = 1 \<and> failed 0 (hl s'))"
    by (rule returns_mono [OF report_fault_spec [OF demo_live]]) (use demo_fresh in \<open>auto simp del: length_pending\<close>)
  with demo_live show ?thesis by simp
qed


subsection \<open>The supervision gate\<close>

lemma emit_note:
  assumes "live s"
  obtains s' t ev where
    "emit_event_full FDIR_EVENT_NOTE mode entity reason code level phase detail s = Some s'"
    "outside s s'" "calls s' = calls s @ [Call_now t, Call_emit ev]" "ev_kind ev = FDIR_EVENT_NOTE"
proof -
  obtain s' where s': "emit_event_full FDIR_EVENT_NOTE mode entity reason code level phase detail s = Some s'"
    using live_hooks_return(3) [OF assms] by (metis returnsE)
  then obtain t e e' ev where "s' = ext (Call_emit ev) e' (ext (Call_now t) e s)" "ev_kind ev = FDIR_EVENT_NOTE"
    using keepsD [OF emit_event_full_keeps s'] by (auto simp: full_event_def)
  with s' that show ?thesis by (auto simp: outside_iff)
qed

lemma supervision_gate_effect:
  assumes "live s"
  shows "returns (fdir_set_supervision_enabled b s) (\<lambda>(prev, s').
     prev = g_supervision_enabled s \<and>
     outside (s\<lparr>g_supervision_enabled := b, fq := fq s'\<rparr>) s' \<and>
     (if b = prev then fq s' = fq s \<and> emitted (since s s') = []
      else map ev_kind (emitted (since s s')) = [FDIR_EVENT_NOTE] \<and>
        (if b = 0 then pending (fq s') = [] \<and> g_full_latched (fq s') = 0 else fq s' = fq s)))"
proof (cases "b = g_supervision_enabled s")
  case True
  then show ?thesis
    by (simp add: fdir_set_supervision_enabled_def Let_def outside_iff since_def calls_sync_enter calls_sync_exit)
next
  case False
  define u where "u = (fdir_port_sync_enter s)\<lparr>g_supervision_enabled := b,
      fq := (if b = 0 then fdir_failure_queue_init (fq s) else fq s)\<rparr>"
  have fq_same: "v\<lparr>fq := fq s\<rparr> = v" if "fq v = fq s" for v :: "'a fdir" using that by (cases v) simp
  have "fdir_inv (fdir_port_sync_enter s)" using liveD(1) [of "fdir_port_sync_enter s"] assms by simp
  then have "live u"
    using liveD(2) [OF assms] by (simp add: u_def live_def fdir_inv_def port_inv_def ents_inv_def)
  obtain s' t ev where s': "emit_event_full FDIR_EVENT_NOTE (g_mode u) FDIR_ENTITY_NONE FDIR_REASON_USER 0
      FDIR_LEVEL_SYSTEM FDIR_ANOMALY_RAISED
      (Some (if b \<noteq> 0 then ''supervision_enabled'' else ''supervision_disabled'')) u = Some s'"
    "outside u s'" "calls s' = calls u @ [Call_now t, Call_emit ev]" "ev_kind ev = FDIR_EVENT_NOTE"
    by (rule emit_note [OF \<open>live u\<close>])
  have "fdir_set_supervision_enabled b s = Some (g_supervision_enabled s, fdir_port_sync_exit s')"
    using False s'(1) by (simp add: fdir_set_supervision_enabled_def Let_def u_def fq_same split: if_splits)
  then show ?thesis
    using False s'(2,3,4)
    by (auto simp: u_def outside_iff since_def calls_sync_enter calls_sync_exit pending_Nil_iff
        fdir_failure_queue_init_def)
qed

text \<open>
  The supervision gate: the call answers the old setting and installs the new one. Setting the
  value it has does nothing. A change is announced with one NOTE event, and switching supervision off
  throws away the reports that wait and clears the overflow latch; nothing else changes.
\<close>

theorem supervision_gate_spec:
  assumes "live s"
  shows "returns (fdir_set_supervision_enabled b s) (\<lambda>(prev, s').
     prev = g_supervision_enabled s \<and>
     outside (s\<lparr>g_supervision_enabled := b, fq := fq s'\<rparr>) s' \<and>
     (if b = prev then fq s' = fq s \<and> emitted (since s s') = []
      else map ev_kind (emitted (since s s')) = [FDIR_EVENT_NOTE] \<and>
        (if b = 0 then pending (fq s') = [] \<and> g_full_latched (fq s') = 0 else fq s' = fq s)))"
  by (rule supervision_gate_effect [OF assms])

theorem supervision_gate_spec_witness:
  "live demo \<and> returns (fdir_set_supervision_enabled 0 demo) (\<lambda>(prev, s'). prev = 1 \<and> pending (fq s') = [])"
  using demo_live by (auto intro!: returns_mono [OF supervision_gate_spec [OF demo_live [of 0], of 0]])

text \<open>
  C17. With supervision off the library is inert: reporting or submitting a fault, handling a report,
  the supervisor's tick and the watchdog scan return normally and change no variable of the library, and of
  all hooks they call at most the port's lock, unlock and clock: no event is emitted, nothing is restarted,
  no decision, escalation or subsystem hook runs, and no reboot is asked for.
\<close>

theorem supervision_off_inert:
  assumes "live s" "g_supervision_enabled s = 0"
    "c \<in> {Handle_failure r, Report_fault e reason code detail, Submit_failure r, Supervisor_tick, Check_watchdogs}"
  shows "returns (exec c s) (\<lambda>s'. outside s s' \<and>
     (\<forall>call \<in> set (since s s'). call \<in> {Call_lock, Call_unlock} \<or> (\<exists>t. call = Call_now t)))"
proof -
  let ?x = "fdir_port_sync_exit (fdir_port_sync_enter s)"
  obtain now e where now: "fdir_get_now_ms s = Some (now, ext (Call_now now) e s)"
    using get_now_returns [of s] liveD [OF assms(1)] by (auto simp: returns_def)
  have "exec c s \<in> {Some s, Some ?x, Some (fdir_port_sync_exit (fdir_port_sync_enter (ext (Call_now now) e s)))}"
    using assms(2,3)
    by (cases r) (auto simp: fdir_handle_failure_def fdir_report_fault_def report_fault_eq [OF liveD(1) [OF assms(1)]]
        suppressed_def fdir_submit_failure_def fdir_supervisor_tick_def fdir_check_watchdogs_def
        supervision_enabled_eq now Let_def)
  then show ?thesis
    by (auto simp: outside_iff since_def calls_sync_enter calls_sync_exit)
qed

theorem supervision_off_inert_witness:
  "live (demo\<lparr>g_supervision_enabled := 0\<rparr>) \<and> g_supervision_enabled (demo\<lparr>g_supervision_enabled := 0\<rparr>) = 0 \<and>
   returns (exec Supervisor_tick (demo\<lparr>g_supervision_enabled := 0\<rparr>)) (outside (demo\<lparr>g_supervision_enabled := 0\<rparr>))"
proof -
  have live: "live (demo\<lparr>g_supervision_enabled := 0\<rparr>)"
    using demo_live [of 0] by (simp add: live_def fdir_inv_def port_inv_def ents_inv_def)
  then have "returns (exec Supervisor_tick (demo\<lparr>g_supervision_enabled := 0\<rparr>)) (outside (demo\<lparr>g_supervision_enabled := 0\<rparr>))"
    by (intro returns_mono [OF supervision_off_inert [OF live, of Supervisor_tick]]) simp_all
  with live show ?thesis by simp
qed


subsection \<open>The supervisor's pass over the queue\<close>

text \<open>The reference: the reports that wait when the pass starts, handled in their order.\<close>

definition popped :: "failure_queue \<Rightarrow> failure_queue" where
  "popped q = q\<lparr>g_head := of_nat ((unat (g_head q) + 1) mod FDIR_FAILURE_QUEUE_CAP), g_count := g_count q - 1\<rparr>"

fun handle_all :: "fdir_failure_report list \<Rightarrow> 'e fdir \<Rightarrow> 'e fdir option" where
  "handle_all [] s = Some (fdir_port_sync_exit ((fdir_port_sync_enter s)\<lparr>fq := fq s\<rparr>))"
| "handle_all (r # rs) s =
     Option.bind (fdir_handle_failure (Some r) (fdir_port_sync_exit ((fdir_port_sync_enter s)\<lparr>fq := popped (fq s)\<rparr>)))
       (handle_all rs)"

lemma get_locked_popped:
  assumes "queue_inv q" "pending q = x # xs"
  shows "queue_get_locked out q = Some (0, x, popped q)" "queue_inv (popped q)" "pending (popped q) = xs"
proof -
  obtain q' where q': "queue_get_locked out q = Some (0, hd (pending q), q')" "queue_inv q'" "pending q' = tl (pending q)"
    using get_locked_some [OF assms(1)] assms(2) by (metis list.distinct(1))
  then have "q' = popped q" by (auto simp: queue_get_locked_def popped_def split: if_splits bind_splits)
  with q' assms(2) show "queue_get_locked out q = Some (0, x, popped q)" "queue_inv (popped q)" "pending (popped q) = xs"
    by simp_all
qed

lemma drain_queue_handle_all: "queue_inv (fq s) \<Longrightarrow> drain_queue r s = handle_all (pending (fq s)) s"
proof (induction "pending (fq s)" arbitrary: r s)
  case Nil
  then show ?case by (simp add: drain_queue_empty)
next
  case (Cons x xs)
  note get = get_locked_popped [OF Cons.prems Cons.hyps(2) [symmetric]]
  let ?x = "fdir_port_sync_exit ((fdir_port_sync_enter s)\<lparr>fq := popped (fq s)\<rparr>)"
  have "drain_queue r s = Option.bind (fdir_handle_failure (Some x) ?x) (drain_queue x)"
    using get by (subst drain_queue.simps) (simp add: fdir_failure_queue_get_def Let_def)
  also have "\<dots> = Option.bind (fdir_handle_failure (Some x) ?x) (handle_all xs)"
  proof (rule Option.bind_cong [OF refl])
    fix t assume "fdir_handle_failure (Some x) ?x = Some t"
    then have "fq t = popped (fq s)" using keepsD [OF handle_failure_fq, of "Some x" ?x t] by simp
    with get show "drain_queue x t = handle_all xs t" using Cons.hyps(1) [of t x] by simp
  qed
  finally show ?case using Cons.hyps(2) [symmetric] by simp
qed

text \<open>
  C6. A tick handles every report that waits when it starts, each exactly once and in the order in
  which they were reported, and then scans the watchdogs; it returns with an empty queue. The
  loop-until-empty of the code is the fold over the queue's content.
\<close>

theorem tick_handles_pending:
  assumes "live s" "g_supervision_enabled s \<noteq> 0"
  shows "fdir_supervisor_tick s =
       Option.bind (handle_all (pending (fq s)) (fdir_port_sync_exit (fdir_port_sync_enter s))) fdir_check_watchdogs \<and>
     returns (fdir_supervisor_tick s) (\<lambda>s'. pending (fq s') = [])"
proof
  show "fdir_supervisor_tick s =
       Option.bind (handle_all (pending (fq s)) (fdir_port_sync_exit (fdir_port_sync_enter s))) fdir_check_watchdogs"
    using assms(2) liveD(4) [OF assms(1)] drain_queue_handle_all [of "fdir_port_sync_exit (fdir_port_sync_enter s)"]
    by (simp add: fdir_supervisor_tick_def supervision_enabled_eq)
  show "returns (fdir_supervisor_tick s) (\<lambda>s'. pending (fq s') = [])"
    using returns_conj [OF supervisor_tick_returns [OF assms(1)] supervisor_tick_keeps [OF liveD(1) [OF assms(1)]]] assms(2)
    by (auto elim: returns_mono)
qed

theorem tick_handles_pending_witness:
  "live demo \<and> g_supervision_enabled demo \<noteq> 0 \<and> returns (fdir_supervisor_tick demo) (\<lambda>s'. pending (fq s') = [])"
  using demo_live conjunct2 [OF tick_handles_pending [OF demo_live [of 0]]] by simp


subsection \<open>The gate of the workers\<close>

lemma worker_gate_effect:
  assumes "live s"
  shows "returns (fdir_worker_may_run eid s) (\<lambda>(run, s').
     (if FDIR_MODE_SAFE \<le> g_mode s then
        run = 0 \<and> (registered eid s \<longrightarrow> (\<exists>t. Call_now t \<in> set (since s s') \<and>
           hs_last_heartbeat_ms (g_health (hl s') ! unat eid) = t))
      else outside s s' \<and>
        (run \<noteq> 0 \<longleftrightarrow> g_supervision_enabled s = 0 \<or> registered eid s \<and> \<not> failed eid (hl s))))"
proof (cases "FDIR_MODE_SAFE \<le> g_mode s")
  case True
  let ?x = "fdir_port_sync_exit (fdir_port_sync_enter s)"
  have eq: "fdir_worker_may_run eid s = Option.bind (fdir_health_heartbeat_notify eid ?x) (\<lambda>s. Some (0, s))"
    using True by (simp add: fdir_worker_may_run_def system_mode_eq)
  have x: "fdir_inv ?x" using liveD(1) [OF assms] by simp
  then show ?thesis
  proof (cases rule: heartbeat_cases [of ?x eid])
    case unknown
    then have "\<not> registered eid s" using registered_tracked [OF x, of eid] by (auto simp: registered_def)
    then show ?thesis using True unknown(2) eq by simp
  next
    case known
    let ?y = "fdir_port_sync_enter ?x"
    obtain now e where now: "fdir_get_now_ms ?y = Some (now, ext (Call_now now) e ?y)"
      using get_now_returns [of ?y] liveD(2,3) [of ?y] assms by (auto simp: returns_def)
    show ?thesis
      using True known now eq tracked_index [OF liveD(5) [OF assms], of eid]
      by (auto simp: since_def calls_sync_enter calls_sync_exit tracked_def)
  qed
next
  case False
  let ?x = "fdir_port_sync_exit (fdir_port_sync_enter s)"
  have "fdir_inv ?x" using liveD(1) [OF assms] by simp
  from entity_may_run_eq [OF this, of eid] False show ?thesis
    by (auto simp: fdir_worker_may_run_def system_mode_eq outside_iff not_le registered_def)
qed

text \<open>
  C19. What a worker is told, while supervision is on or the mode is below SAFE: in SAFE mode or with a
  reboot pending it is told to wait, and its heartbeat is recorded; below SAFE it may run if supervision is
  off, or if it is a registered entity that does not stand FAILED.
\<close>

theorem worker_gate_spec:
  assumes "live s" "g_supervision_enabled s \<noteq> 0 \<or> g_mode s < FDIR_MODE_SAFE"
  shows "returns (fdir_worker_may_run eid s) (\<lambda>(run, s').
     (if FDIR_MODE_SAFE \<le> g_mode s then
        run = 0 \<and> (registered eid s \<longrightarrow> (\<exists>t. Call_now t \<in> set (since s s') \<and>
           hs_last_heartbeat_ms (g_health (hl s') ! unat eid) = t))
      else outside s s' \<and>
        (run \<noteq> 0 \<longleftrightarrow> g_supervision_enabled s = 0 \<or> registered eid s \<and> \<not> failed eid (hl s))))"
  by (rule worker_gate_effect [OF assms(1)])

text \<open>The worker of the demo application: it may run, and in SAFE mode it waits and gives its heartbeat.\<close>

theorem worker_gate_spec_witness:
  "live demo \<and> returns (fdir_worker_may_run 0 demo) (\<lambda>(run, s'). run \<noteq> 0 \<and> outside demo s') \<and>
   live (demo\<lparr>g_mode := FDIR_MODE_SAFE\<rparr>) \<and> g_supervision_enabled (demo\<lparr>g_mode := FDIR_MODE_SAFE\<rparr>) \<noteq> 0 \<and>
   returns (fdir_worker_may_run 0 (demo\<lparr>g_mode := FDIR_MODE_SAFE\<rparr>)) (\<lambda>(run, s'). run = 0 \<and>
     (\<exists>t. Call_now t \<in> set (since (demo\<lparr>g_mode := FDIR_MODE_SAFE\<rparr>) s') \<and> hs_last_heartbeat_ms (g_health (hl s') ! 0) = t))"
proof -
  have live: "live (demo\<lparr>g_mode := FDIR_MODE_SAFE\<rparr>)"
    using demo_live [of 0] by (simp add: live_def fdir_inv_def port_inv_def ents_inv_def mode_ok_def fdir_mode_order)
  have "returns (fdir_worker_may_run 0 (demo\<lparr>g_mode := FDIR_MODE_SAFE\<rparr>)) (\<lambda>(run, s'). run = 0 \<and>
     (\<exists>t. Call_now t \<in> set (since (demo\<lparr>g_mode := FDIR_MODE_SAFE\<rparr>) s') \<and> hs_last_heartbeat_ms (g_health (hl s') ! 0) = t))"
    by (rule returns_mono [OF worker_gate_spec [OF live]]) (auto simp: registered_def)
  moreover have "returns (fdir_worker_may_run 0 demo) (\<lambda>(run, s'). run \<noteq> 0 \<and> outside demo s')"
    by (rule returns_mono [OF worker_gate_spec [OF demo_live [of 0]]]) (auto simp: fdir_mode_order)
  ultimately show ?thesis using demo_live live by simp
qed

text \<open>
  With supervision off a worker is still held back in SAFE mode: \<open>fdir_worker_may_run\<close> looks at the mode
  before it looks at the gate. \<open>docs/integration.md\<close> and \<open>docs/api.md\<close> promise that workers are
  not gated while supervision is off.
\<close>

lemma worker_held_in_safe_mode:
  assumes "live s" "g_supervision_enabled s = 0" "FDIR_MODE_SAFE \<le> g_mode s"
  shows "returns (fdir_worker_may_run eid s) (\<lambda>(run, _). run = 0)"
  by (rule returns_mono [OF worker_gate_effect [OF assms(1), of eid]]) (use assms(3) in \<open>auto split: if_splits\<close>)

end
