(* ===== verification/Client.thy ===== *)
theory Client
  imports Reporting
begin

text \<open>
  What a program built on the library can rely on at every call it makes: in a live state the call
  returns, keeps the contract of the API, and so leaves a live state for the next call.
\<close>

text \<open>A step of a program: it returns and keeps the contract of the API.\<close>

abbreviation steps :: "'e fdir option \<Rightarrow> 'e fdir \<Rightarrow> bool" where
  "steps m s \<equiv> returns m (api_step True s)"

lemma api_step_env: "live s \<Longrightarrow> api_step True s (s\<lparr>env := e\<rparr>)"
  by (auto simp: live_def api_step_def lib_step_def fdir_inv_def port_inv_def ents_inv_def intro!: exI [of _ "[]"])

lemma live_env: "live (s\<lparr>env := e\<rparr>) = live s"
  by (simp add: live_def fdir_inv_def port_inv_def ents_inv_def)

lemma returns_with: "returns m (\<lambda>_. True) \<Longrightarrow> keeps m P \<Longrightarrow> returns m P"
  by (auto simp: returns_def keeps_def)

lemma call_steps:
  assumes "live s"
  shows "steps (fdir_health_heartbeat_notify eid s) s" "steps (fdir_supervisor_tick s) s"
    "steps (fdir_subsystem_mark_unavailable sid s) s" "steps (fdir_reassess_system_mode s) s"
    "returns (fdir_report_fault eid reason code detail s) (\<lambda>(_, s'). api_step True s s')"
    "returns (fdir_subsystem_register sd so s) (\<lambda>(_, s'). api_step True s s')"
    "returns (fdir_entity_register ed eo s) (\<lambda>(_, s'). api_step True s s')"
    "returns (fdir_worker_may_run eid s) (\<lambda>(_, s'). api_step True s s')"
  unfolding fdir_report_fault_def
  using liveD(1) [OF assms]
    returns_with [OF health_returns(3) [OF assms, of eid] heartbeat_keeps]
    returns_with [OF supervisor_tick_returns [OF assms] keeps_mono [OF supervisor_tick_keeps]]
    returns_with [OF api_marks_return(2) [OF assms, of sid] marks_keep(2)]
    returns_with [OF mode_commands_return(3) [OF assms] mode_commands_keep(3)]
    returns_with [OF report_fault_returns [OF assms] report_fault_keeps]
    returns_with [OF subsystem_register_returns [OF assms] subsystem_register_keeps]
    returns_with [OF entity_register_returns [OF assms] entity_register_keeps]
    returns_with [OF worker_returns [OF assms, of eid] worker_keeps]
  by simp_all

lemma api_step_mode:
  assumes "live s" "api_step True s s'"
  shows "g_mode s \<le> g_mode s'"
proof -
  have "lib_step L True s s' \<Longrightarrow> ?thesis" for L
    using liveD(8) [OF assms(1)] by (simp add: lib_step_def)
  with assms(2) show ?thesis unfolding api_step_def by blast
qed

text \<open>Running one call of a program and going on from a live state.\<close>

lemma next_call:
  assumes "live s" "steps m s" "\<And>t. live t \<Longrightarrow> api_step True s t \<Longrightarrow> returns (k t) P"
  shows "returns (Option.bind m k) P"
  using assms(2) by (rule returns_bindI) (blast intro: assms(3) api_step_live [OF _ assms(1)])

lemma next_call_pair:
  assumes "live s" "returns m (\<lambda>(_, s'). api_step True s s')"
    "\<And>x t. live t \<Longrightarrow> api_step True s t \<Longrightarrow> returns (k (x, t)) P"
  shows "returns (Option.bind m k) P"
  using assms(2) by (rule returns_bindI) (use assms(3) api_step_live [OF _ assms(1)] in \<open>auto split: prod.splits\<close>)



subsection \<open>Shared pieces of the example programs\<close>

text \<open>The operating system's \<open>clock_gettime\<close>: seconds and nanoseconds, and the clock's next state.\<close>

type_synonym 'c clock = "'c \<Rightarrow> (int \<times> int) \<times> 'c"

text \<open>\<open>printf\<close>'s \<open>%-ns\<close>.\<close>

definition pad :: "nat \<Rightarrow> string \<Rightarrow> string" where
  "pad n str = str @ replicate (n - length str) (CHR '' '')"

fun kind_name :: "fdir_event_kind \<Rightarrow> string" where
  "kind_name FDIR_EVENT_FAILURE = ''FAILURE''"
| "kind_name FDIR_EVENT_MODE_CHANGE = ''MODE_CHANGE''"
| "kind_name FDIR_EVENT_RESTART = ''RESTART''"
| "kind_name FDIR_EVENT_WATCHDOG = ''WATCHDOG''"
| "kind_name FDIR_EVENT_NOTE = ''NOTE''"
| "kind_name FDIR_EVENT_QUEUE_OVERFLOW = ''QUEUE_OVF''"

definition dec_int :: "int \<Rightarrow> string" where
  "dec_int i = (if i < 0 then ''-'' @ dec (nat (- i)) else dec (nat i))"

end
