(* ===== verification/Dual_Path.thy ===== *)
theory Dual_Path
  imports Client Supervised
begin

text \<open>
  \<open>examples/dual_path/main.c\<close>: two entities with decision hooks on two critical-path subsystems, driven
  through three scenarios. The environment of the library is the application's own static state, its
  output and the operating system's clock; \<open>clock_gettime\<close> is a parameter.
\<close>

subsection \<open>The application's state and its port\<close>

record 'c dual_env =
  os :: 'c
  g_link_up :: int
  g_downlink_restarts :: int
  g_storage_restarts :: int
  stdout :: "string list"

definition platform_now_ms :: "'c clock \<Rightarrow> 'c dual_env \<Rightarrow> u32 \<times> 'c dual_env" where
  "platform_now_ms clock_gettime e =
     (let ((tv_sec, tv_nsec), c) = clock_gettime (os e)
      in (word_of_int (tv_sec * 1000 + tv_nsec div 1000000), e\<lparr>os := c\<rparr>))"

definition say :: "string \<Rightarrow> 'c dual_env \<Rightarrow> 'c dual_env" where
  "say line e = e\<lparr>stdout := stdout e @ [line]\<rparr>"

definition platform_emit :: "fdir_event \<Rightarrow> 'c dual_env \<Rightarrow> 'c dual_env" where
  "platform_emit event e =
     say (''  [fdir] '' @ pad 12 (kind_name (ev_kind event)) @ '' entity='' @ pad 3 (dec (unat (ev_entity event)))
          @ '' '' @ [CHR 0x22] @ cstr (ev_detail event) @ [CHR 0x22]) e"

definition platform_reboot :: "string \<Rightarrow> 'c dual_env \<Rightarrow> 'c dual_env" where
  "platform_reboot reason e = say (''  [fdir] reboot: '' @ reason) e"

fun mode_name :: "fdir_mode \<Rightarrow> string" where
  "mode_name FDIR_MODE_NOMINAL = ''NOMINAL''"
| "mode_name FDIR_MODE_DEGRADED = ''DEGRADED''"
| "mode_name FDIR_MODE_SAFE = ''SAFE''"
| "mode_name FDIR_MODE_REBOOT_PENDING = ''REBOOT_PENDING''"
| "mode_name (FDIR_MODE_OTHER n) = ''?''"

definition downlink_restart :: "'c dual_env restart_fn" where
  "downlink_restart eid user e =
     (let e = e\<lparr>g_downlink_restarts := g_downlink_restarts e + 1\<rparr>
      in (0, say (''  [app] downlink restarted ('' @ dec_int (g_downlink_restarts e) @ '')'') e))"

definition storage_restart :: "'c dual_env restart_fn" where
  "storage_restart eid user e =
     (let e = e\<lparr>g_storage_restarts := g_storage_restarts e + 1\<rparr>
      in (0, say (''  [app] storage restarted ('' @ dec_int (g_storage_restarts e) @ '')'') e))"

definition downlink_decide :: "'c dual_env decide_fn" where
  "downlink_decide eid report restarts_used wd_restarts_used user e =
     (if g_link_up e = 0 \<and> rep_reason report \<noteq> FDIR_REASON_WATCHDOG then (FDIR_ACTION_DEGRADE, e)
      else (FDIR_ACTION_NONE, e))"

definition storage_decide :: "'c dual_env decide_fn" where
  "storage_decide eid report restarts_used wd_restarts_used user e =
     (if rep_reason report = FDIR_REASON_INIT_FAILED then (FDIR_ACTION_UNAVAILABLE, e)
      else (FDIR_ACTION_NONE, e))"

definition app_port :: "'c clock \<Rightarrow> 'c dual_env fdir_port" where
  "app_port clock_gettime =
     zero_port\<lparr>get_now_ms := Some (platform_now_ms clock_gettime), emit_event := Some platform_emit,
               request_reboot := Some platform_reboot\<rparr>"

text \<open>The message of a failed initialisation goes to \<open>stderr\<close>, which is not modelled.\<close>

definition init_fdir :: "'c clock \<Rightarrow> 'c dual_env fdir_config \<Rightarrow> 'c dual_env fdir \<Rightarrow> int \<times> 'c dual_env fdir" where
  "init_fdir clock_gettime cfg s =
     (let port = app_port clock_gettime;
          (status, s) = fdir_init (Some cfg) (Some port) s
      in if status \<noteq> FDIR_OK then (- 1, s) else (0, s))"

definition print :: "string \<Rightarrow> 'c dual_env fdir \<Rightarrow> 'c dual_env fdir" where
  "print line s = s\<lparr>env := say line (env s)\<rparr>"

text \<open>\<open>worker_loop\<close>, with the number of iterations left.\<close>

fun worker_loop :: "fdir_entity_id \<Rightarrow> nat \<Rightarrow> 'c dual_env fdir \<Rightarrow> 'c dual_env fdir option" where
  "worker_loop eid 0 s = Some s"
| "worker_loop eid (Suc n) s =
     do {
       (may_run, s) \<leftarrow> fdir_worker_may_run eid s;
       if may_run = 0 then do {
         let (mode, s) = fdir_system_mode s;
         Some (print (''  [app] entity '' @ dec (unat eid) @ '' waiting (mode='' @ mode_name mode @ '')'') s)
       }
       else do {
         s \<leftarrow> fdir_health_heartbeat_notify eid s;
         worker_loop eid n s
       }
     }"

definition supervisor :: "'c dual_env fdir \<Rightarrow> 'c dual_env fdir option" where
  "supervisor s = fdir_supervisor_tick s"


subsection \<open>The main program\<close>

definition main_cfg :: "'c dual_env fdir_config" where
  "main_cfg = fdir_config_default\<lparr>health_check_period_ms := 500, missed_heartbeat_tolerance := 2,
     safe_mode_critical_failure_threshold := 2\<rparr>"

definition sub_dl :: "'c dual_env fdir_subsystem_desc" where
  "sub_dl = zero_subsystem_desc\<lparr>sd_name := Some ''downlink'', sd_is_critical_path := 1\<rparr>"

definition sub_st :: "'c dual_env fdir_subsystem_desc" where
  "sub_st = zero_subsystem_desc\<lparr>sd_name := Some ''storage'', sd_is_critical_path := 1\<rparr>"

definition dl_desc :: "fdir_subsystem_id \<Rightarrow> 'c dual_env fdir_entity_desc" where
  "dl_desc g_sub_downlink =
     zero_entity_desc\<lparr>ed_name := Some ''downlink'', ed_max_restarts := 1, ed_max_watchdog_restarts := 1,
       ed_on_exhausted := FDIR_ACTION_REBOOT, ed_linked_subsystem := g_sub_downlink,
       ed_restart := Some downlink_restart, ed_decide := Some downlink_decide\<rparr>"

definition st_desc :: "fdir_subsystem_id \<Rightarrow> 'c dual_env fdir_entity_desc" where
  "st_desc g_sub_storage =
     zero_entity_desc\<lparr>ed_name := Some ''storage'', ed_max_restarts := 1, ed_max_watchdog_restarts := 1,
       ed_on_exhausted := FDIR_ACTION_UNAVAILABLE, ed_linked_subsystem := g_sub_storage,
       ed_restart := Some storage_restart, ed_decide := Some storage_decide\<rparr>"

text \<open>
  The two kinds of registration calls of \<open>main\<close>, with the static variable that receives the id; the
  status is ignored, as in the source.
\<close>

definition register_sub ::
  "'c dual_env fdir_subsystem_desc \<Rightarrow> fdir_subsystem_id \<Rightarrow> 'c dual_env fdir
     \<Rightarrow> (fdir_subsystem_id \<times> 'c dual_env fdir) option" where
  "register_sub desc sid s =
     do {
       ((_, out), s) \<leftarrow> fdir_subsystem_register (Some desc) (Some sid) s;
       Some (case out of None \<Rightarrow> sid | Some x \<Rightarrow> x, s)
     }"

definition register_ent ::
  "'c dual_env fdir_entity_desc \<Rightarrow> fdir_entity_id \<Rightarrow> 'c dual_env fdir
     \<Rightarrow> (fdir_entity_id \<times> 'c dual_env fdir) option" where
  "register_ent desc eid s =
     do {
       ((_, out), s) \<leftarrow> fdir_entity_register (Some desc) (Some eid) s;
       Some (case out of None \<Rightarrow> eid | Some x \<Rightarrow> x, s)
     }"

text \<open>\<open>printf ("mode: %s" \<dots>, mode_name (fdir_system_mode ()))\<close>, followed by the text \<open>rest\<close>.\<close>

definition print_mode :: "string \<Rightarrow> 'c dual_env fdir \<Rightarrow> 'c dual_env fdir" where
  "print_mode rest s = (let (mode, s) = fdir_system_mode s in print (''mode: '' @ mode_name mode @ rest) s)"

text \<open>
  The three scenarios, the second and the third ending with the rest of \<open>main\<close>; the arguments are the
  variables of \<open>main\<close> and the static variables that they read.
\<close>

definition scenario3 ::
  "'c clock \<Rightarrow> 'c dual_env fdir_entity_desc \<Rightarrow> 'c dual_env fdir_entity_desc \<Rightarrow>
   fdir_subsystem_id \<Rightarrow> fdir_subsystem_id \<Rightarrow> fdir_entity_id \<Rightarrow> fdir_entity_id \<Rightarrow>
   'c dual_env fdir \<Rightarrow> (int \<times> 'c dual_env fdir) option" where
  "scenario3 clock_gettime dl st g_sub_downlink g_sub_storage g_downlink g_storage s =
     do {
       let s = print ''--- scenario 3: both critical paths unavailable -> SAFE ---'' s;
       let (rc, s) = init_fdir clock_gettime main_cfg s;
       if rc \<noteq> 0 then Some (1, s)
       else do {
         (g_sub_downlink, s) \<leftarrow> register_sub sub_dl g_sub_downlink s;
         (g_sub_storage, s) \<leftarrow> register_sub sub_st g_sub_storage s;
         (g_downlink, s) \<leftarrow> register_ent dl g_downlink s;
         (g_storage, s) \<leftarrow> register_ent st g_storage s;
         s \<leftarrow> fdir_health_heartbeat_notify g_downlink s;
         s \<leftarrow> fdir_health_heartbeat_notify g_storage s;
         s \<leftarrow> fdir_subsystem_mark_unavailable g_sub_downlink s;
         s \<leftarrow> fdir_subsystem_mark_unavailable g_sub_storage s;
         s \<leftarrow> fdir_reassess_system_mode s;
         s \<leftarrow> worker_loop g_downlink 2 s;
         let s = print_mode [] s;
         Some (0, s)
       }
     }"

definition scenario2 ::
  "'c clock \<Rightarrow> 'c dual_env fdir_entity_desc \<Rightarrow> 'c dual_env fdir_entity_desc \<Rightarrow>
   fdir_subsystem_id \<Rightarrow> fdir_subsystem_id \<Rightarrow> fdir_entity_id \<Rightarrow> fdir_entity_id \<Rightarrow>
   'c dual_env fdir \<Rightarrow> (int \<times> 'c dual_env fdir) option" where
  "scenario2 clock_gettime dl st g_sub_downlink g_sub_storage g_downlink g_storage s =
     do {
       let s = print ''--- scenario 2: storage init fail -> unavailable ---'' s;
       let s = s\<lparr>env := (env s)\<lparr>g_link_up := 1\<rparr>\<rparr>;
       let (rc, s) = init_fdir clock_gettime main_cfg s;
       if rc \<noteq> 0 then Some (1, s)
       else do {
         (g_sub_downlink, s) \<leftarrow> register_sub sub_dl g_sub_downlink s;
         (g_sub_storage, s) \<leftarrow> register_sub sub_st g_sub_storage s;
         (g_downlink, s) \<leftarrow> register_ent dl g_downlink s;
         (g_storage, s) \<leftarrow> register_ent st g_storage s;
         (_, s) \<leftarrow> fdir_report_fault g_storage FDIR_REASON_INIT_FAILED 0 (Some ''sd_card_init'') s;
         s \<leftarrow> supervisor s;
         available \<leftarrow> fdir_subsystem_is_available g_sub_storage (sb s);
         let s = print_mode (''  storage available='' @ dec (unat available)) s;
         scenario3 clock_gettime dl st g_sub_downlink g_sub_storage g_downlink g_storage s
       }
     }"

definition scenario1 :: "fdir_entity_id \<Rightarrow> 'c dual_env fdir \<Rightarrow> 'c dual_env fdir option" where
  "scenario1 g_downlink s =
     do {
       let s = print ''--- scenario 1: link loss -> DEGRADED (no restart) ---'' s;
       let s = s\<lparr>env := (env s)\<lparr>g_link_up := 0\<rparr>\<rparr>;
       (_, s) \<leftarrow> fdir_report_fault g_downlink FDIR_REASON_IO_ERROR 1 (Some ''link_los'') s;
       s \<leftarrow> supervisor s;
       s \<leftarrow> worker_loop g_downlink 3 s;
       Some (print_mode (''  downlink_restarts='' @ dec_int (g_downlink_restarts (env s))) s)
     }"

definition main :: "'c clock \<Rightarrow> 'c dual_env fdir \<Rightarrow> (int \<times> 'c dual_env fdir) option" where
  "main clock_gettime s =
     do {
       let (rc, s) = init_fdir clock_gettime main_cfg s;
       if rc \<noteq> 0 then Some (1, s)
       else do {
         (g_sub_downlink, s) \<leftarrow> register_sub sub_dl 0 s;
         (g_sub_storage, s) \<leftarrow> register_sub sub_st 0 s;
         let dl = dl_desc g_sub_downlink;
         let st = st_desc g_sub_storage;
         (g_downlink, s) \<leftarrow> register_ent dl 0 s;
         (g_storage, s) \<leftarrow> register_ent st 0 s;
         s \<leftarrow> fdir_health_heartbeat_notify g_downlink s;
         s \<leftarrow> fdir_health_heartbeat_notify g_storage s;
         let s = print_mode [] s;
         s \<leftarrow> scenario1 g_downlink s;
         scenario2 clock_gettime dl st g_sub_downlink g_sub_storage g_downlink g_storage s
       }
     }"

definition boot_env :: "'c \<Rightarrow> 'c dual_env" where
  "boot_env c = \<lparr>os = c, g_link_up = 1, g_downlink_restarts = 0, g_storage_restarts = 0, stdout = []\<rparr>"



subsection \<open>Every call of the program returns\<close>

lemma api_step_print:
  assumes "live s"
  shows "api_step True s (print line s)" "api_step True s (print_mode rest s)"
proof -
  show "api_step True s (print line s)"
    unfolding print_def by (rule api_step_env [OF assms])
  have "live (fdir_port_sync_exit (fdir_port_sync_enter s))" using assms by simp
  from api.trans [OF api_step_section_refl api_step_env [OF this]]
  show "api_step True s (print_mode rest s)" by (simp add: print_mode_def print_def system_mode_eq)
qed

lemma register_steps:
  assumes "live s"
  shows "returns (register_sub sd sid s) (\<lambda>(_, s'). api_step True s s')"
    and "returns (register_ent ed eid s) (\<lambda>(_, s'). api_step True s s')"
  unfolding register_sub_def register_ent_def
  by (rule returns_bindI [OF call_steps(6) [OF assms]], auto split: prod.splits,
      rule returns_bindI [OF call_steps(7) [OF assms]], auto split: prod.splits)

lemma worker_loop_steps: "live s \<Longrightarrow> steps (worker_loop eid n s) s"
proof (induction n arbitrary: s)
  case 0
  then show ?case by (simp add: api.refl)
next
  case (Suc n)
  show ?case
    unfolding worker_loop.simps
  proof (rule returns_bindI [OF call_steps(8) [OF Suc.prems]], clarify)
    fix may_run t assume t: "api_step True s t"
    have live: "live t" by (rule api_step_live [OF t Suc.prems])
    have heart: "steps (Option.bind (fdir_health_heartbeat_notify eid t) (worker_loop eid n)) s"
      by (rule returns_bindI [OF call_steps(1) [OF live]])
        (rule returns_mono [OF Suc.IH [OF api_step_live [OF _ live]]], auto intro: api.trans t)
    let ?x = "fdir_port_sync_exit (fdir_port_sync_enter t)"
    have "api_step True s (print line ?x)" for line
      using api_step_print(1) [of ?x] live api.trans [OF t] api.trans [OF api_step_section_refl] by fastforce
    with heart show "steps (if may_run = 0
         then let (mode, s) = fdir_system_mode t
              in Some (print (''  [app] entity '' @ dec (unat eid) @ '' waiting (mode='' @ mode_name mode @ '')'') s)
         else Option.bind (fdir_health_heartbeat_notify eid t) (worker_loop eid n)) s"
      by (simp add: system_mode_eq)
  qed
qed



subsection \<open>The third scenario ends in SAFE mode\<close>

definition critical :: "nat \<Rightarrow> 'e fdir \<Rightarrow> bool" where
  "critical k s \<longleftrightarrow> k < unat (g_sub_count (sb s)) \<and> sd_is_critical_path (ss_desc (g_subs (sb s) ! k)) \<noteq> 0"

lemma critical_step: "api_step up s s' \<Longrightarrow> critical k s \<Longrightarrow> critical k s'"
  by (auto simp: critical_def api_step_def lib_step_def word_le_nat_alt)

lemma register_sub_critical:
  assumes "live s" "unat (g_sub_count (sb s)) < FDIR_SUBSYSTEM_CAP" "sd_is_critical_path d \<noteq> 0"
  obtains s' where "register_sub d sid s = Some (g_sub_count (sb s), s')" "api_step True s s'"
    "g_sub_count (sb s') = g_sub_count (sb s) + 1" "critical (unat (g_sub_count (sb s))) s'"
proof -
  let ?c = "g_sub_count (sb s)"
  have len: "length (g_subs (sb s)) = 8" using liveD(6) [OF assms(1)] by (simp add: subs_inv_def)
  have inc: "unat (?c + 1) = Suc (unat ?c)" using assms(2) by (simp add: count_inc)
  have ok: "register_sub d sid s = Some (?c, s') \<Longrightarrow> api_step True s s'" for s'
    using register_steps(1) [OF assms(1), of d sid] by (auto simp: returns_def)
  from liveD(1) [OF assms(1)] show ?thesis
  proof (cases rule: subsystem_register_cases [of s "Some d" "Some sid"])
    case (ok d' slot)
    show ?thesis
      by (rule that) (use ok assms(2,3) len inc \<open>\<And>s'. register_sub d sid s = Some (?c, s') \<Longrightarrow> api_step True s s'\<close>
          in \<open>auto simp: register_sub_def critical_def\<close>)
  qed (use assms in auto)
qed

lemma mark_down:
  assumes "live s" "critical (unat sid) s"
  obtains s' where "fdir_subsystem_mark_unavailable sid s = Some s'" "api_step True s s'"
    "unat sid \<in> critical_down (sb s')" "critical_down (sb s) \<subseteq> critical_down (sb s')"
proof -
  obtain s' where s': "fdir_subsystem_mark_unavailable sid s = Some s'" "api_step True s s'"
    using call_steps(3) [OF assms(1)] by (auto simp: returns_def)
  have known: "known_sub sid (sb s)" using assms(2) by (simp add: critical_def known_sub_def word_less_nat_alt)
  have inv: "subs_inv (sb s)" by (rule liveD(6) [OF assms(1)])
  have "sb s' = (sb s)\<lparr>g_subs := (g_subs (sb s))[unat sid := (g_subs (sb s) ! unat sid)\<lparr>ss_available := 0, ss_degraded := 1\<rparr>]\<rparr>"
    using s'(1) known
    by (auto simp: fdir_subsystem_mark_unavailable_def slot_of_eq [OF inv] mark_unavailable_eq [OF inv] Let_def
        split: bind_splits dest!: keepsD [OF emit_subsystem_state_keeps])
  with known_sub_index [OF inv known] assms(2) show ?thesis
    by (intro that [OF s']) (auto simp: critical_down_def critical_def nth_list_update_if)
qed

lemma reassess_safe:
  assumes "live s" "{i, j} \<subseteq> critical_down (sb s)" "i \<noteq> j" "threshold s \<le> 2"
  obtains s' where "fdir_reassess_system_mode s = Some s'" "api_step True s s'" "FDIR_MODE_SAFE \<le> g_mode s'"
proof -
  have "finite (critical_down (sb s))" by (rule finite_subset [of _ "{..<unat (g_sub_count (sb s))}"]) (auto simp: critical_down_def)
  then have "card {i, j} \<le> card (critical_down (sb s))" using assms(2) by (rule card_mono)
  with assms(3,4) have "FDIR_MODE_SAFE \<le> dual_path_mode s"
    by (auto simp: dual_path_mode_def fdir_mode_order)
  with escalation_commands_reassess [OF assms(1)] call_steps(4) [OF assms(1)] that show ?thesis
    by (auto simp: returns_def dest!: to_modeD(1))
qed

lemma init_fdir_ok:
  obtains s' where "init_fdir clock cfg s = (0, s')" "live s'" "g_config s' = cfg" "g_sub_count (sb s') = 0"
proof -
  have "port_is_valid (Some (app_port clock))" by (simp add: port_is_valid_def app_port_def)
  note init = init_ok [OF this, of "Some cfg" s] init_ok_live [OF this, of "Some cfg" s]
  show ?thesis
    by (rule that [of "snd (fdir_init (Some cfg) (Some (app_port clock)) s)"])
      (use init in \<open>simp_all add: init_fdir_def fdir_boot_def zero_subsystems_def\<close>)
qed

lemma main_cfg_threshold: "g_config s = main_cfg \<Longrightarrow> threshold s = 2"
  by (simp add: threshold_def main_cfg_def fdir_config_default_def)

text \<open>The two registrations that each scenario starts with.\<close>

lemma register_both:
  assumes "live s" "g_sub_count (sb s) = 0"
  obtains t s' where "register_sub sub_dl i s = Some (0, t)" "register_sub sub_st j t = Some (1, s')" "live s'"
    "g_config s' = g_config s" "critical 0 s'" "critical 1 s'"
proof -
  obtain t where t: "register_sub sub_dl i s = Some (0, t)" "api_step True s t" "g_sub_count (sb t) = 1" "critical 0 t"
    using register_sub_critical [OF assms(1), of sub_dl i] assms(2) by (auto simp: sub_dl_def)
  have "live t" by (rule api_step_live [OF t(2) assms(1)])
  then obtain s' where s': "register_sub sub_st j t = Some (1, s')" "api_step True t s'" "critical 1 s'"
    using register_sub_critical [of t sub_st j] t(3) by (auto simp: sub_st_def)
  show ?thesis
    by (rule that [OF t(1) s'(1)])
      (use s' t \<open>live t\<close> in \<open>auto intro: api_step_live critical_step simp: api_step_frame(3)\<close>)
qed

lemma both_down_safe:
  assumes "live s" "critical 0 s" "critical 1 s" "g_config s = main_cfg"
  shows "returns
     (do {
        s \<leftarrow> fdir_subsystem_mark_unavailable 0 s;
        s \<leftarrow> fdir_subsystem_mark_unavailable 1 s;
        s \<leftarrow> fdir_reassess_system_mode s;
        worker_loop eid n s
      })
     (\<lambda>s'. live s' \<and> FDIR_MODE_SAFE \<le> g_mode s')"
proof -
  obtain a where a: "fdir_subsystem_mark_unavailable 0 s = Some a" "api_step True s a" "0 \<in> critical_down (sb a)"
    using mark_down [OF assms(1), of 0] assms(2) by auto
  have la: "live a" by (rule api_step_live [OF a(2) assms(1)])
  obtain b where b: "fdir_subsystem_mark_unavailable 1 a = Some b" "api_step True a b" "1 \<in> critical_down (sb b)"
    "critical_down (sb a) \<subseteq> critical_down (sb b)"
    using mark_down [OF la, of 1] critical_step [OF a(2) assms(3)] by auto
  have lb: "live b" by (rule api_step_live [OF b(2) la])
  have "threshold b \<le> 2" using main_cfg_threshold [of b] api_step_frame(3) [OF a(2)] api_step_frame(3) [OF b(2)] assms(4) by simp
  then obtain c where c: "fdir_reassess_system_mode b = Some c" "api_step True b c" "FDIR_MODE_SAFE \<le> g_mode c"
    using reassess_safe [OF lb, of 0 1] a(3) b(3,4) by auto
  have lc: "live c" by (rule api_step_live [OF c(2) lb])
  have "returns (worker_loop eid n c) (\<lambda>s'. live s' \<and> FDIR_MODE_SAFE \<le> g_mode s')"
    by (rule returns_mono [OF worker_loop_steps [OF lc]])
      (use c(3) in \<open>auto intro: api_step_live [OF _ lc] order_trans dest: api_step_mode [OF lc]\<close>)
  with a(1) b(1) c(1) show ?thesis by simp
qed

lemma print_mode_live: "live s \<Longrightarrow> live (print_mode rest s) \<and> g_mode (print_mode rest s) = g_mode s"
  using api_step_live [OF api_step_print(2)]
  by (simp add: print_mode_def print_def system_mode_eq)

text \<open>What the program needs of a state in which both subsystems are registered.\<close>

definition both_registered :: "'c dual_env fdir \<Rightarrow> bool" where
  "both_registered s \<longleftrightarrow> critical 0 s \<and> critical 1 s \<and> g_config s = main_cfg"

lemma both_registered_step: "api_step up s s' \<Longrightarrow> both_registered s \<Longrightarrow> both_registered s'"
  using critical_step api_step_frame(3) by (fastforce simp: both_registered_def)

definition reaches_safe :: "int \<times> 'e fdir \<Rightarrow> bool" where
  "reaches_safe = (\<lambda>(rc, s). rc = 0 \<and> live s \<and> FDIR_MODE_SAFE \<le> g_mode s)"

lemma scenario3_end:
  assumes "live s" "both_registered s"
  shows "returns
     (do {
        s \<leftarrow> fdir_subsystem_mark_unavailable 0 s;
        s \<leftarrow> fdir_subsystem_mark_unavailable 1 s;
        s \<leftarrow> fdir_reassess_system_mode s;
        s \<leftarrow> worker_loop eid n s;
        Some (0, print_mode [] s)
      }) reaches_safe"
  using both_down_safe [OF assms(1), of eid n] assms(2) print_mode_live
  by (fastforce simp: returns_def bind_eq_Some_conv both_registered_def reaches_safe_def)

lemma scenario3_reaches: "returns (scenario3 clock dl st sd ss d e s) reaches_safe"
proof -
  obtain s0 where s0: "init_fdir clock main_cfg (print ''--- scenario 3: both critical paths unavailable -> SAFE ---'' s) = (0, s0)"
    "live s0" "g_config s0 = main_cfg" "g_sub_count (sb s0) = 0"
    by (rule init_fdir_ok)
  obtain t u where u: "register_sub sub_dl sd s0 = Some (0, t)" "register_sub sub_st ss t = Some (1, u)" "live u"
    "both_registered u"
    using register_both [OF s0(2,4)] s0(3) by (metis both_registered_def)
  have "returns
     (do {
        (d, s) \<leftarrow> register_ent dl d u;
        (e, s) \<leftarrow> register_ent st e s;
        s \<leftarrow> fdir_health_heartbeat_notify d s;
        s \<leftarrow> fdir_health_heartbeat_notify e s;
        s \<leftarrow> fdir_subsystem_mark_unavailable 0 s;
        s \<leftarrow> fdir_subsystem_mark_unavailable 1 s;
        s \<leftarrow> fdir_reassess_system_mode s;
        s \<leftarrow> worker_loop d 2 s;
        Some (0, print_mode [] s)
      }) reaches_safe"
    apply (rule next_call_pair [OF u(3) register_steps(2) [OF u(3)]], simp only: prod.case)
    apply (rule next_call_pair, assumption, erule register_steps(2), simp only: prod.case)
    apply (rule next_call, assumption, erule call_steps(1))+
    apply (rule scenario3_end, assumption)
    using u(4) both_registered_step by blast
  with s0(1) u(1,2) show ?thesis by (simp add: scenario3_def)
qed

text \<open>Nothing in the third scenario leads beyond SAFE mode.\<close>

definition no_reboot :: "'e fdir \<Rightarrow> bool" where
  "no_reboot s \<longleftrightarrow> g_mode s \<le> FDIR_MODE_SAFE"

lemma no_reboot_simps [simp]:
  "no_reboot (fdir_port_sync_enter s) = no_reboot s" "no_reboot (fdir_port_sync_exit s) = no_reboot s"
  "no_reboot (ext c e s) = no_reboot s" "no_reboot (s\<lparr>fq := q\<rparr>) = no_reboot s" "no_reboot (s\<lparr>hl := h\<rparr>) = no_reboot s"
  "no_reboot (s\<lparr>sb := b\<rparr>) = no_reboot s" "no_reboot (s\<lparr>env := e\<rparr>) = no_reboot s"
  "no_reboot (s\<lparr>g_entity_count := n\<rparr>) = no_reboot s" "no_reboot (s\<lparr>g_entities := es\<rparr>) = no_reboot s"
  by (simp_all add: no_reboot_def)

interpretation calm_mode: port_invariant no_reboot
  by unfold_locales (auto simp: keeps_def dest!: keepsD [OF get_now_keeps])

lemma no_reboot_registers:
  assumes "no_reboot s"
  shows "keeps (register_sub d i s) (\<lambda>(_, t). no_reboot t)" "keeps (register_ent ed i s) (\<lambda>(_, t). no_reboot t)"
  using assms
  by (auto simp: keeps_def register_sub_def register_ent_def fdir_subsystem_register_def fdir_entity_register_def Let_def
      split: bind_splits if_splits option.splits dest!: keepsD [OF calm_mode.reset_inv, rotated])

lemma no_reboot_mark:
  assumes "no_reboot s"
  shows "keeps (fdir_subsystem_mark_unavailable i s) no_reboot"
  using assms
  by (auto simp: keeps_def fdir_subsystem_mark_unavailable_def Let_def
      split: bind_splits if_splits dest!: keepsD [OF emit_subsystem_state_keeps])

lemma no_reboot_reassess: "no_reboot s \<Longrightarrow> keeps (fdir_reassess_system_mode s) no_reboot"
  by (auto simp: keeps_def fdir_reassess_system_mode_def evaluate_dual_path_def enter_safe_mode_unsafe_def set_mode_def
      notify_system_handler_def no_reboot_def Let_def split: bind_splits if_splits option.splits
      dest!: keepsD [OF emit_event_full_keeps])

lemma no_reboot_loop: "no_reboot s \<Longrightarrow> keeps (worker_loop i n s) no_reboot"
proof (induction n arbitrary: s)
  case (Suc n)
  show ?case
    unfolding worker_loop.simps system_mode_eq
    by (rule keeps_bindI [OF calm_mode.gate_inv [OF Suc.prems]])
      (auto simp: keeps_if print_def intro!: keeps_bindI [OF calm_mode.heartbeat_inv] Suc.IH)
qed simp

lemma print_mode_no_reboot [simp]: "no_reboot (print_mode rest s) = no_reboot s"
  by (simp add: print_mode_def print_def system_mode_eq)

lemma init_fdir_no_reboot:
  assumes "init_fdir clock cfg s = (0, t)"
  shows "no_reboot t"
proof -
  have "port_is_valid (Some (app_port clock))" by (simp add: port_is_valid_def app_port_def)
  from init_ok [OF this, of "Some cfg" s] assms show ?thesis
    by (auto simp: init_fdir_def fdir_boot_def no_reboot_def fdir_mode_order)
qed

lemma scenario3_no_reboot: "keeps (scenario3 clock dl st sd ss d e s) (\<lambda>(_, t). no_reboot t)"
proof -
  obtain s0 where s0: "init_fdir clock main_cfg (print ''--- scenario 3: both critical paths unavailable -> SAFE ---'' s) = (0, s0)"
    by (rule init_fdir_ok)
  have "no_reboot s0" by (rule init_fdir_no_reboot [OF s0])
  then show ?thesis
    unfolding scenario3_def Let_def s0 prod.case
    by (auto intro!: keeps_bindI [OF no_reboot_registers(1)] keeps_bindI [OF no_reboot_registers(2)]
        keeps_bindI [OF calm_mode.heartbeat_inv] keeps_bindI [OF no_reboot_mark] keeps_bindI [OF no_reboot_reassess]
        keeps_bindI [OF no_reboot_loop])
qed

definition ends_safe :: "int \<times> 'e fdir \<Rightarrow> bool" where
  "ends_safe = (\<lambda>(rc, s). rc = 0 \<and> live s \<and> g_mode s = FDIR_MODE_SAFE)"

lemma scenario3_safe: "returns (scenario3 clock dl st sd ss d e s) ends_safe"
  using returns_conj [OF scenario3_reaches scenario3_no_reboot]
  by (rule returns_mono) (auto simp: reaches_safe_def ends_safe_def no_reboot_def)

lemma scenario1_live:
  assumes "live s"
  shows "returns (scenario1 d s) live"
proof -
  have start: "live ((print line s)\<lparr>env := e\<rparr>)" for line e
    using assms by (simp add: print_def live_env)
  show ?thesis
    unfolding scenario1_def Let_def
    apply (rule next_call_pair, rule start, rule call_steps(5) [OF start], simp only: prod.case)
    apply (rule next_call, assumption, unfold supervisor_def, erule call_steps(2))
    apply (rule next_call, assumption, erule worker_loop_steps)
    apply (simp add: print_mode_live)
    done
qed

lemma scenario2_safe: "returns (scenario2 clock dl st sd ss d e s) ends_safe"
proof -
  obtain s0 where s0: "init_fdir clock main_cfg ((print ''--- scenario 2: storage init fail -> unavailable ---'' s)
      \<lparr>env := (env (print ''--- scenario 2: storage init fail -> unavailable ---'' s))\<lparr>g_link_up := 1\<rparr>\<rparr>) = (0, s0)"
    "live s0"
    by (rule init_fdir_ok)
  show ?thesis
    unfolding scenario2_def Let_def s0(1) prod.case
    apply (simp only: simp_thms if_False)
    apply (rule next_call_pair, rule s0, rule register_steps(1) [OF s0(2)], simp only: prod.case)
    apply (rule next_call_pair, assumption, erule register_steps(1), simp only: prod.case)
    apply (rule next_call_pair, assumption, erule register_steps(2), simp only: prod.case)
    apply (rule next_call_pair, assumption, erule register_steps(2), simp only: prod.case)
    apply (rule next_call_pair, assumption, erule call_steps(5), simp only: prod.case)
    apply (rule next_call, assumption, unfold supervisor_def, erule call_steps(2))
    apply (rule returns_bindI, erule sub_queries_return(2))
    apply (rule scenario3_safe)
    done
qed

text \<open>
  C40. The dual-path example program ends in SAFE mode, as it announces, for every clock and whatever
  state the library was in: every call it makes returns, it exits with status 0, and with both
  critical-path subsystems taken out of service the threshold of two is reached, so that the mode is
  SAFE, and not REBOOT_PENDING, when the program ends.
\<close>

theorem dual_path_ends_safe:
  "returns (main clock_gettime s) (\<lambda>(rc, s'). rc = 0 \<and> g_mode s' = FDIR_MODE_SAFE)"
proof -
  obtain s0 where s0: "init_fdir clock_gettime main_cfg s = (0, s0)" "live s0" by (rule init_fdir_ok)
  have "returns (main clock_gettime s) ends_safe"
    unfolding main_def Let_def s0(1) prod.case
    apply (simp only: simp_thms if_False)
    apply (rule next_call_pair, rule s0, rule register_steps(1) [OF s0(2)], simp only: prod.case)
    apply (rule next_call_pair, assumption, erule register_steps(1), simp only: prod.case)
    apply (rule next_call_pair, assumption, erule register_steps(2), simp only: prod.case)
    apply (rule next_call_pair, assumption, erule register_steps(2), simp only: prod.case)
    apply (rule next_call, assumption, erule call_steps(1))
    apply (rule next_call, assumption, erule call_steps(1))
    apply (rule returns_bindI, rule scenario1_live, simp add: print_mode_live)
    apply (rule scenario2_safe)
    done
  then show ?thesis by (rule returns_mono) (auto simp: ends_safe_def)
qed

text \<open>
  A run of the dual-path example with a clock that stands still: the program prints what its
  scenarios announce. The link loss degrades the system without a restart and the downlink worker
  waits; the failed initialisation of the storage makes its subsystem unavailable; both subsystems
  unavailable put the system into SAFE mode, where the worker waits. (The lines starting with
  \<open>[fdir]\<close> are the events.)
\<close>

theorem dual_path_run:
  "map_option (\<lambda>(rc, s). (rc, filter (\<lambda>line. take 8 line \<noteq> ''  [fdir]'') (stdout (env s))))
     (main (\<lambda>c. ((5, 0), c)) (fdir_boot (boot_env ()))) =
   Some (0,
     [''mode: NOMINAL'',
      ''--- scenario 1: link loss -> DEGRADED (no restart) ---'',
      ''  [app] entity 0 waiting (mode=DEGRADED)'',
      ''mode: DEGRADED  downlink_restarts=0'',
      ''--- scenario 2: storage init fail -> unavailable ---'',
      ''mode: DEGRADED  storage available=0'',
      ''--- scenario 3: both critical paths unavailable -> SAFE ---'',
      ''  [app] entity 0 waiting (mode=SAFE)'',
      ''mode: SAFE''])"
  by code_simp

end
