(* ===== verification/Getting_Started.thy ===== *)
theory Getting_Started
  imports Client
begin

text \<open>
  \<open>examples/getting_started/main.c\<close>: one entity driven through a restart, an exhausted budget and a
  missed heartbeat. \<open>clock_gettime\<close> and \<open>nanosleep\<close> are parameters; the environment of the library is
  the state of the clock and the lines printed.
\<close>

record 'c gs_env =
  os :: 'c
  stdout :: "string list"

definition platform_now_ms :: "'c clock \<Rightarrow> 'c gs_env \<Rightarrow> u32 \<times> 'c gs_env" where
  "platform_now_ms clock_gettime e =
     (let ((tv_sec, tv_nsec), c) = clock_gettime (os e)
      in (word_of_int (tv_sec * 1000 + tv_nsec div 1000000), e\<lparr>os := c\<rparr>))"

definition say :: "string \<Rightarrow> 'c gs_env \<Rightarrow> 'c gs_env" where
  "say line e = e\<lparr>stdout := stdout e @ [line]\<rparr>"

definition platform_emit_event :: "fdir_event \<Rightarrow> 'c gs_env \<Rightarrow> 'c gs_env" where
  "platform_emit_event event e =
     say (''  [fdir] '' @ pad 12 (kind_name (ev_kind event)) @ '' entity='' @ pad 3 (dec (unat (ev_entity event)))
          @ '' '' @ [CHR 0x22] @ cstr (ev_detail event) @ [CHR 0x22]) e"

definition platform_request_reboot :: "string \<Rightarrow> 'c gs_env \<Rightarrow> 'c gs_env" where
  "platform_request_reboot reason e = say (''  [fdir] reboot: '' @ reason) e"

fun mode_name :: "fdir_mode \<Rightarrow> string" where
  "mode_name FDIR_MODE_NOMINAL = ''NOMINAL''"
| "mode_name FDIR_MODE_DEGRADED = ''DEGRADED''"
| "mode_name FDIR_MODE_SAFE = ''SAFE''"
| "mode_name FDIR_MODE_REBOOT_PENDING = ''REBOOT_PENDING''"
| "mode_name (FDIR_MODE_OTHER n) = ''?''"

definition print :: "string \<Rightarrow> 'c gs_env fdir \<Rightarrow> 'c gs_env fdir" where
  "print line s = s\<lparr>env := say line (env s)\<rparr>"

definition report_fault :: "fdir_entity_id \<Rightarrow> string \<Rightarrow> 'c gs_env fdir \<Rightarrow> 'c gs_env fdir option" where
  "report_fault entity detail s =
     do {
       let s = print (''  [app] fault: '' @ detail) s;
       (_, s) \<leftarrow> fdir_report_fault entity FDIR_REASON_IO_ERROR 1 (Some detail) s;
       fdir_supervisor_tick s
     }"

definition sensor_restart :: "'c gs_env restart_fn" where
  "sensor_restart eid user e = (0, say ''  [app] sensor restarted'' e)"

definition app_port :: "'c clock \<Rightarrow> 'c gs_env fdir_port" where
  "app_port clock_gettime =
     zero_port\<lparr>get_now_ms := Some (platform_now_ms clock_gettime), emit_event := Some platform_emit_event,
               request_reboot := Some platform_request_reboot\<rparr>"

definition init_fdir :: "'c clock \<Rightarrow> 'c gs_env fdir_config \<Rightarrow> 'c gs_env fdir \<Rightarrow> int \<times> 'c gs_env fdir" where
  "init_fdir clock_gettime cfg s =
     (let port = app_port clock_gettime;
          (status, s) = fdir_init (Some cfg) (Some port) s
      in if status \<noteq> FDIR_OK then (- 1, s) else (0, s))"

definition main_cfg :: "'c gs_env fdir_config" where
  "main_cfg = fdir_config_default\<lparr>health_check_period_ms := 1000, missed_heartbeat_tolerance := 2,
     safe_mode_critical_failure_threshold := 1\<rparr>"

definition sensor_desc :: "'c gs_env fdir_entity_desc" where
  "sensor_desc =
     zero_entity_desc\<lparr>ed_name := Some ''sensor'', ed_max_restarts := 2, ed_max_watchdog_restarts := 1,
       ed_on_exhausted := FDIR_ACTION_DEGRADE, ed_linked_subsystem := FDIR_SUBSYSTEM_NONE,
       ed_restart := Some sensor_restart\<rparr>"

definition print_mode :: "'c gs_env fdir \<Rightarrow> 'c gs_env fdir" where
  "print_mode s = (let (mode, s) = fdir_system_mode s in print (''mode: '' @ mode_name mode) s)"

text \<open>The faults of the first two scenarios, and the last scenario with the rest of \<open>main\<close>.\<close>

definition faults :: "fdir_entity_id \<Rightarrow> 'c gs_env fdir \<Rightarrow> 'c gs_env fdir option" where
  "faults sensor s =
     do {
       let s = print ''--- fault 1: restart ---'' s;
       s \<leftarrow> report_fault sensor ''read timeout'' s;
       let s = print_mode s;
       let s = print ''--- faults 2+3: budget exhausted -> DEGRADED ---'' s;
       s \<leftarrow> fdir_health_heartbeat_notify sensor s;
       s \<leftarrow> report_fault sensor ''read timeout'' s;
       s \<leftarrow> fdir_health_heartbeat_notify sensor s;
       s \<leftarrow> report_fault sensor ''read timeout'' s;
       Some (print_mode s)
     }"

definition watchdog_miss ::
  "'c clock \<Rightarrow> (int \<times> int \<Rightarrow> 'c \<Rightarrow> 'c) \<Rightarrow> fdir_entity_id \<Rightarrow> 'c gs_env fdir \<Rightarrow> (int \<times> 'c gs_env fdir) option" where
  "watchdog_miss clock_gettime nanosleep sensor s =
     do {
       let s = print ''--- watchdog miss -> restart ---'' s;
       let (rc, s) = init_fdir clock_gettime main_cfg s;
       if rc \<noteq> 0 then Some (1, s)
       else do {
         ((_, out), s) \<leftarrow> fdir_entity_register (Some sensor_desc) (Some sensor) s;
         let sensor = (case out of None \<Rightarrow> sensor | Some x \<Rightarrow> x);
         s \<leftarrow> fdir_health_heartbeat_notify sensor s;
         let s = s\<lparr>env := (env s)\<lparr>os := nanosleep (3, 500000000) (os (env s))\<rparr>\<rparr>;
         s \<leftarrow> fdir_supervisor_tick s;
         Some (0, print_mode s)
       }
     }"

text \<open>
  The variable \<open>sensor\<close> is not initialised in the source; it is written by the successful registration
  before it is read. The parameter \<open>sensor0\<close> stands for its initial value.
\<close>

definition main ::
  "'c clock \<Rightarrow> (int \<times> int \<Rightarrow> 'c \<Rightarrow> 'c) \<Rightarrow> fdir_entity_id \<Rightarrow> 'c gs_env fdir \<Rightarrow> (int \<times> 'c gs_env fdir) option" where
  "main clock_gettime nanosleep sensor0 s =
     do {
       let (rc, s) = init_fdir clock_gettime main_cfg s;
       if rc \<noteq> 0 then Some (1, s)
       else do {
         ((status, out), s) \<leftarrow> fdir_entity_register (Some sensor_desc) (Some sensor0) s;
         let sensor = (case out of None \<Rightarrow> sensor0 | Some x \<Rightarrow> x);
         if status \<noteq> FDIR_OK then Some (1, s)
         else do {
           s \<leftarrow> fdir_health_heartbeat_notify sensor s;
           let s = print_mode s;
           s \<leftarrow> faults sensor s;
           watchdog_miss clock_gettime nanosleep sensor s
         }
       }
     }"

definition boot_env :: "'c \<Rightarrow> 'c gs_env" where
  "boot_env c = \<lparr>os = c, stdout = []\<rparr>"

text \<open>A clock that counts milliseconds, with \<open>nanosleep\<close> moving it on.\<close>

definition ms_clock :: "int clock" where
  "ms_clock ms = ((ms div 1000, ms mod 1000 * 1000000), ms)"

definition ms_sleep :: "int \<times> int \<Rightarrow> int \<Rightarrow> int" where
  "ms_sleep = (\<lambda>(sec, nsec) ms. ms + sec * 1000 + nsec div 1000000)"

text \<open>
  A run of the getting-started example prints what its scenarios announce: two faults are answered
  with a restart each, the third exhausts the budget and degrades the system, and after a
  re-initialisation a heartbeat missed for 3.5 s, with 2 s permitted, is answered by the watchdog with
  a restart, in NOMINAL mode.
\<close>

theorem getting_started_run:
  "map_option (\<lambda>(rc, s). (rc, filter (\<lambda>line. take 8 line \<noteq> ''  [fdir]'') (stdout (env s))))
     (main ms_clock ms_sleep 0 (fdir_boot (boot_env 5000))) =
   Some (0,
     [''mode: NOMINAL'',
      ''--- fault 1: restart ---'',
      ''  [app] fault: read timeout'',
      ''  [app] sensor restarted'',
      ''mode: NOMINAL'',
      ''--- faults 2+3: budget exhausted -> DEGRADED ---'',
      ''  [app] fault: read timeout'',
      ''  [app] sensor restarted'',
      ''  [app] fault: read timeout'',
      ''mode: DEGRADED'',
      ''--- watchdog miss -> restart ---'',
      ''  [app] sensor restarted'',
      ''mode: NOMINAL''])"
  by code_simp

end
