(* ===== verification/FreeRTOS_Demo.thy ===== *)
theory FreeRTOS_Demo
  imports Client
begin

text \<open>
  \<open>examples/FreeRTOS/main.c\<close> and \<open>port.c\<close>: a worker task, a supervisor task and a task that plays three
  scenarios. The FreeRTOS kernel is a parameter, the record \<open>rtos\<close> of the calls the code makes; what the
  kernel schedules is left open: a step of the demo is the next statement of any task, with
  \<open>vTaskDelay\<close> as the points between statements. The port has no lock, and a call of the library is not
  interrupted by another, as \<open>docs/threading.md\<close> demands then. The demo does not ensure this: its
  configuration makes the kernel preemptive, with a higher priority for the supervisor than for the
  other tasks. What holds here holds for the runs in which no call is preempted.
\<close>

subsection \<open>The port\<close>

record 'k rtos =
  xTaskGetTickCount :: "'k \<Rightarrow> u32 \<times> 'k"
  vTaskEndScheduler :: "'k \<Rightarrow> 'k"
  portTICK_PERIOD_MS :: u32

record 'k rtos_env =
  kernel :: 'k
  g_stop_heartbeat :: int
  g_inject_fault :: int
  stdout :: "string list"

text \<open>The output is kept as a list of lines, blank lines left out.\<close>

definition say :: "string \<Rightarrow> 'k rtos_env \<Rightarrow> 'k rtos_env" where
  "say line e = e\<lparr>stdout := stdout e @ [line]\<rparr>"

definition port_now :: "'k rtos \<Rightarrow> 'k rtos_env \<Rightarrow> u32 \<times> 'k rtos_env" where
  "port_now K e = (let (ticks, k) = xTaskGetTickCount K (kernel e) in (ticks * portTICK_PERIOD_MS K, e\<lparr>kernel := k\<rparr>))"

definition port_emit :: "fdir_event \<Rightarrow> 'k rtos_env \<Rightarrow> 'k rtos_env" where
  "port_emit event e =
     say (''[fdir] '' @ pad 12 (kind_name (ev_kind event)) @ '' mode='' @ dec (mode_code (ev_mode event)) @
          '' entity='' @ dec (unat (ev_entity event)) @ '' reason='' @ dec (reason_code (ev_reason event)) @
          '' '' @ [CHR 0x22] @ cstr (ev_detail event) @ [CHR 0x22]) e"

definition port_reboot :: "'k rtos \<Rightarrow> string \<Rightarrow> 'k rtos_env \<Rightarrow> 'k rtos_env" where
  "port_reboot K reason e =
     (let e = say (''[fdir] REBOOT requested: '' @ reason) e in e\<lparr>kernel := vTaskEndScheduler K (kernel e)\<rparr>)"

definition fdir_app_port :: "'k rtos \<Rightarrow> 'k rtos_env fdir_port" where
  "fdir_app_port K =
     zero_port\<lparr>get_now_ms := Some (port_now K), emit_event := Some port_emit, request_reboot := Some (port_reboot K)\<rparr>"

text \<open>The assertion of the kernel's configuration header, and its hook.\<close>

definition vAssertCalled :: "'k rtos \<Rightarrow> string \<Rightarrow> nat \<Rightarrow> 'k rtos_env \<Rightarrow> 'k rtos_env" where
  "vAssertCalled K file line e =
     (let e = say (''ASSERT failed: '' @ file @ '':'' @ dec line) e in e\<lparr>kernel := vTaskEndScheduler K (kernel e)\<rparr>)"

definition configASSERT :: "'k rtos \<Rightarrow> int \<Rightarrow> string \<Rightarrow> nat \<Rightarrow> 'k rtos_env \<Rightarrow> 'k rtos_env" where
  "configASSERT K x file line e = (if x = 0 then vAssertCalled K file line e else e)"

text \<open>A failed assertion ends the scheduler, as a reboot does, and does not touch the demo's flags.\<close>

lemma configASSERT_flags:
  "g_stop_heartbeat (configASSERT K x file line e) = g_stop_heartbeat e"
  "g_inject_fault (configASSERT K x file line e) = g_inject_fault e"
  "kernel (configASSERT K x file line e) = (if x = 0 then kernel (port_reboot K reason e) else kernel e)"
  by (simp_all add: configASSERT_def vAssertCalled_def port_reboot_def say_def)


subsection \<open>The tasks\<close>

definition worker_restart :: "'k rtos_env restart_fn" where
  "worker_restart eid user e = (0, (say ''[demo] restarting worker'' e)\<lparr>g_stop_heartbeat := 0, g_inject_fault := 0\<rparr>)"

text \<open>The static variables with the ids that \<open>main\<close> obtains before the tasks start.\<close>

record ids =
  g_worker_id :: fdir_entity_id
  g_sub_downlink :: fdir_subsystem_id
  g_sub_storage :: fdir_subsystem_id

definition put :: "string \<Rightarrow> 'k rtos_env fdir \<Rightarrow> 'k rtos_env fdir" where
  "put line s = s\<lparr>env := say line (env s)\<rparr>"

text \<open>The statements of the worker's loop: the gate, the heartbeat, and the injected fault.\<close>

datatype worker_pc = W_gate | W_beat | W_inject

fun worker_task :: "ids \<Rightarrow> worker_pc \<Rightarrow> 'k rtos_env fdir \<Rightarrow> (worker_pc \<times> 'k rtos_env fdir) option" where
  "worker_task ids W_gate s =
     do {
       (may_run, s) \<leftarrow> fdir_worker_may_run (g_worker_id ids) s;
       Some (if may_run = 0 then W_gate else W_beat, s)
     }"
| "worker_task ids W_beat s =
     (if g_stop_heartbeat (env s) = 0 then do {
        s \<leftarrow> fdir_health_heartbeat_notify (g_worker_id ids) s;
        Some (W_inject, s)
      } else Some (W_inject, s))"
| "worker_task ids W_inject s =
     (if g_inject_fault (env s) \<noteq> 0 then do {
        let s = s\<lparr>env := (env s)\<lparr>g_inject_fault := 0\<rparr>\<rparr>;
        (_, s) \<leftarrow> fdir_report_fault (g_worker_id ids) FDIR_REASON_IO_ERROR 42 (Some ''simulated I/O error'') s;
        Some (W_gate, s)
      } else Some (W_gate, s))"

definition supervisor_task :: "'k rtos_env fdir \<Rightarrow> 'k rtos_env fdir option" where
  "supervisor_task s = fdir_supervisor_tick s"

definition inject :: "nat \<Rightarrow> 'k rtos_env fdir \<Rightarrow> 'k rtos_env fdir option" where
  "inject i s =
     (let s = s\<lparr>env := (env s)\<lparr>g_inject_fault := 1\<rparr>\<rparr>
      in Some (put (''[demo] injecting fault '' @ dec i @ ''/3'') s))"

text \<open>The statements of the scenario task, with the loop of the second scenario unrolled.\<close>

definition scenario_task :: "'k rtos \<Rightarrow> ids \<Rightarrow> ('k rtos_env fdir \<Rightarrow> 'k rtos_env fdir option) list" where
  "scenario_task K ids =
     [\<lambda>s. Some (put ''--- Scenario 1: watchdog miss -> restart ---'' s),
      \<lambda>s. Some (put ''[demo] worker stopped heartbeating'' (s\<lparr>env := (env s)\<lparr>g_stop_heartbeat := 1\<rparr>\<rparr>)),
      \<lambda>s. Some (put ''--- Scenario 2: 3 faults -> DEGRADED ---'' s),
      inject 1, inject 2, inject 3,
      \<lambda>s. Some (put ''--- Scenario 3: dual-path unavailable -> SAFE ---'' s),
      fdir_subsystem_mark_unavailable (g_sub_downlink ids),
      fdir_subsystem_mark_unavailable (g_sub_storage ids),
      \<lambda>s. do {
        (_, s) \<leftarrow> fdir_report_fault (g_worker_id ids) FDIR_REASON_USER 0 (Some ''dual-path forced'') s;
        Some s
      },
      \<lambda>s. (let (mode, s) = fdir_system_mode s
            in Some (put (''--- Demo complete (mode='' @ dec (mode_code mode) @ '') ---'') s)),
      \<lambda>s. Some (s\<lparr>env := (env s)\<lparr>kernel := vTaskEndScheduler K (kernel (env s))\<rparr>\<rparr>)]"


subsection \<open>The main program\<close>

definition main_cfg :: "'k rtos_env fdir_config" where
  "main_cfg = fdir_config_default\<lparr>health_check_period_ms := 500, missed_heartbeat_tolerance := 2,
     safe_mode_critical_failure_threshold := 2\<rparr>"

definition worker_desc :: "'k rtos_env fdir_entity_desc" where
  "worker_desc =
     zero_entity_desc\<lparr>ed_name := Some ''worker'', ed_max_restarts := 2, ed_max_watchdog_restarts := 1,
       ed_on_exhausted := FDIR_ACTION_DEGRADE, ed_linked_subsystem := FDIR_SUBSYSTEM_NONE,
       ed_restart := Some worker_restart\<rparr>"

definition id_of :: "u8 option \<Rightarrow> u8" where
  "id_of out = (case out of None \<Rightarrow> 0xFF | Some i \<Rightarrow> i)"

text \<open>
  \<open>main\<close> up to \<open>vTaskStartScheduler\<close>; the result is the exit status or the ids of a started demo. The
  endless loop after a failed initialisation is \<open>None\<close>.
\<close>

definition main :: "'k rtos \<Rightarrow> 'k rtos_env fdir \<Rightarrow> ((int + ids) \<times> 'k rtos_env fdir) option" where
  "main K s =
     do {
       let (init_status, s) = fdir_init (Some main_cfg) (Some (fdir_app_port K)) s;
       if init_status \<noteq> FDIR_OK then do {
         s \<leftarrow> fdir_request_reboot (''fdir_init failed'' @ [CHR 0x0A]) s;
         None
       }
       else do {
         ((_, dl), s) \<leftarrow> fdir_subsystem_register
           (Some (zero_subsystem_desc\<lparr>sd_name := Some ''downlink'', sd_is_critical_path := 1\<rparr>)) (Some FDIR_SUBSYSTEM_NONE) s;
         ((_, st), s) \<leftarrow> fdir_subsystem_register
           (Some (zero_subsystem_desc\<lparr>sd_name := Some ''storage'', sd_is_critical_path := 1\<rparr>)) (Some FDIR_SUBSYSTEM_NONE) s;
         ((status, wk), s) \<leftarrow> fdir_entity_register (Some worker_desc) (Some FDIR_ENTITY_NONE) s;
         if status \<noteq> FDIR_OK then Some (Inl 1, put ''fdir_entity_register failed'' s)
         else do {
           s \<leftarrow> fdir_health_heartbeat_notify (id_of wk) s;
           Some (Inr \<lparr>g_worker_id = id_of wk, g_sub_downlink = id_of dl, g_sub_storage = id_of st\<rparr>,
                 put ''fdir FreeRTOS demo starting'' s)
         }
       }
     }"


subsection \<open>Runs of the demo\<close>

record 'k demo =
  dm_lib :: "'k rtos_env fdir"
  dm_worker :: worker_pc
  dm_scenario :: nat

inductive demo_step :: "'k rtos \<Rightarrow> ids \<Rightarrow> 'k demo \<Rightarrow> 'k demo \<Rightarrow> bool" for K ids where
  worker: "worker_task ids (dm_worker d) (dm_lib d) = Some (pc, s) \<Longrightarrow>
     demo_step K ids d (d\<lparr>dm_lib := s, dm_worker := pc\<rparr>)"
| supervisor: "supervisor_task (dm_lib d) = Some s \<Longrightarrow> demo_step K ids d (d\<lparr>dm_lib := s\<rparr>)"
| scenario: "dm_scenario d < length (scenario_task K ids) \<Longrightarrow> (scenario_task K ids ! dm_scenario d) (dm_lib d) = Some s \<Longrightarrow>
     demo_step K ids d (d\<lparr>dm_lib := s, dm_scenario := Suc (dm_scenario d)\<rparr>)"

inductive demo_run :: "'k rtos \<Rightarrow> ids \<Rightarrow> 'k demo \<Rightarrow> bool" for K ids where
  start: "main K s0 = Some (Inr ids, s) \<Longrightarrow> demo_run K ids \<lparr>dm_lib = s, dm_worker = W_gate, dm_scenario = 0\<rparr>"
| step: "demo_run K ids d \<Longrightarrow> demo_step K ids d d' \<Longrightarrow> demo_run K ids d'"

text \<open>
  A predicate on the library's state that every call of the tasks keeps holds throughout the demo.
\<close>

locale task_invariant =
  fixes w :: fdir_entity_id and I :: "'k rtos_env fdir \<Rightarrow> bool"
  assumes env: "I s \<Longrightarrow> I (s\<lparr>env := e\<rparr>)"
    and sect: "I s \<Longrightarrow> I (fdir_port_sync_exit (fdir_port_sync_enter s))"
    and report: "I s \<Longrightarrow> keeps (fdir_report_fault w reason code detail s) (\<lambda>(_, t). I t)"
    and gate: "I s \<Longrightarrow> keeps (fdir_worker_may_run w s) (\<lambda>(_, t). I t)"
    and beat: "I s \<Longrightarrow> keeps (fdir_health_heartbeat_notify w s) I"
    and mark: "I s \<Longrightarrow> keeps (fdir_subsystem_mark_unavailable sid s) I"
    and tick: "I s \<Longrightarrow> keeps (fdir_supervisor_tick s) I"
begin

lemma put_inv: "I s \<Longrightarrow> I (put line s)"
  by (simp add: put_def env)

lemma report_then:
  assumes "I s" "\<And>status t. I t \<Longrightarrow> keeps (k (status, t)) Q"
  shows "keeps (Option.bind (fdir_report_fault w reason code detail s) k) Q"
  by (rule keeps_bindI [OF report [OF assms(1)]]) (use assms(2) in auto)

lemma worker_inv:
  assumes "I s" "g_worker_id ids = w"
  shows "keeps (worker_task ids pc s) (\<lambda>(_, t). I t)"
proof (cases pc)
  case W_gate
  then show ?thesis
    using keepsD [OF gate [OF assms(1)]] by (auto simp: assms(2) keeps_def split: bind_splits)
next
  case W_beat
  then show ?thesis
    using assms keepsD [OF beat [OF assms(1)]] by (auto simp: keeps_def split: bind_splits)
next
  case W_inject
  have "keeps (Option.bind (fdir_report_fault w FDIR_REASON_IO_ERROR 42 (Some ''simulated I/O error'')
      (s\<lparr>env := (env s)\<lparr>g_inject_fault := 0\<rparr>\<rparr>)) (\<lambda>(_, s). Some (W_gate, s))) (\<lambda>(_, t). I t)"
    by (rule report_then [OF env [OF assms(1)]]) simp
  with W_inject assms show ?thesis by (simp add: Let_def del: fdir_report_fault_def)
qed

lemma scenario_inv:
  assumes "I s" "g_worker_id ids = w" "f \<in> set (scenario_task K ids)"
  shows "keeps (f s) I"
proof -
  have "keeps (Option.bind (fdir_report_fault w reason code detail s) (\<lambda>(_, s). Some s)) I" for reason code detail
    by (rule report_then [OF assms(1)]) simp
  then show ?thesis
    using assms mark [OF assms(1)] put_inv [OF sect [OF assms(1)]]
    by (auto simp: scenario_task_def inject_def Let_def put_inv env system_mode_eq simp del: fdir_report_fault_def)
qed

lemma step_inv:
  assumes "demo_step K ids d d'" "g_worker_id ids = w" "I (dm_lib d)"
  shows "I (dm_lib d')"
  using assms(1)
proof cases
  case (worker pc s)
  then show ?thesis using keepsD [OF worker_inv [OF assms(3,2)]] by fastforce
next
  case (supervisor s)
  then show ?thesis using keepsD [OF tick [OF assms(3)]] by (auto simp: supervisor_task_def)
next
  case (scenario s)
  then show ?thesis using keepsD [OF scenario_inv [OF assms(3,2) nth_mem]] by fastforce
qed

lemma steps_inv: "(demo_step K ids)\<^sup>*\<^sup>* d d' \<Longrightarrow> g_worker_id ids = w \<Longrightarrow> I (dm_lib d) \<Longrightarrow> I (dm_lib d')"
  by (induction rule: rtranclp_induct) (auto intro: step_inv)

end

lemma put_live [simp]: "live (put line s) = live s"
  by (simp add: put_def live_env)

text \<open>What every call of the demo leaves as it is, and what a heartbeat and a subsystem mark do in addition.\<close>

definition holds_still :: "'e fdir \<Rightarrow> 'e fdir \<Rightarrow> bool" where
  "holds_still s t \<longleftrightarrow> fq t = fq s \<and> g_mode t = g_mode s \<and> g_supervision_enabled t = g_supervision_enabled s \<and>
     g_entity_count t = g_entity_count s \<and> (\<forall>i. failed i (hl s) \<longrightarrow> failed i (hl t))"

lemma heartbeat_holds:
  assumes "fdir_inv s"
  shows "keeps (fdir_health_heartbeat_notify w s) (holds_still s)"
  using assms
proof (cases rule: heartbeat_cases [of s w])
  case known
  show ?thesis
    unfolding known(2)
    by (rule keeps_bindI [OF get_now_keeps])
      (auto simp: holds_still_def failed_def tracked_def nth_list_update_if word_less_nat_alt)
qed (simp add: holds_still_def)

lemma mark_holds:
  assumes "fdir_inv s"
  shows "keeps (fdir_subsystem_mark_unavailable sid s) (holds_still s)"
  unfolding fdir_subsystem_mark_unavailable_def Let_def
  using fdir_invD(4) [OF assms]
  by (auto simp: slot_of_eq mark_unavailable_eq holds_still_def keeps_def split: bind_splits
      dest!: keepsD [OF emit_subsystem_state_keeps])

lemma calls_gate:
  assumes "live s"
  shows "keeps (fdir_report_fault w reason code detail s) (\<lambda>(_, t). same_gate s t)"
    and "keeps (fdir_worker_may_run w s) (\<lambda>(_, t). same_gate s t)"
    and "keeps (fdir_health_heartbeat_notify w s) (same_gate s)"
    and "keeps (fdir_subsystem_mark_unavailable sid s) (same_gate s)"
    and "keeps (fdir_supervisor_tick s) (same_gate s)"
proof -
  let ?x = "fdir_port_sync_exit (fdir_port_sync_enter s)"
  have inv: "fdir_inv s" "fdir_inv ?x" using liveD(1) [OF assms] by simp_all
  show "keeps (fdir_report_fault w reason code detail s) (\<lambda>(_, t). same_gate s t)"
    using returns_keeps [OF report_fault_effect [OF assms, of w reason code detail 1]]
    by (auto simp: same_gate_def outside_iff elim!: keeps_mono)
  show "keeps (fdir_health_heartbeat_notify w s) (same_gate s)"
    by (rule keeps_mono [OF heartbeat_holds [OF inv(1)]]) (simp add: holds_still_def same_gate_def)
  show "keeps (fdir_subsystem_mark_unavailable sid s) (same_gate s)"
    by (rule keeps_mono [OF mark_holds [OF inv(1)]]) (simp add: holds_still_def same_gate_def)
  show "keeps (fdir_supervisor_tick s) (same_gate s)"
    by (rule keeps_mono [OF supervisor_tick_keeps [OF inv(1)]]) simp
  show "keeps (fdir_worker_may_run w s) (\<lambda>(_, t). same_gate s t)"
    using keepsD [OF heartbeat_holds [OF inv(2)]]
    by (auto simp: fdir_worker_may_run_def system_mode_eq entity_may_run_eq [OF inv(2)] same_gate_def keeps_def
        holds_still_def split: bind_splits)
qed

lemma report_then_live:
  assumes "live s" "\<And>status t. live t \<Longrightarrow> returns (k (status, t)) P"
  shows "returns (Option.bind (fdir_report_fault eid reason code detail s) k) P"
  by (rule next_call_pair [OF assms(1) call_steps(5) [OF assms(1)]]) (rule assms(2))

lemma worker_task_live:
  assumes "live s"
  shows "returns (worker_task ids pc s) (\<lambda>(_, s'). live s')"
proof (cases pc)
  case W_gate
  then show ?thesis
    by (auto intro: next_call_pair [OF assms call_steps(8) [OF assms]])
next
  case W_beat
  then show ?thesis
    using assms by (auto intro: next_call [OF assms call_steps(1) [OF assms]])
next
  case W_inject
  then show ?thesis
    unfolding worker_task.simps Let_def
    using assms by (auto intro!: report_then_live simp: live_env simp del: fdir_report_fault_def)
qed

lemma scenario_task_live:
  assumes "live s" "f \<in> set (scenario_task K ids)"
  shows "returns (f s) live"
  using assms(2) next_call [OF assms(1) call_steps(3) [OF assms(1)], of Some live] assms(1)
  by (auto simp: scenario_task_def inject_def Let_def live_env system_mode_eq intro!: report_then_live
      simp del: fdir_report_fault_def)

text \<open>The worker is the one registered entity, and supervision stays on.\<close>

definition demo_ready :: "'e fdir \<Rightarrow> bool" where
  "demo_ready s \<longleftrightarrow> live s \<and> g_supervision_enabled s \<noteq> 0 \<and> g_entity_count s = 1"

lemma ready_keeps:
  assumes "demo_ready s" "keeps m (api_step True s)" "keeps m (same_gate s)"
  shows "keeps m demo_ready"
  using keeps_conj [OF assms(2,3)]
  by (rule keeps_mono) (use assms(1) in \<open>auto simp: demo_ready_def same_gate_def intro: api_step_live\<close>)

lemma ready_keeps_pair:
  assumes "demo_ready s" "keeps m (\<lambda>(_, t). api_step True s t)" "keeps m (\<lambda>(_, t). same_gate s t)"
  shows "keeps m (\<lambda>(_, t). demo_ready t)"
  using keeps_conj [OF assms(2,3)]
  by (rule keeps_mono) (use assms(1) in \<open>auto simp: demo_ready_def same_gate_def intro: api_step_live\<close>)

interpretation ready: task_invariant 0 demo_ready
proof unfold_locales
  fix s :: "'k rtos_env fdir" assume s: "demo_ready s"
  then have live: "live s" by (simp add: demo_ready_def)
  show "demo_ready (s\<lparr>env := e\<rparr>)" for e using s by (simp add: demo_ready_def live_env)
  show "demo_ready (fdir_port_sync_exit (fdir_port_sync_enter s))" using s by (simp add: demo_ready_def)
  show "keeps (fdir_report_fault 0 reason code detail s) (\<lambda>(_, t). demo_ready t)" for reason code detail
    by (rule ready_keeps_pair [OF s returns_keeps [OF call_steps(5) [OF live]] calls_gate(1) [OF live]])
  show "keeps (fdir_worker_may_run 0 s) (\<lambda>(_, t). demo_ready t)"
    by (rule ready_keeps_pair [OF s returns_keeps [OF call_steps(8) [OF live]] calls_gate(2) [OF live]])
  show "keeps (fdir_health_heartbeat_notify 0 s) demo_ready"
    by (rule ready_keeps [OF s returns_keeps [OF call_steps(1) [OF live]] calls_gate(3) [OF live]])
  show "keeps (fdir_subsystem_mark_unavailable sid s) demo_ready" for sid
    by (rule ready_keeps [OF s returns_keeps [OF call_steps(3) [OF live]] calls_gate(4) [OF live]])
  show "keeps (fdir_supervisor_tick s) demo_ready"
    by (rule ready_keeps [OF s returns_keeps [OF call_steps(2) [OF live]] calls_gate(5) [OF live]])
qed

text \<open>\<open>main\<close> gets as far as starting the scheduler.\<close>

lemma subsystem_register_gate:
  assumes "live s"
  shows "returns (fdir_subsystem_register desc out s) (\<lambda>(_, t). live t \<and> same_gate s t)"
proof -
  have "keeps (fdir_subsystem_register desc out s) (\<lambda>(_, t). same_gate s t)"
    using liveD(1) [OF assms] by (cases rule: subsystem_register_cases [of s desc out]) (simp_all add: same_gate_def)
  from returns_conj [OF call_steps(6) [OF assms] this] show ?thesis
    by (rule returns_mono) (auto intro: api_step_live [OF _ assms])
qed

lemma worker_registers:
  assumes "live s" "g_entity_count s = 0" "g_supervision_enabled s \<noteq> 0"
  shows "returns (fdir_entity_register (Some worker_desc) (Some i) s)
     (\<lambda>((status, out), t). status = FDIR_OK \<and> out = Some 0 \<and> demo_ready t)"
proof -
  have "register_status (Some worker_desc) (Some i) s = FDIR_OK"
    using assms(2) by (simp add: register_status_def worker_desc_def)
  with returns_conj [OF call_steps(7) [OF assms(1)]
      returns_keeps [OF entity_register_effect [OF assms(1)]], of "Some worker_desc" "Some i"]
  show ?thesis
    using assms by (auto simp: demo_ready_def elim!: returns_mono intro: api_step_live [OF _ assms(1)])
qed

lemma main_starts: "returns (main K s0) (\<lambda>(r, s). demo_ready s \<and> (\<exists>ids. r = Inr ids \<and> g_worker_id ids = 0))"
proof -
  have "port_is_valid (Some (fdir_app_port K))" by (simp add: port_is_valid_def fdir_app_port_def)
  note init = init_ok [OF this, of "Some main_cfg" s0] init_ok_live [OF this, of "Some main_cfg" s0]
  define s where "s = snd (fdir_init (Some main_cfg) (Some (fdir_app_port K)) s0)"
  have s: "fdir_init (Some main_cfg) (Some (fdir_app_port K)) s0 = (FDIR_OK, s)" "live s" "g_entity_count s = 0"
    "g_supervision_enabled s \<noteq> 0"
    using init by (simp_all add: s_def fdir_boot_def)
  have beat: "returns (Option.bind (fdir_health_heartbeat_notify 0 t) k) Q"
    if "demo_ready t" "\<And>u. demo_ready u \<Longrightarrow> returns (k u) Q" for t :: "'a rtos_env fdir" and k Q
    by (rule returns_bindI [OF returns_conj [OF call_steps(1) ready.beat [OF that(1)]]])
      (use that in \<open>auto simp: demo_ready_def\<close>)
  show ?thesis
    unfolding main_def s(1) Let_def prod.case
    apply (simp only: simp_thms if_False)
    apply (rule returns_bindI [OF subsystem_register_gate [OF s(2)]], clarify)
    apply (rule returns_bindI, erule subsystem_register_gate, clarify)
    apply (rule returns_bindI, erule worker_registers, simp_all add: s(3,4) same_gate_def, clarify)
    apply (simp add: id_of_def)
    apply (erule beat)
    apply (simp add: ready.put_inv)
    done
qed

interpretation demo_sys: inductive_invariant
  "\<lambda>d. \<exists>s0 s. main K s0 = Some (Inr ids, s) \<and> d = \<lparr>dm_lib = s, dm_worker = W_gate, dm_scenario = 0\<rparr>"
  "demo_step K ids" "demo_run K ids" "\<lambda>d. demo_ready (dm_lib d) \<and> g_worker_id ids = 0" for K ids
proof unfold_locales
  fix d and Q :: "'a demo \<Rightarrow> bool"
  assume "demo_run K ids d"
    "\<And>d. \<exists>s0 s. main K s0 = Some (Inr ids, s) \<and> d = \<lparr>dm_lib = s, dm_worker = W_gate, dm_scenario = 0\<rparr> \<Longrightarrow> Q d"
    "\<And>d d'. demo_run K ids d \<Longrightarrow> Q d \<Longrightarrow> demo_step K ids d d' \<Longrightarrow> Q d'"
  then show "Q d" by induction blast+
next
  fix d assume "\<exists>s0 s. main K s0 = Some (Inr ids, s) \<and> d = \<lparr>dm_lib = s, dm_worker = W_gate, dm_scenario = 0\<rparr>"
  then show "demo_ready (dm_lib d) \<and> g_worker_id ids = 0" using returnsD [OF main_starts] by fastforce
next
  fix d d' :: "'a demo" assume "demo_ready (dm_lib d) \<and> g_worker_id ids = 0" "demo_step K ids d d'"
  then show "demo_ready (dm_lib d') \<and> g_worker_id ids = 0" using ready.step_inv by blast
qed

text \<open>
  The FreeRTOS demo never gets stuck in the library: \<open>main\<close> starts the tasks, and whatever the
  kernel schedules, the next statement of the worker, of the supervisor and of the scenario task
  returns.
\<close>

theorem demo_never_stuck:
  "returns (main K s0) (\<lambda>(r, s). \<exists>ids. r = Inr ids) \<and>
   (demo_run K ids d \<longrightarrow>
      returns (worker_task ids (dm_worker d) (dm_lib d)) (\<lambda>_. True) \<and>
      returns (supervisor_task (dm_lib d)) (\<lambda>_. True) \<and>
      (dm_scenario d < length (scenario_task K ids) \<longrightarrow>
         returns ((scenario_task K ids ! dm_scenario d) (dm_lib d)) (\<lambda>_. True)))"
proof (intro conjI impI)
  show "returns (main K s0) (\<lambda>(r, s). \<exists>ids. r = Inr ids)"
    by (rule returns_mono [OF main_starts]) auto
  assume "demo_run K ids d"
  then have live: "live (dm_lib d)" using demo_sys.reach_inv demo_ready_def by blast
  show "returns (worker_task ids (dm_worker d) (dm_lib d)) (\<lambda>_. True)"
    by (rule returns_mono [OF worker_task_live [OF live]]) simp
  show "returns (supervisor_task (dm_lib d)) (\<lambda>_. True)"
    unfolding supervisor_task_def by (rule supervisor_tick_returns [OF live])
  assume "dm_scenario d < length (scenario_task K ids)"
  then show "returns ((scenario_task K ids ! dm_scenario d) (dm_lib d)) (\<lambda>_. True)"
    by (intro returns_mono [OF scenario_task_live [OF live nth_mem]]) simp_all
qed


subsection \<open>The third scenario\<close>

text \<open>
  After the second scenario the worker stands FAILED, its budget used up. In such a standstill, with
  every registered entity FAILED and no report waiting, reports are dropped and the watchdogs pass.
\<close>

definition standstill :: "'e fdir \<Rightarrow> bool" where
  "standstill s \<longleftrightarrow> live s \<and> g_supervision_enabled s \<noteq> 0 \<and> g_mode s = FDIR_MODE_DEGRADED \<and> pending (fq s) = [] \<and>
     (\<forall>i. registered i s \<longrightarrow> failed i (hl s))"

lemma standstillD:
  assumes "standstill s"
  shows "live s" "g_supervision_enabled s \<noteq> 0" "g_mode s = FDIR_MODE_DEGRADED" "pending (fq s) = []"
    "registered i s \<Longrightarrow> failed i (hl s)"
  using assms by (simp_all add: standstill_def)

lemma standstill_outside: "outside s s' \<Longrightarrow> standstill s' = standstill s"
  using fdir_inv_outside [of s s'] by (simp add: standstill_def live_def outside_iff registered_def)

lemma watchdog_loop_idle:
  assumes "fdir_inv s" "\<And>i. registered i s \<Longrightarrow> \<not> overdue i now age s"
  shows "watchdog_loop eid now age s = Some s"
proof (induction "256 - unat eid" arbitrary: eid rule: less_induct)
  case less
  show ?case
  proof (cases "registered eid s")
    case True
    then show ?thesis
      using less.hyps [OF registered_next [OF True]] by (simp add: watchdog_loop_skip [OF assms(1) True assms(2)])
  qed (rule watchdog_loop_done)
qed

lemma tick_standstill:
  assumes "standstill s"
  shows "returns (fdir_supervisor_tick s) (outside s)"
proof -
  note D = standstillD [OF assms]
  let ?x = "fdir_port_sync_exit (fdir_port_sync_enter s)"
  let ?y = "fdir_port_sync_exit ((fdir_port_sync_enter ?x)\<lparr>fq := fq ?x\<rparr>)"
  have y: "outside s ?y" by (simp add: outside_iff)
  then have "standstill ?y" using assms standstill_outside by blast
  note Y = standstillD [OF this]
  obtain now e where now: "fdir_get_now_ms ?y = Some (now, ext (Call_now now) e ?y)"
    using get_now_returns [of ?y] liveD [OF Y(1)] by (auto simp: returns_def)
  let ?z = "fdir_port_sync_enter (fdir_port_sync_exit (fdir_port_sync_enter (ext (Call_now now) e ?y)))"
  have z: "outside s ?z" using y by (simp add: outside_iff)
  then have "standstill ?z" using assms standstill_outside by blast
  note Z = standstillD [OF this]
  have "watchdog_loop 0 now age ?z = Some ?z" for age
    by (rule watchdog_loop_idle [OF liveD(1) [OF Z(1)]]) (use Z(5) in \<open>simp add: overdue_def\<close>)
  moreover have "drain_queue zero_report ?x = Some ?y" using D(4) by (intro drain_queue_empty) simp
  ultimately have "fdir_supervisor_tick s = Some (fdir_port_sync_exit ?z)"
    using D(2) now by (simp add: fdir_supervisor_tick_def supervision_enabled_eq fdir_check_watchdogs_def Let_def)
  with z show ?thesis by (simp add: outside_iff)
qed

lemma calls_standstill:
  assumes "standstill s" "registered w s"
  shows "returns (fdir_report_fault w reason code detail s) (\<lambda>(_, t). outside s t)"
    and "returns (fdir_worker_may_run w s) (\<lambda>(run, t). run = 0 \<and> outside s t)"
proof -
  note D = standstillD [OF assms(1)] liveD [OF standstillD(1) [OF assms(1)]]
  let ?x = "fdir_port_sync_exit (fdir_port_sync_enter s)"
  have "suppressed w reason s" using D(5) [OF assms(2)] by (simp add: suppressed_def)
  then show "returns (fdir_report_fault w reason code detail s) (\<lambda>(_, t). outside s t)"
    by (simp add: report_fault_eq [OF D(6)] outside_iff)
  have "fdir_inv ?x" using D(6) by simp
  from entity_may_run_eq [OF this, of w] D assms(2)
  show "returns (fdir_worker_may_run w s) (\<lambda>(run, t). run = 0 \<and> outside s t)"
    by (simp add: fdir_worker_may_run_def system_mode_eq outside_iff registered_def fdir_mode_order)
qed

lemma standstill_holds: "standstill s \<Longrightarrow> live t \<Longrightarrow> holds_still s t \<Longrightarrow> standstill t"
  by (simp add: standstill_def holds_still_def registered_def)

text \<open>Nothing that the tasks do ends the standstill.\<close>

definition at_rest :: "fdir_entity_id \<Rightarrow> 'e fdir \<Rightarrow> bool" where
  "at_rest w s \<longleftrightarrow> standstill s \<and> registered w s"

lemma at_rest_outside: "outside s t \<Longrightarrow> at_rest w s \<Longrightarrow> at_rest w t"
  by (simp add: at_rest_def standstill_outside) (simp add: registered_def outside_iff)

lemma at_rest_env: "at_rest w s \<Longrightarrow> at_rest w (s\<lparr>env := e\<rparr>)" "at_rest w s \<Longrightarrow> at_rest w (put line s)"
  by (rule at_rest_outside [of s]; simp add: outside_iff put_def)+

lemma at_rest_calls:
  assumes "at_rest w s"
  shows "keeps (fdir_report_fault w reason code detail s) (\<lambda>(_, t). at_rest w t)"
    and "keeps (fdir_worker_may_run w s) (\<lambda>(_, t). at_rest w t)"
    and "keeps (fdir_health_heartbeat_notify w s) (at_rest w)"
    and "keeps (fdir_subsystem_mark_unavailable sid s) (at_rest w)"
    and "keeps (fdir_supervisor_tick s) (at_rest w)"
proof -
  have st: "standstill s" and reg: "registered w s" using assms by (simp_all add: at_rest_def)
  have live: "live s" and inv: "fdir_inv s" using standstillD(1) [OF st] liveD(1) by blast+
  have out: "outside s t \<Longrightarrow> at_rest w t" for t using at_rest_outside assms by blast
  have still: "api_step True s t \<Longrightarrow> holds_still s t \<Longrightarrow> at_rest w t" for t
    using standstill_holds [OF st api_step_live [OF _ live]] reg by (simp add: at_rest_def holds_still_def registered_def)
  show "keeps (fdir_report_fault w reason code detail s) (\<lambda>(_, t). at_rest w t)"
    by (rule keeps_mono [OF returns_keeps [OF calls_standstill(1) [OF st reg]]]) (auto intro: out)
  show "keeps (fdir_worker_may_run w s) (\<lambda>(_, t). at_rest w t)"
    by (rule keeps_mono [OF returns_keeps [OF calls_standstill(2) [OF st reg]]]) (auto intro: out)
  show "keeps (fdir_health_heartbeat_notify w s) (at_rest w)"
    using keeps_conj [OF returns_keeps [OF call_steps(1) [OF live]] heartbeat_holds [OF inv]]
    by (rule keeps_mono) (auto intro: still)
  show "keeps (fdir_subsystem_mark_unavailable sid s) (at_rest w)"
    using keeps_conj [OF returns_keeps [OF call_steps(3) [OF live]] mark_holds [OF inv]]
    by (rule keeps_mono) (auto intro: still)
  show "keeps (fdir_supervisor_tick s) (at_rest w)"
    by (rule keeps_mono [OF returns_keeps [OF tick_standstill [OF st]]]) (rule out)
qed

interpretation rest: task_invariant w "at_rest w" for w
  by unfold_locales
    (auto intro: at_rest_env at_rest_calls [unfolded fdir_report_fault_def] at_rest_outside simp: outside_iff)

text \<open>
  C39. The third scenario of the FreeRTOS demo cannot do what it announces, in the runs in which no call of
  the library is preempted; \<open>docs/threading.md\<close> demands this for a port without lock, and the demo's
  preemptive configuration does not ensure it. From a state of such a run in which the worker stands FAILED,
  the mode is DEGRADED and no report waits, which is where the second scenario ends, no sequence of the
  tasks' steps raises the mode: the report that is meant to trigger the assessment of the two unavailable
  subsystems is dropped, since it is about a FAILED entity, and the mode stays DEGRADED.
\<close>

theorem scenario3_stays_degraded:
  assumes "demo_run K ids d" "failed (g_worker_id ids) (hl (dm_lib d))" "pending (fq (dm_lib d)) = []"
    "g_mode (dm_lib d) = FDIR_MODE_DEGRADED" "(demo_step K ids)\<^sup>*\<^sup>* d d'"
  shows "g_mode (dm_lib d') = FDIR_MODE_DEGRADED"
proof -
  have ready: "demo_ready (dm_lib d)" "g_worker_id ids = 0" using demo_sys.reach_inv [OF assms(1)] by simp_all
  have "at_rest (g_worker_id ids) (dm_lib d)"
    using ready assms(2-4)
    by (auto simp: at_rest_def standstill_def demo_ready_def registered_def word_less_1)
  with rest.steps_inv [OF assms(5) refl] show ?thesis by (simp add: at_rest_def standstill_def)
qed

text \<open>A run of the demo by a schedule, a list of the tasks in the order in which they make a step.\<close>

datatype task = Worker | Supervisor | Scenario

fun run_task :: "'k rtos \<Rightarrow> ids \<Rightarrow> task \<Rightarrow> 'k demo \<Rightarrow> 'k demo option" where
  "run_task K ids Worker d =
     map_option (\<lambda>(pc, s). d\<lparr>dm_lib := s, dm_worker := pc\<rparr>) (worker_task ids (dm_worker d) (dm_lib d))"
| "run_task K ids Supervisor d = map_option (\<lambda>s. d\<lparr>dm_lib := s\<rparr>) (supervisor_task (dm_lib d))"
| "run_task K ids Scenario d =
     (if dm_scenario d < length (scenario_task K ids)
      then map_option (\<lambda>s. d\<lparr>dm_lib := s, dm_scenario := Suc (dm_scenario d)\<rparr>)
             ((scenario_task K ids ! dm_scenario d) (dm_lib d))
      else None)"

fun run_tasks :: "'k rtos \<Rightarrow> ids \<Rightarrow> task list \<Rightarrow> 'k demo \<Rightarrow> 'k demo option" where
  "run_tasks K ids [] d = Some d"
| "run_tasks K ids (x # xs) d = Option.bind (run_task K ids x d) (run_tasks K ids xs)"

lemma run_tasks_steps: "run_tasks K ids xs d = Some d' \<Longrightarrow> (demo_step K ids)\<^sup>*\<^sup>* d d'"
proof (induction xs arbitrary: d)
  case (Cons x xs)
  then obtain d1 where d1: "run_task K ids x d = Some d1" "(demo_step K ids)\<^sup>*\<^sup>* d1 d'" by (auto split: bind_splits)
  have "demo_step K ids d d1" using d1(1) by (cases x) (auto intro: demo_step.intros split: if_splits)
  then show ?case using d1(2) by (rule converse_rtranclp_into_rtranclp)
qed simp

lemma demo_run_steps: "(demo_step K ids)\<^sup>*\<^sup>* d d' \<Longrightarrow> demo_run K ids d \<Longrightarrow> demo_run K ids d'"
  by (induction rule: rtranclp_induct) (auto intro: demo_run.step)

definition fast_kernel :: "u32 rtos" where
  "fast_kernel = \<lparr>xTaskGetTickCount = (\<lambda>k. (k, k + 2000)), vTaskEndScheduler = (\<lambda>k. k), portTICK_PERIOD_MS = 1\<rparr>"

definition rtos_boot :: "u32 rtos_env fdir" where
  "rtos_boot = fdir_boot \<lparr>kernel = 5000, g_stop_heartbeat = 0, g_inject_fault = 0, stdout = []\<rparr>"

definition demo_ids :: ids where
  "demo_ids = \<lparr>g_worker_id = 0, g_sub_downlink = 0, g_sub_storage = 1\<rparr>"

text \<open>A worker that is not scheduled while the supervisor runs twice: two missed heartbeats.\<close>

definition two_misses :: "(int + ids) option \<times> u32 demo option" where
  "two_misses =
     (case main fast_kernel rtos_boot of
        None \<Rightarrow> (None, None)
      | Some (r, s) \<Rightarrow>
          (Some r,
           run_tasks fast_kernel demo_ids
             [Supervisor, Supervisor]
             \<lparr>dm_lib = s, dm_worker = W_gate, dm_scenario = 0\<rparr>))"

lemma two_misses_result:
  "case two_misses of (r, d) \<Rightarrow> r = Some (Inr demo_ids) \<and>
     (case d of None \<Rightarrow> False
      | Some d \<Rightarrow> failed 0 (hl (dm_lib d)) \<and> g_count (fq (dm_lib d)) = 0 \<and> g_mode (dm_lib d) = FDIR_MODE_DEGRADED)"
  by code_simp

lemma two_misses_run:
  obtains d where "demo_run fast_kernel demo_ids d" "failed (g_worker_id demo_ids) (hl (dm_lib d))"
    "pending (fq (dm_lib d)) = []" "g_mode (dm_lib d) = FDIR_MODE_DEGRADED"
proof -
  obtain s d where s: "main fast_kernel rtos_boot = Some (Inr demo_ids, s)"
    and d: "run_tasks fast_kernel demo_ids
             [Supervisor, Supervisor]
             \<lparr>dm_lib = s, dm_worker = W_gate, dm_scenario = 0\<rparr> = Some d"
      "failed 0 (hl (dm_lib d))" "g_count (fq (dm_lib d)) = 0" "g_mode (dm_lib d) = FDIR_MODE_DEGRADED"
    using two_misses_result by (auto simp: two_misses_def split: option.splits prod.splits)
  have "demo_run fast_kernel demo_ids d"
    by (rule demo_run_steps [OF run_tasks_steps [OF d(1)] demo_run.start [OF s]])
  with d show ?thesis by (intro that) (simp_all add: pending_Nil_iff demo_ids_def)
qed

theorem scenario3_stays_degraded_witness:
  "\<exists>d. demo_run fast_kernel demo_ids d \<and> failed (g_worker_id demo_ids) (hl (dm_lib d)) \<and>
     (\<nexists>d'. (demo_step fast_kernel demo_ids)\<^sup>*\<^sup>* d d' \<and> g_mode (dm_lib d') \<noteq> FDIR_MODE_DEGRADED)"
proof -
  obtain d where d: "demo_run fast_kernel demo_ids d" "failed (g_worker_id demo_ids) (hl (dm_lib d))"
    "pending (fq (dm_lib d)) = []" "g_mode (dm_lib d) = FDIR_MODE_DEGRADED"
    by (rule two_misses_run)
  with scenario3_stays_degraded [OF d(1-4)] show ?thesis by blast
qed

theorem demo_never_stuck_witness:
  "\<exists>d. demo_run fast_kernel demo_ids d \<and> returns (supervisor_task (dm_lib d)) (\<lambda>_. True)"
  using two_misses_run demo_never_stuck [of fast_kernel rtos_boot demo_ids] by metis

end
