(* ===== verification/Job_Queue.thy ===== *)
theory Job_Queue
  imports Bounded_Fifo
begin

text \<open>
  The job queue of the file copy example, \<open>examples/filecopy/worker.h\<close> and \<open>worker.c\<close>: a ring buffer
  behind a mutex with two condition variables. An operation is modelled as one attempt with the mutex
  held: it either has to wait on its condition variable or runs to the end. The waiting itself is the
  subject of the theory \<open>File_Copy\<close>. The indices are C's \<open>int\<close>; the invariant keeps them far from
  overflow.
\<close>

abbreviation (input) JOB_PATH_MAX :: nat where "JOB_PATH_MAX \<equiv> 4096"
abbreviation (input) JOB_QUEUE_CAP :: nat where "JOB_QUEUE_CAP \<equiv> 4096"

record copy_job =
  cj_src :: cbuf
  cj_dst :: cbuf

record job_queue =
  jobs :: "copy_job list"
  head :: int
  tail :: int
  count :: int
  producer_done :: int

datatype 'r attempt = Wait | Done 'r

definition zero_job :: copy_job where
  "zero_job = \<lparr>cj_src = zero_buf JOB_PATH_MAX, cj_dst = zero_buf JOB_PATH_MAX\<rparr>"

text \<open>\<open>memset\<close> clears every field; the old value does not matter.\<close>

definition job_queue_init :: "job_queue \<Rightarrow> job_queue" where
  "job_queue_init q =
     \<lparr>jobs = replicate JOB_QUEUE_CAP zero_job, head = 0, tail = 0, count = 0, producer_done = 0\<rparr>"

definition job_queue_push :: "copy_job \<Rightarrow> job_queue \<Rightarrow> job_queue attempt option" where
  "job_queue_push job q =
     (if count q = int JOB_QUEUE_CAP then Some Wait
      else if tail q < 0 then None
      else do {
        js \<leftarrow> arr_set (jobs q) (nat (tail q)) job;
        let q = q\<lparr>jobs := js\<rparr>;
        let q = q\<lparr>tail := (tail q + 1) mod int JOB_QUEUE_CAP\<rparr>;
        Some (Done (q\<lparr>count := count q + 1\<rparr>))
      })"

definition job_queue_pop :: "copy_job \<Rightarrow> job_queue \<Rightarrow> ((int \<times> copy_job) \<times> job_queue) attempt option" where
  "job_queue_pop out q =
     (if count q = 0 \<and> producer_done q = 0 then Some Wait
      else if count q = 0 then Some (Done ((0, out), q))
      else if head q < 0 then None
      else do {
        job \<leftarrow> arr_get (jobs q) (nat (head q));
        let q = q\<lparr>head := (head q + 1) mod int JOB_QUEUE_CAP\<rparr>;
        Some (Done ((1, job), q\<lparr>count := count q - 1\<rparr>))
      })"

definition job_queue_finish :: "job_queue \<Rightarrow> job_queue" where
  "job_queue_finish q = q\<lparr>producer_done := 1\<rparr>"


subsection \<open>Invariant and content\<close>

definition jq_inv :: "job_queue \<Rightarrow> bool" where
  "jq_inv q \<longleftrightarrow>
     length (jobs q) = JOB_QUEUE_CAP \<and> 0 \<le> head q \<and> head q < int JOB_QUEUE_CAP \<and>
     0 \<le> count q \<and> count q \<le> int JOB_QUEUE_CAP \<and> tail q = (head q + count q) mod int JOB_QUEUE_CAP"

definition waiting_jobs :: "job_queue \<Rightarrow> copy_job list" where
  "waiting_jobs q = map (\<lambda>k. jobs q ! ((nat (head q) + k) mod JOB_QUEUE_CAP)) [0..<nat (count q)]"

lemma length_waiting_jobs [simp]: "length (waiting_jobs q) = nat (count q)"
  by (simp add: waiting_jobs_def)

lemma waiting_jobs_Nil: "jq_inv q \<Longrightarrow> waiting_jobs q = [] \<longleftrightarrow> count q = 0"
  by (auto simp: waiting_jobs_def jq_inv_def)

lemma jq_inv_init [simp]: "jq_inv (job_queue_init q)"
  by (simp add: jq_inv_def job_queue_init_def)

lemma waiting_jobs_init [simp]: "waiting_jobs (job_queue_init q) = []"
  by (simp add: waiting_jobs_def job_queue_init_def)

lemma finish_simps [simp]:
  "jq_inv (job_queue_finish q) = jq_inv q" "waiting_jobs (job_queue_finish q) = waiting_jobs q"
  "producer_done (job_queue_finish q) = 1" "count (job_queue_finish q) = count q"
  by (simp_all add: job_queue_finish_def jq_inv_def waiting_jobs_def)

lemma tail_nat:
  assumes "jq_inv q"
  shows "nat (tail q) = (nat (head q) + nat (count q)) mod JOB_QUEUE_CAP" "0 \<le> tail q"
  using assms by (auto simp: jq_inv_def nat_mod_distrib nat_add_distrib)

lemma push_room:
  assumes "jq_inv q" "count q \<noteq> int JOB_QUEUE_CAP"
  obtains q' where "job_queue_push job q = Some (Done q')" "jq_inv q'"
    "waiting_jobs q' = waiting_jobs q @ [job]" "producer_done q' = producer_done q"
proof -
  let ?h = "nat (head q)" and ?c = "nat (count q)" and ?t = "nat (tail q)"
  define q' where "q' = q\<lparr>jobs := (jobs q)[?t := job], tail := (tail q + 1) mod 4096, count := count q + 1\<rparr>"
  have c: "?c < 4096" and len: "length (jobs q) = 4096" and t: "?t = (?h + ?c) mod 4096"
    using assms tail_nat [OF assms(1)] by (auto simp: jq_inv_def)
  have "job_queue_push job q = Some (Done q')"
    using assms tail_nat [OF assms(1)] len by (simp add: job_queue_push_def q'_def Let_def)
  moreover have "jq_inv q'"
    using assms by (auto simp: jq_inv_def q'_def mod_simps algebra_simps)
  moreover have "waiting_jobs q' = waiting_jobs q @ [job]"
  proof -
    have "(jobs q)[?t := job] ! ((?h + k) mod 4096) = jobs q ! ((?h + k) mod 4096)" if "k < ?c" for k
      unfolding t by (rule nth_list_update_neq) (use that c in \<open>simp add: ring_index_distinct\<close>)
    then show ?thesis
      using assms(1) len t by (simp add: waiting_jobs_def q'_def jq_inv_def nat_add_distrib)
  qed
  ultimately show ?thesis using that by (simp add: q'_def)
qed

lemma pop_some:
  assumes "jq_inv q" "count q \<noteq> 0"
  obtains q' where "job_queue_pop out q = Some (Done ((1, hd (waiting_jobs q)), q'))" "jq_inv q'"
    "waiting_jobs q' = tl (waiting_jobs q)" "producer_done q' = producer_done q"
proof -
  let ?h = "nat (head q)"
  define q' where "q' = q\<lparr>head := (head q + 1) mod 4096, count := count q - 1\<rparr>"
  obtain n where n: "nat (count q) = Suc n" using assms by (cases "nat (count q)") (auto simp: jq_inv_def)
  have h: "?h < 4096" "0 \<le> head q" "length (jobs q) = 4096" using assms(1) by (auto simp: jq_inv_def)
  have step: "waiting_jobs q = jobs q ! ?h # map (\<lambda>k. jobs q ! ((?h + Suc k) mod 4096)) [0..<n]"
    using h by (simp add: waiting_jobs_def n map_upt_Suc del: upt_Suc)
  have "job_queue_pop out q = Some (Done ((1, hd (waiting_jobs q)), q'))"
    using assms(2) h step by (simp add: job_queue_pop_def q'_def Let_def)
  moreover have "jq_inv q'"
  proof -
    have "((head q + 1) mod 4096 + (count q - 1)) mod 4096 = (head q + 1 + (count q - 1)) mod 4096"
      by (rule mod_add_left_eq)
    then show ?thesis using assms by (auto simp: jq_inv_def q'_def)
  qed
  moreover have "waiting_jobs q' = tl (waiting_jobs q)"
  proof -
    have "nat ((head q + 1) mod 4096) = (?h + 1) mod 4096" "nat (count q - 1) = n"
      using h n by (auto simp: nat_mod_distrib nat_add_distrib)
    then show ?thesis unfolding step by (simp add: waiting_jobs_def q'_def mod_simps)
  qed
  ultimately show ?thesis using that by (simp add: q'_def)
qed

lemma push_full: "count q = int JOB_QUEUE_CAP \<Longrightarrow> job_queue_push job q = Some Wait"
  by (simp add: job_queue_push_def)

lemma pop_empty:
  "count q = 0 \<Longrightarrow> job_queue_pop out q = Some (if producer_done q = 0 then Wait else Done ((0, out), q))"
  by (simp add: job_queue_pop_def)

text \<open>The attempts as operations with a return code, 1 for an attempt that yields nothing.\<close>

definition try_push :: "copy_job \<Rightarrow> job_queue \<Rightarrow> (int \<times> job_queue) option" where
  "try_push job q = map_option (\<lambda>a. case a of Wait \<Rightarrow> (1, q) | Done q' \<Rightarrow> (0, q')) (job_queue_push job q)"

definition try_pop :: "copy_job \<Rightarrow> job_queue \<Rightarrow> (int \<times> copy_job \<times> job_queue) option" where
  "try_pop out q =
     map_option (\<lambda>a. case a of Wait \<Rightarrow> (1, out, q) | Done ((rc, job), q') \<Rightarrow> (1 - rc, job, q')) (job_queue_pop out q)"

interpretation jobs: bounded_fifo JOB_QUEUE_CAP "job_queue_init q0" try_push try_pop waiting_jobs jq_inv for q0
proof unfold_locales
  fix q x
  assume inv: "jq_inv q"
  show "length (waiting_jobs q) \<le> 4096" using inv by (simp add: jq_inv_def nat_le_iff)
  show "returns (try_push x q) (\<lambda>(rc, q'). rc = 0 \<and> jq_inv q' \<and> waiting_jobs q' = waiting_jobs q @ [x])"
    if "length (waiting_jobs q) < 4096"
    using push_room [OF inv, of x] that by (force simp: try_push_def)
  show "returns (try_push x q) (\<lambda>(rc, q'). rc \<noteq> 0 \<and> jq_inv q' \<and> waiting_jobs q' = waiting_jobs q)"
    if "length (waiting_jobs q) = 4096"
    using push_full [of q x] inv that by (simp add: try_push_def nat_eq_iff2)
  show "returns (try_pop x q) (\<lambda>(rc, y, q'). rc = 0 \<and> y = hd (waiting_jobs q) \<and> jq_inv q' \<and> waiting_jobs q' = tl (waiting_jobs q))"
    if "waiting_jobs q \<noteq> []"
    using pop_some [OF inv, of x] waiting_jobs_Nil [OF inv] that by (force simp: try_pop_def)
  show "returns (try_pop x q) (\<lambda>(rc, y, q'). rc \<noteq> 0 \<and> y = x \<and> q' = q)" if "waiting_jobs q = []"
    using pop_empty [of q x] waiting_jobs_Nil [OF inv] that by (simp add: try_pop_def)
qed simp_all

end
