(* ===== verification/File_Copy.thy ===== *)
theory File_Copy
  imports "HOL-Library.Multiset" Job_Queue
begin

text \<open>
  The threads of the file copy example around its job queue: the walker of the directory tree, which
  pushes the jobs and then marks the queue finished, and the workers, which pop jobs until the queue is
  drained. The condition variables are modelled with their wait sets: a thread that waits runs on only
  when it is signalled (or wakes up spuriously, as POSIX permits), so that a lost wakeup would show as
  a deadlock. A worker's loop has the stations of \<open>worker_thread\<close>: the gate \<open>fdir_worker_may_run\<close>, the
  pop, the copy of the job it took, and its end, after a failed copy or a drained queue. The copy itself
  is the theory \<open>Copy_File\<close>; here it succeeds or fails.
\<close>

subsection \<open>Threads and their steps\<close>

datatype walker = Pushing | Push_waiting | Walked

datatype worker = At_gate | Popping | Pop_waiting | Copying copy_job | Exited

record fcopy =
  fc_queue :: job_queue
  fc_walker :: walker
  fc_todo :: "copy_job list"
  fc_workers :: "worker list"
  fc_taken :: "copy_job list"
  fc_copied :: "copy_job list"
  fc_failures :: "copy_job list"
  fc_aborted :: bool

definition wake_all :: "worker list \<Rightarrow> worker list" where
  "wake_all = map (\<lambda>w. if w = Pop_waiting then Popping else w)"

definition wake_walker :: "walker \<Rightarrow> walker" where
  "wake_walker w = (if w = Push_waiting then Pushing else w)"

text \<open>\<open>pthread_cond_signal\<close> on \<open>not_empty\<close> wakes one of the waiting workers, if there is one.\<close>

inductive signalled :: "worker list \<Rightarrow> worker list \<Rightarrow> bool" where
  nobody: "Pop_waiting \<notin> set ws \<Longrightarrow> signalled ws ws"
| one: "i < length ws \<Longrightarrow> ws ! i = Pop_waiting \<Longrightarrow> signalled ws (ws[i := Popping])"

text \<open>The steps that the threads make on their own.\<close>

inductive thread_step :: "fcopy \<Rightarrow> fcopy \<Rightarrow> bool" where
  push_wait: "fc_walker c = Pushing \<Longrightarrow> fc_todo c = job # js \<Longrightarrow> job_queue_push job (fc_queue c) = Some Wait \<Longrightarrow>
    thread_step c (c\<lparr>fc_walker := Push_waiting\<rparr>)"
| push: "fc_walker c = Pushing \<Longrightarrow> fc_todo c = job # js \<Longrightarrow> job_queue_push job (fc_queue c) = Some (Done q) \<Longrightarrow>
    signalled (fc_workers c) ws \<Longrightarrow> thread_step c (c\<lparr>fc_queue := q, fc_todo := js, fc_workers := ws\<rparr>)"
| finish: "fc_walker c = Pushing \<Longrightarrow> fc_todo c = [] \<Longrightarrow>
    thread_step c (c\<lparr>fc_queue := job_queue_finish (fc_queue c), fc_walker := Walked,
      fc_workers := wake_all (fc_workers c)\<rparr>)"
| pop_wait: "i < length (fc_workers c) \<Longrightarrow> fc_workers c ! i = Popping \<Longrightarrow>
    job_queue_pop out (fc_queue c) = Some Wait \<Longrightarrow>
    thread_step c (c\<lparr>fc_workers := (fc_workers c)[i := Pop_waiting]\<rparr>)"
| pop: "i < length (fc_workers c) \<Longrightarrow> fc_workers c ! i = Popping \<Longrightarrow>
    job_queue_pop out (fc_queue c) = Some (Done ((1, job), q)) \<Longrightarrow>
    thread_step c (c\<lparr>fc_queue := q, fc_workers := (fc_workers c)[i := Copying job],
      fc_taken := fc_taken c @ [job], fc_walker := wake_walker (fc_walker c)\<rparr>)"
| drained: "i < length (fc_workers c) \<Longrightarrow> fc_workers c ! i = Popping \<Longrightarrow>
    job_queue_pop out (fc_queue c) = Some (Done ((0, job), q)) \<Longrightarrow>
    thread_step c (c\<lparr>fc_queue := q, fc_workers := wake_all ((fc_workers c)[i := Exited])\<rparr>)"
| copied: "i < length (fc_workers c) \<Longrightarrow> fc_workers c ! i = Copying job \<Longrightarrow>
    thread_step c (c\<lparr>fc_workers := (fc_workers c)[i := At_gate], fc_copied := job # fc_copied c\<rparr>)"
| copy_failed: "i < length (fc_workers c) \<Longrightarrow> fc_workers c ! i = Copying job \<Longrightarrow>
    thread_step c (c\<lparr>fc_workers := (fc_workers c)[i := Exited], fc_failures := job # fc_failures c\<rparr>)"

text \<open>
  What happens to the threads from outside: the library lets a worker through the gate (as long as it
  does not, the worker sleeps and asks again) and restarts a worker that has ended, the supervisor
  thread aborts the copy in SAFE mode, and threads wake up spuriously.
\<close>

inductive outside_step :: "fcopy \<Rightarrow> fcopy \<Rightarrow> bool" where
  may_run: "i < length (fc_workers c) \<Longrightarrow> fc_workers c ! i = At_gate \<Longrightarrow>
    outside_step c (c\<lparr>fc_workers := (fc_workers c)[i := Popping]\<rparr>)"
| restart: "i < length (fc_workers c) \<Longrightarrow> fc_workers c ! i = Exited \<Longrightarrow>
    outside_step c (c\<lparr>fc_workers := (fc_workers c)[i := At_gate]\<rparr>)"
| abort: "outside_step c (c\<lparr>fc_queue := job_queue_finish (fc_queue c), fc_aborted := True,
      fc_workers := wake_all (fc_workers c)\<rparr>)"
| spurious: "i < length (fc_workers c) \<Longrightarrow> fc_workers c ! i = Pop_waiting \<Longrightarrow>
    outside_step c (c\<lparr>fc_workers := (fc_workers c)[i := Popping]\<rparr>)"
| spurious_walker: "outside_step c (c\<lparr>fc_walker := wake_walker (fc_walker c)\<rparr>)"

definition fcopy_start :: "nat \<Rightarrow> copy_job list \<Rightarrow> job_queue \<Rightarrow> fcopy" where
  "fcopy_start n js q =
     \<lparr>fc_queue = job_queue_init q, fc_walker = Pushing, fc_todo = js, fc_workers = replicate n At_gate,
      fc_taken = [], fc_copied = [], fc_failures = [], fc_aborted = False\<rparr>"

inductive fcopy_run :: "nat \<Rightarrow> copy_job list \<Rightarrow> fcopy \<Rightarrow> bool" for n js where
  start: "fcopy_run n js (fcopy_start n js q)"
| thread: "fcopy_run n js c \<Longrightarrow> thread_step c c' \<Longrightarrow> fcopy_run n js c'"
| outer: "fcopy_run n js c \<Longrightarrow> outside_step c c' \<Longrightarrow> fcopy_run n js c'"


subsection \<open>The invariant\<close>

definition popping :: "worker list \<Rightarrow> nat set" where
  "popping ws = {i. i < length ws \<and> ws ! i = Popping}"

definition fcopy_inv :: "copy_job list \<Rightarrow> fcopy \<Rightarrow> bool" where
  "fcopy_inv js c \<longleftrightarrow>
     jq_inv (fc_queue c) \<and>
     fc_taken c @ waiting_jobs (fc_queue c) @ fc_todo c = js \<and>
     (fc_walker c = Push_waiting \<longrightarrow> count (fc_queue c) = int JOB_QUEUE_CAP) \<and>
     (fc_walker c = Walked \<longrightarrow> fc_todo c = []) \<and>
     (producer_done (fc_queue c) \<noteq> 0 \<longleftrightarrow> fc_walker c = Walked \<or> fc_aborted c) \<and>
     (Pop_waiting \<in> set (fc_workers c) \<longrightarrow>
        producer_done (fc_queue c) = 0 \<and> length (waiting_jobs (fc_queue c)) \<le> card (popping (fc_workers c))) \<and>
     (Exited \<in> set (fc_workers c) \<and> fc_failures c = [] \<and> \<not> fc_aborted c \<longrightarrow>
        waiting_jobs (fc_queue c) = [] \<and> fc_todo c = [])"

lemma finite_popping [simp]: "finite (popping ws)"
  by (simp add: popping_def)

lemma popping_update:
  assumes "i < length ws"
  shows "popping (ws[i := Popping]) = insert i (popping ws)"
    "w \<noteq> Popping \<Longrightarrow> popping (ws[i := w]) = popping ws - {i}"
  using assms by (auto simp: popping_def nth_list_update_if)

lemma card_popping_wake:
  assumes "i < length ws" "ws ! i \<noteq> Popping"
  shows "card (popping (ws[i := Popping])) = Suc (card (popping ws))"
  using assms by (simp add: popping_update) (simp add: popping_def)

lemma card_popping_leave:
  assumes "i < length ws" "ws ! i = Popping" "w \<noteq> Popping"
  shows "Suc (card (popping (ws[i := w]))) = card (popping ws)"
proof -
  have "i \<in> popping ws" using assms by (simp add: popping_def)
  then have "Suc (card (popping ws - {i})) = card (popping ws)" by (rule card_Suc_Diff1 [OF finite_popping])
  then show ?thesis by (simp only: popping_update(2) [OF assms(1,3)])
qed

lemma wake_all_set: "Pop_waiting \<notin> set (wake_all ws)" "Exited \<in> set (wake_all ws) \<longleftrightarrow> Exited \<in> set ws"
  by (auto simp: wake_all_def)

lemma set_update_other: "x \<in> set (xs[i := y]) \<Longrightarrow> x \<noteq> y \<Longrightarrow> x \<in> set xs"
  using set_update_subset_insert [of xs i y] by auto

lemma start_inv: "fcopy_inv js (fcopy_start n js q)"
  by (simp add: fcopy_inv_def fcopy_start_def) (simp add: job_queue_init_def)

lemma signalled_inv:
  assumes "signalled ws ws'" "Pop_waiting \<in> set ws'"
  shows "Pop_waiting \<in> set ws" "card (popping ws') = Suc (card (popping ws))"
  using assms by (cases rule: signalled.cases; auto dest: set_update_other simp: card_popping_wake)+

lemma signalled_exited: "signalled ws ws' \<Longrightarrow> Exited \<in> set ws' \<Longrightarrow> Exited \<in> set ws"
  by (cases rule: signalled.cases) (auto dest: set_update_other)

lemma fcopy_invD:
  assumes "fcopy_inv js c"
  shows "jq_inv (fc_queue c)" "fc_taken c @ waiting_jobs (fc_queue c) @ fc_todo c = js"
    "fc_walker c = Push_waiting \<Longrightarrow> count (fc_queue c) = int JOB_QUEUE_CAP"
    "fc_walker c = Walked \<Longrightarrow> fc_todo c = []"
    "producer_done (fc_queue c) \<noteq> 0 \<longleftrightarrow> fc_walker c = Walked \<or> fc_aborted c"
    "Pop_waiting \<in> set (fc_workers c) \<Longrightarrow> producer_done (fc_queue c) = 0"
    "Pop_waiting \<in> set (fc_workers c) \<Longrightarrow> length (waiting_jobs (fc_queue c)) \<le> card (popping (fc_workers c))"
    "Exited \<in> set (fc_workers c) \<Longrightarrow> fc_failures c = [] \<Longrightarrow> \<not> fc_aborted c \<Longrightarrow>
       waiting_jobs (fc_queue c) = [] \<and> fc_todo c = []"
  using assms by (auto simp: fcopy_inv_def)

lemma push_cases:
  assumes "jq_inv q" "job_queue_push job q = Some a"
  obtains "a = Wait" "count q = int JOB_QUEUE_CAP"
  | q' where "a = Done q'" "jq_inv q'" "waiting_jobs q' = waiting_jobs q @ [job]" "producer_done q' = producer_done q"
  using assms push_full [of q job] push_room [OF assms(1), of job]
  by (cases "count q = 4096") auto

lemma pop_cases:
  assumes "jq_inv q" "job_queue_pop out q = Some a"
  obtains "a = Wait" "waiting_jobs q = []" "producer_done q = 0"
  | "a = Done ((0, out), q)" "waiting_jobs q = []" "producer_done q \<noteq> 0"
  | job q' where "a = Done ((1, job), q')" "jq_inv q'" "waiting_jobs q = job # waiting_jobs q'"
      "producer_done q' = producer_done q"
proof (cases "count q = 0")
  case True
  with assms pop_empty [of q out] waiting_jobs_Nil [OF assms(1)] that(1,2) show ?thesis
    by (auto split: if_splits)
next
  case False
  with waiting_jobs_Nil [OF assms(1)] have "waiting_jobs q \<noteq> []" by simp
  then show ?thesis
    using pop_some [OF assms(1) False, of out] assms(2) that(3) by (metis list.collapse option.inject)
qed

lemma walker_step_inv:
  assumes "fcopy_inv js c" "fc_walker c = Pushing"
  shows "fc_todo c = job # rest \<Longrightarrow> job_queue_push job (fc_queue c) = Some Wait \<Longrightarrow>
       fcopy_inv js (c\<lparr>fc_walker := Push_waiting\<rparr>)"
    and "fc_todo c = job # rest \<Longrightarrow> job_queue_push job (fc_queue c) = Some (Done q) \<Longrightarrow>
       signalled (fc_workers c) ws \<Longrightarrow> fcopy_inv js (c\<lparr>fc_queue := q, fc_todo := rest, fc_workers := ws\<rparr>)"
    and "fc_todo c = [] \<Longrightarrow> fcopy_inv js (c\<lparr>fc_queue := job_queue_finish (fc_queue c), fc_walker := Walked,
       fc_workers := wake_all (fc_workers c)\<rparr>)"
proof -
  note D = fcopy_invD [OF assms(1)]
  show "fcopy_inv js (c\<lparr>fc_walker := Push_waiting\<rparr>)"
    if "fc_todo c = job # rest" "job_queue_push job (fc_queue c) = Some Wait"
    using push_cases [OF D(1) that(2)] assms by (auto simp: fcopy_inv_def)
  show "fcopy_inv js (c\<lparr>fc_queue := job_queue_finish (fc_queue c), fc_walker := Walked,
       fc_workers := wake_all (fc_workers c)\<rparr>)" if "fc_todo c = []"
    using D(1,2,8) that by (simp add: fcopy_inv_def wake_all_set)
  assume todo: "fc_todo c = job # rest" and p: "job_queue_push job (fc_queue c) = Some (Done q)"
    and sig: "signalled (fc_workers c) ws"
  have q: "jq_inv q" "waiting_jobs q = waiting_jobs (fc_queue c) @ [job]"
    "producer_done q = producer_done (fc_queue c)"
    using push_cases [OF D(1) p] by auto
  have "fc_failures c = [] \<and> \<not> fc_aborted c \<longrightarrow> Exited \<notin> set ws"
    using D(8) todo signalled_exited [OF sig] by auto
  moreover have "Pop_waiting \<in> set ws \<longrightarrow> producer_done q = 0 \<and> length (waiting_jobs q) \<le> card (popping ws)"
    using D(6,7) signalled_inv [OF sig] q by (simp del: length_waiting_jobs)
  ultimately show "fcopy_inv js (c\<lparr>fc_queue := q, fc_todo := rest, fc_workers := ws\<rparr>)"
    using D(2,5) q todo assms(2) by (simp add: fcopy_inv_def del: length_waiting_jobs) blast
qed

lemma pop_step_inv:
  assumes "fcopy_inv js c" "i < length (fc_workers c)" "fc_workers c ! i = Popping"
  shows "job_queue_pop out (fc_queue c) = Some Wait \<Longrightarrow>
       fcopy_inv js (c\<lparr>fc_workers := (fc_workers c)[i := Pop_waiting]\<rparr>)"
    and "job_queue_pop out (fc_queue c) = Some (Done ((1, job), q)) \<Longrightarrow>
       fcopy_inv js (c\<lparr>fc_queue := q, fc_workers := (fc_workers c)[i := Copying job],
         fc_taken := fc_taken c @ [job], fc_walker := wake_walker (fc_walker c)\<rparr>)"
    and "job_queue_pop out (fc_queue c) = Some (Done ((0, job), q)) \<Longrightarrow>
       fcopy_inv js (c\<lparr>fc_queue := q, fc_workers := wake_all ((fc_workers c)[i := Exited])\<rparr>)"
proof -
  note D = fcopy_invD [OF assms(1)]
  show "fcopy_inv js (c\<lparr>fc_workers := (fc_workers c)[i := Pop_waiting]\<rparr>)"
    if "job_queue_pop out (fc_queue c) = Some Wait"
  proof -
    have "waiting_jobs (fc_queue c) = []" "producer_done (fc_queue c) = 0" using pop_cases [OF D(1) that] by auto
    moreover have "Exited \<in> set ((fc_workers c)[i := Pop_waiting]) \<longrightarrow> Exited \<in> set (fc_workers c)"
      by (auto dest: set_update_other)
    ultimately show ?thesis
      using D(1-5,8) by (simp add: fcopy_inv_def del: length_waiting_jobs)
  qed
  show "fcopy_inv js (c\<lparr>fc_queue := q, fc_workers := wake_all ((fc_workers c)[i := Exited])\<rparr>)"
    if "job_queue_pop out (fc_queue c) = Some (Done ((0, job), q))"
  proof -
    have "q = fc_queue c" "waiting_jobs q = []" "producer_done q \<noteq> 0" using pop_cases [OF D(1) that] by auto
    with D(1-5) show ?thesis by (simp add: fcopy_inv_def wake_all_set del: length_waiting_jobs) blast
  qed
  assume p: "job_queue_pop out (fc_queue c) = Some (Done ((1, job), q))"
  have q: "jq_inv q" "waiting_jobs (fc_queue c) = job # waiting_jobs q" "producer_done q = producer_done (fc_queue c)"
    using pop_cases [OF D(1) p] by auto
  have w: "wake_walker (fc_walker c) \<noteq> Push_waiting" "wake_walker (fc_walker c) = Walked \<longleftrightarrow> fc_walker c = Walked"
    by (simp_all add: wake_walker_def)
  have "Pop_waiting \<in> set ((fc_workers c)[i := Copying job]) \<longrightarrow>
      producer_done q = 0 \<and> length (waiting_jobs q) \<le> card (popping ((fc_workers c)[i := Copying job]))"
    using D(6,7) q card_popping_leave [OF assms(2,3), of "Copying job"] set_update_other [of Pop_waiting "fc_workers c" i "Copying job"]
    by (auto simp del: length_waiting_jobs)
  moreover have "Exited \<notin> set ((fc_workers c)[i := Copying job]) \<or> fc_failures c \<noteq> [] \<or> fc_aborted c"
    using D(8) q(2) set_update_other [of Exited "fc_workers c" i "Copying job"] by auto
  ultimately show "fcopy_inv js (c\<lparr>fc_queue := q, fc_workers := (fc_workers c)[i := Copying job],
         fc_taken := fc_taken c @ [job], fc_walker := wake_walker (fc_walker c)\<rparr>)"
    using D(2,4,5) q w by (simp add: fcopy_inv_def del: length_waiting_jobs) blast
qed

lemma thread_step_inv:
  assumes "thread_step c c'" "fcopy_inv js c"
  shows "fcopy_inv js c'"
  using assms(1)
proof cases
  case (copied i job)
  then have "popping (fc_workers c') = popping (fc_workers c)"
    by (auto simp: popping_def nth_list_update_if)
  with copied assms(2) show ?thesis
    by (auto simp: fcopy_inv_def dest: set_update_other)
next
  case (copy_failed i job)
  then have "popping (fc_workers c') = popping (fc_workers c)"
    by (auto simp: popping_def nth_list_update_if)
  with copy_failed assms(2) show ?thesis
    by (auto simp: fcopy_inv_def dest: set_update_other)
qed (use walker_step_inv [OF assms(2)] pop_step_inv [OF assms(2)] in auto)

lemma outside_step_inv:
  assumes "outside_step c c'" "fcopy_inv js c"
  shows "fcopy_inv js c'"
  using assms(1)
proof cases
  case (may_run i)
  then show ?thesis using assms(2) by (auto simp: fcopy_inv_def card_popping_wake dest: set_update_other)
next
  case (restart i)
  then have "popping (fc_workers c') = popping (fc_workers c)"
    by (auto simp: popping_def nth_list_update_if)
  with restart assms(2) show ?thesis
    by (auto simp: fcopy_inv_def dest: set_update_other nth_mem)
next
  case abort
  then show ?thesis using assms(2) by (auto simp: fcopy_inv_def wake_all_set)
next
  case (spurious i)
  then show ?thesis using assms(2) by (auto simp: fcopy_inv_def card_popping_wake dest: set_update_other)
next
  case spurious_walker
  then show ?thesis using assms(2) by (auto simp: fcopy_inv_def wake_walker_def)
qed

lemma step_length:
  "thread_step c c' \<Longrightarrow> length (fc_workers c') = length (fc_workers c)"
  "outside_step c c' \<Longrightarrow> length (fc_workers c') = length (fc_workers c)"
  by (auto elim!: thread_step.cases outside_step.cases signalled.cases simp: wake_all_def)

text \<open>The jobs that the workers carry; every job taken is copied, failed or carried by one worker.\<close>

fun carried_by :: "worker \<Rightarrow> copy_job multiset" where
  "carried_by (Copying job) = {#job#}"
| "carried_by _ = {#}"

definition carried :: "worker list \<Rightarrow> copy_job multiset" where
  "carried ws = (\<Sum>w\<leftarrow>ws. carried_by w)"

definition copies_inv :: "fcopy \<Rightarrow> bool" where
  "copies_inv c \<longleftrightarrow> mset (fc_taken c) = mset (fc_copied c) + mset (fc_failures c) + carried (fc_workers c)"

lemma carried_update:
  "i < length ws \<Longrightarrow> carried (ws[i := w]) + carried_by (ws ! i) = carried ws + carried_by w"
proof (induction ws arbitrary: i)
  case (Cons v ws)
  then show ?case by (cases i) (auto simp: carried_def add_ac)
qed simp

lemma carried_idle_update:
  "i < length ws \<Longrightarrow> carried_by (ws ! i) = {#} \<Longrightarrow> carried (ws[i := w]) = carried ws + carried_by w"
  using carried_update [of i ws w] by simp

lemma carried_wake [simp]: "carried (wake_all ws) = carried ws"
  by (induction ws) (auto simp: carried_def wake_all_def)

lemma carried_signalled: "signalled ws ws' \<Longrightarrow> carried ws' = carried ws"
  by (cases rule: signalled.cases) (auto simp: carried_idle_update)

lemma carried_drop:
  assumes "i < length ws" "ws ! i = Copying job"
  shows "carried ws = add_mset job (carried (ws[i := Exited]))" "carried (ws[i := At_gate]) = carried (ws[i := Exited])"
  using carried_update [OF assms(1), of Exited] carried_update [OF assms(1), of At_gate] assms(2)
  by (metis add_mset_add_single carried_by.simps add_cancel_left_right add_right_imp_eq)+

lemma carried_idle: "(\<And>w. w \<in> set ws \<Longrightarrow> carried_by w = {#}) \<Longrightarrow> carried ws = {#}"
  by (induction ws) (auto simp: carried_def)

lemma step_copies:
  "thread_step c c' \<Longrightarrow> copies_inv c \<Longrightarrow> copies_inv c'"
  "outside_step c c' \<Longrightarrow> copies_inv c \<Longrightarrow> copies_inv c'"
  by (auto elim!: thread_step.cases outside_step.cases
      simp: copies_inv_def carried_idle_update carried_signalled carried_drop)

interpretation fcopy: inductive_invariant "\<lambda>c. \<exists>q. c = fcopy_start n js q" "\<lambda>c c'. thread_step c c' \<or> outside_step c c'"
  "fcopy_run n js" "\<lambda>c. fcopy_inv js c \<and> copies_inv c \<and> length (fc_workers c) = n" for n js
proof unfold_locales
  fix c and Q :: "fcopy \<Rightarrow> bool"
  assume "fcopy_run n js c" "\<And>c. \<exists>q. c = fcopy_start n js q \<Longrightarrow> Q c"
    "\<And>c c'. fcopy_run n js c \<Longrightarrow> Q c \<Longrightarrow> thread_step c c' \<or> outside_step c c' \<Longrightarrow> Q c'"
  then show "Q c" by induction blast+
next
  fix c assume "\<exists>q. c = fcopy_start n js q"
  then show "fcopy_inv js c \<and> copies_inv c \<and> length (fc_workers c) = n"
    by (auto simp: start_inv) (auto simp: fcopy_start_def copies_inv_def intro!: carried_idle split: if_splits)
next
  fix c c' assume "fcopy_inv js c \<and> copies_inv c \<and> length (fc_workers c) = n" "thread_step c c' \<or> outside_step c c'"
  then show "fcopy_inv js c' \<and> copies_inv c' \<and> length (fc_workers c') = n"
    using thread_step_inv outside_step_inv step_length step_copies by metis
qed


subsection \<open>Properties\<close>

definition all_exited :: "fcopy \<Rightarrow> bool" where
  "all_exited c \<longleftrightarrow> set (fc_workers c) \<subseteq> {Exited}"

lemma carried_exited: "all_exited c \<Longrightarrow> carried (fc_workers c) = {#}"
  by (rule carried_idle) (auto simp: all_exited_def)

text \<open>
  C37. No job is lost, duplicated or reordered, for any number of workers and any interleaving: the jobs
  taken, the jobs waiting and the jobs the walker still has to push are, in this order, the jobs of the
  directory tree, and every job taken has been copied, has failed or is being copied by exactly one
  worker. When all workers have ended, no copy failed and the run was not aborted, every job has been
  copied.
\<close>

theorem jobs_conserved:
  assumes "fcopy_run n js c"
  shows "fc_taken c @ waiting_jobs (fc_queue c) @ fc_todo c = js \<and>
     mset (fc_taken c) = mset (fc_copied c) + mset (fc_failures c) + carried (fc_workers c) \<and>
     (0 < n \<and> all_exited c \<and> fc_failures c = [] \<and> \<not> fc_aborted c \<longrightarrow> mset (fc_copied c) = mset js)"
proof -
  have inv: "fcopy_inv js c" and copies: "copies_inv c" and len: "length (fc_workers c) = n"
    using fcopy.reach_inv [OF assms] by simp_all
  have "Exited \<in> set (fc_workers c)" if "0 < n" "all_exited c"
  proof -
    from that(1) len have "fc_workers c \<noteq> []" by auto
    with that(2) show ?thesis unfolding all_exited_def by (cases "fc_workers c") auto
  qed
  with fcopy_invD(2,8) [OF inv] copies carried_exited [of c] show ?thesis by (auto simp: copies_inv_def)
qed

text \<open>One worker copies one file: a complete run.\<close>

definition blank_queue :: job_queue where
  "blank_queue = \<lparr>jobs = [], head = 0, tail = 0, count = 0, producer_done = 0\<rparr>"

definition one_worker :: "job_queue \<Rightarrow> walker \<Rightarrow> copy_job list \<Rightarrow> worker \<Rightarrow> copy_job list \<Rightarrow> copy_job list \<Rightarrow> fcopy" where
  "one_worker q w todo v taken copied =
     \<lparr>fc_queue = q, fc_walker = w, fc_todo = todo, fc_workers = [v], fc_taken = taken, fc_copied = copied,
      fc_failures = [], fc_aborted = False\<rparr>"

lemma one_worker_steps:
  "job_queue_push job q = Some (Done q') \<Longrightarrow>
     thread_step (one_worker q Pushing (job # js) At_gate ts ks) (one_worker q' Pushing js At_gate ts ks)"
  "thread_step (one_worker q Pushing [] At_gate ts ks) (one_worker (job_queue_finish q) Walked [] At_gate ts ks)"
  "outside_step (one_worker q Walked [] At_gate ts ks) (one_worker q Walked [] Popping ts ks)"
  "job_queue_pop job q = Some (Done ((1, job), q')) \<Longrightarrow>
     thread_step (one_worker q Walked [] Popping ts ks) (one_worker q' Walked [] (Copying job) (ts @ [job]) ks)"
  "thread_step (one_worker q Walked [] (Copying job) ts ks) (one_worker q Walked [] At_gate ts (job # ks))"
  "job_queue_pop job q = Some (Done ((0, job), q')) \<Longrightarrow>
     thread_step (one_worker q Walked [] Popping ts ks) (one_worker q' Walked [] Exited ts ks)"
  using thread_step.push [of "one_worker q Pushing (job # js) At_gate ts ks" job js q' "[At_gate]"]
    thread_step.finish [of "one_worker q Pushing [] At_gate ts ks"]
    outside_step.may_run [of 0 "one_worker q Walked [] At_gate ts ks"]
    thread_step.pop [of 0 "one_worker q Walked [] Popping ts ks" job job q']
    thread_step.copied [of 0 "one_worker q Walked [] (Copying job) ts ks" job]
    thread_step.drained [of 0 "one_worker q Walked [] Popping ts ks" job job q']
  by (simp_all add: one_worker_def wake_all_def wake_walker_def signalled.nobody)

lemma one_job_run:
  obtains c where "fcopy_run 1 [zero_job] c" "all_exited c" "fc_failures c = []" "\<not> fc_aborted c"
proof -
  let ?q0 = "job_queue_init blank_queue" and ?run = "fcopy_run 1 [zero_job]"
  have "count ?q0 \<noteq> int JOB_QUEUE_CAP" by (simp add: job_queue_init_def)
  then obtain q1 where q1: "job_queue_push zero_job ?q0 = Some (Done q1)" "jq_inv q1" "waiting_jobs q1 = [zero_job]"
    using push_room [OF jq_inv_init, of blank_queue zero_job] by auto
  have "count (job_queue_finish q1) \<noteq> 0" using q1 waiting_jobs_Nil [of q1] by auto
  then obtain q2 where q2: "job_queue_pop zero_job (job_queue_finish q1) = Some (Done ((1, zero_job), q2))"
    "jq_inv q2" "waiting_jobs q2 = []" "producer_done q2 = 1"
    using pop_some [of "job_queue_finish q1" zero_job] q1 by auto
  have empty: "job_queue_pop zero_job q2 = Some (Done ((0, zero_job), q2))"
    using pop_empty [of q2 zero_job] waiting_jobs_Nil [OF q2(2)] q2 by simp
  have "?run (one_worker ?q0 Pushing [zero_job] At_gate [] [])"
    using fcopy_run.start [of 1 "[zero_job]" blank_queue] by (simp add: fcopy_start_def one_worker_def)
  then have "?run (one_worker q1 Pushing [] At_gate [] [])"
    by (rule fcopy_run.thread) (rule one_worker_steps(1) [OF q1(1)])
  then have "?run (one_worker (job_queue_finish q1) Walked [] At_gate [] [])"
    by (rule fcopy_run.thread) (rule one_worker_steps(2))
  then have "?run (one_worker (job_queue_finish q1) Walked [] Popping [] [])"
    by (rule fcopy_run.outer) (rule one_worker_steps(3))
  then have "?run (one_worker q2 Walked [] (Copying zero_job) [zero_job] [])"
    by (rule fcopy_run.thread) (use one_worker_steps(4) [OF q2(1), of "[]" "[]"] in simp)
  then have "?run (one_worker q2 Walked [] At_gate [zero_job] [zero_job])"
    by (rule fcopy_run.thread) (rule one_worker_steps(5))
  then have "?run (one_worker q2 Walked [] Popping [zero_job] [zero_job])"
    by (rule fcopy_run.outer) (rule one_worker_steps(3))
  then have "?run (one_worker q2 Walked [] Exited [zero_job] [zero_job])"
    by (rule fcopy_run.thread) (rule one_worker_steps(6) [OF empty])
  then show ?thesis by (rule that) (simp_all add: all_exited_def one_worker_def)
qed

theorem jobs_conserved_witness:
  "\<exists>c. fcopy_run 1 [zero_job] c \<and> all_exited c \<and> mset (fc_copied c) = {#zero_job#}"
proof -
  obtain c where c: "fcopy_run 1 [zero_job] c" "all_exited c" "fc_failures c = []" "\<not> fc_aborted c"
    by (rule one_job_run)
  with jobs_conserved [OF c(1)] show ?thesis by auto
qed

lemma walker_can_step:
  assumes "jq_inv (fc_queue c)" "fc_walker c = Pushing"
  shows "\<exists>c'. thread_step c c'"
proof (cases "fc_todo c")
  case Nil
  then show ?thesis using thread_step.finish [OF assms(2)] by blast
next
  case (Cons job rest)
  have sig: "\<exists>ws. signalled (fc_workers c) ws"
    using signalled.nobody signalled.one by (metis in_set_conv_nth)
  have "\<exists>a. job_queue_push job (fc_queue c) = Some a"
    using push_full [of "fc_queue c" job] push_room [OF assms(1), of job] by metis
  then show ?thesis
    using thread_step.push_wait [OF assms(2) Cons] thread_step.push [OF assms(2) Cons] sig by (metis attempt.exhaust)
qed

lemma worker_can_step:
  assumes "jq_inv (fc_queue c)" "w \<in> set (fc_workers c)" "w \<notin> {At_gate, Pop_waiting, Exited}"
  shows "\<exists>c'. thread_step c c'"
proof -
  from assms(2) obtain i where i: "i < length (fc_workers c)" "fc_workers c ! i = w" by (auto simp: in_set_conv_nth)
  consider (pop) "w = Popping" | (copy) job where "w = Copying job" using assms(3) by (cases w) auto
  then show ?thesis
  proof cases
    case pop
    obtain a where a: "job_queue_pop zero_job (fc_queue c) = Some a"
      using pop_some [OF assms(1), of zero_job] pop_empty [of "fc_queue c" zero_job] by metis
    from i pop have p: "i < length (fc_workers c)" "fc_workers c ! i = Popping" by simp_all
    show ?thesis
      by (rule pop_cases [OF assms(1) a])
        (use a thread_step.pop_wait [OF p] thread_step.pop [OF p] thread_step.drained [OF p] in blast)+
  next
    case copy
    then show ?thesis using thread_step.copied i by blast
  qed
qed

text \<open>
  C38. No wakeup is lost. Whatever the interleaving, some thread can go on by its own step, without a
  spurious wakeup, unless a worker sleeps at the gate that the library keeps closed, or all workers
  have ended and either the walker is done too, or it waits at a full queue: a program whose workers
  have all ended before the tree was walked hangs there.
\<close>

theorem threads_progress:
  assumes "fcopy_run n js c"
  shows "(\<exists>c'. thread_step c c') \<or> At_gate \<in> set (fc_workers c) \<or>
     (all_exited c \<and> (fc_walker c = Walked \<or>
        fc_walker c = Push_waiting \<and> length (waiting_jobs (fc_queue c)) = JOB_QUEUE_CAP))"
proof (rule disjCI, rule ccontr)
  assume a: "\<not> (At_gate \<in> set (fc_workers c) \<or> (all_exited c \<and> (fc_walker c = Walked \<or>
        fc_walker c = Push_waiting \<and> length (waiting_jobs (fc_queue c)) = JOB_QUEUE_CAP)))"
    and stuck: "\<nexists>c'. thread_step c c'"
  have "fcopy_inv js c" using fcopy.reach_inv [OF assms] by simp
  note D = fcopy_invD [OF this]
  have ws: "set (fc_workers c) \<subseteq> {Pop_waiting, Exited}" using worker_can_step [OF D(1)] stuck a by blast
  then have none: "popping (fc_workers c) = {}" by (auto simp: popping_def dest!: nth_mem)
  have walker: "fc_walker c \<noteq> Pushing" using walker_can_step [OF D(1)] stuck by blast
  have "Pop_waiting \<notin> set (fc_workers c)"
  proof
    assume w: "Pop_waiting \<in> set (fc_workers c)"
    then have "waiting_jobs (fc_queue c) = []" using D(7) none by (simp del: length_waiting_jobs)
    then have "fc_walker c \<noteq> Push_waiting" using D(3) waiting_jobs_Nil [OF D(1)] by auto
    with walker have "fc_walker c = Walked" by (cases "fc_walker c") auto
    with D(5,6) w show False by simp
  qed
  with ws have "all_exited c" by (auto simp: all_exited_def)
  with walker D(3) a show False by (cases "fc_walker c") auto
qed

theorem threads_progress_witness:
  "\<exists>c'. thread_step (fcopy_start 0 [zero_job] blank_queue) c'"
  using threads_progress [OF fcopy_run.start [of 0 "[zero_job]" blank_queue]] by (simp add: fcopy_start_def all_exited_def)

end
