(* ===== verification/Copy_File.thy ===== *)
theory Copy_File
  imports Fdir_Prelude
begin

text \<open>
  \<open>copy_file\<close> of the file copy example, \<open>examples/filecopy/worker.c\<close>. The POSIX calls it makes are a
  parameter of the model, the record \<open>posix\<close> over a world \<open>'w\<close>. What the code relies on of them is the
  predicate \<open>posix_laws\<close>: for a regular file, \<open>read\<close> delivers the next bytes of the file and none only at
  its end, \<open>write\<close> stores a nonempty prefix of its bytes at the offset, both may fail or be short, and
  \<open>open\<close> with \<open>O_TRUNC\<close> empties the file. The two loops need not end for arbitrary calls, so they are
  partial functions into an option type.
\<close>

subsection \<open>System calls and the code\<close>

type_synonym byte = u8

datatype open_flag = O_RDONLY | O_WRONLY | O_CREAT | O_TRUNC

text \<open>
  A negative result of \<open>open\<close>, \<open>fstat\<close>, \<open>write\<close> and \<open>close\<close> is a failure; \<open>read\<close> yields \<open>None\<close> for -1
  and otherwise the bytes that it stores at the start of the buffer, their number being its result.
\<close>

record 'w posix =
  sys_open :: "string \<Rightarrow> open_flag set \<Rightarrow> u32 \<Rightarrow> 'w \<Rightarrow> int \<times> 'w"
  sys_fstat :: "int \<Rightarrow> 'w \<Rightarrow> (int \<times> u32) \<times> 'w"
  sys_read :: "int \<Rightarrow> nat \<Rightarrow> 'w \<Rightarrow> byte list option \<times> 'w"
  sys_write :: "int \<Rightarrow> byte list \<Rightarrow> 'w \<Rightarrow> int \<times> 'w"
  sys_close :: "int \<Rightarrow> 'w \<Rightarrow> int \<times> 'w"

abbreviation (input) COPY_BUF_SIZE :: nat where "COPY_BUF_SIZE \<equiv> 262144"

text \<open>The inner loop: it writes the \<open>n\<close> bytes at \<open>p\<close>; the result says whether no write failed.\<close>

partial_function (option) write_all :: "'w posix \<Rightarrow> int \<Rightarrow> byte list \<Rightarrow> 'w \<Rightarrow> (bool \<times> 'w) option" where
  [code]: "write_all sys dst_fd p w =
     (if p = [] then Some (True, w)
      else let (k, w) = sys_write sys dst_fd p w
           in if k < 0 then Some (False, w) else write_all sys dst_fd (drop (nat k) p) w)"

text \<open>The outer loop; its result is that of the function, the descriptors are still open.\<close>

partial_function (option) copy_loop :: "'w posix \<Rightarrow> int \<Rightarrow> int \<Rightarrow> 'w \<Rightarrow> (int \<times> 'w) option" where
  [code]: "copy_loop sys src_fd dst_fd w =
     (let (n, w) = sys_read sys src_fd COPY_BUF_SIZE w
      in case n of None \<Rightarrow> Some (-1, w)
         | Some buf \<Rightarrow>
             if buf = [] then Some (0, w)
             else Option.bind (write_all sys dst_fd buf w)
               (\<lambda>r. if fst r then copy_loop sys src_fd dst_fd (snd r) else Some (-1, snd r)))"

definition copy_file :: "'w posix \<Rightarrow> string \<Rightarrow> string \<Rightarrow> 'w \<Rightarrow> (int \<times> 'w) option" where
  "copy_file sys src dst w =
     (let (src_fd, w) = sys_open sys src {O_RDONLY} 0 w
      in if src_fd < 0 then Some (-1, w)
      else let ((rc, st_mode), w) = sys_fstat sys src_fd w
      in if rc < 0 then Some (-1, snd (sys_close sys src_fd w))
      else let (dst_fd, w) = sys_open sys dst {O_WRONLY, O_CREAT, O_TRUNC} (st_mode AND 0x1FF) w
      in if dst_fd < 0 then Some (-1, snd (sys_close sys src_fd w))
      else do {
        (res, w) \<leftarrow> copy_loop sys src_fd dst_fd w;
        let (_, w) = sys_close sys src_fd w;
        let (_, w) = sys_close sys dst_fd w;
        Some (res, w)
      })"


subsection \<open>What the code relies on of the system\<close>

text \<open>
  The view of the world: the file (inode) that a path names, the bytes of a file, and for every open
  descriptor its file and offset.
\<close>

record files =
  names :: "string \<Rightarrow> nat option"
  content :: "nat \<Rightarrow> byte list"
  fds :: "int \<Rightarrow> (nat \<times> nat) option"

definition stored :: "byte list \<Rightarrow> nat \<Rightarrow> byte list \<Rightarrow> byte list" where
  "stored d pos bs = take pos d @ bs @ drop (pos + length bs) d"

definition open_read_law :: "'w posix \<Rightarrow> ('w \<Rightarrow> files) \<Rightarrow> bool" where
  "open_read_law sys view \<longleftrightarrow> (\<forall>p m w fd w'. sys_open sys p {O_RDONLY} m w = (fd, w') \<longrightarrow>
     (if fd < 0 then view w' = view w
      else fds (view w) fd = None \<and>
        (\<exists>i. names (view w) p = Some i \<and> view w' = view w\<lparr>fds := (fds (view w))(fd \<mapsto> (i, 0))\<rparr>)))"

definition open_write_law :: "'w posix \<Rightarrow> ('w \<Rightarrow> files) \<Rightarrow> bool" where
  "open_write_law sys view \<longleftrightarrow> (\<forall>p m w fd w'. sys_open sys p {O_WRONLY, O_CREAT, O_TRUNC} m w = (fd, w') \<longrightarrow>
     (if fd < 0 then view w' = view w
      else fds (view w) fd = None \<and>
        (\<exists>j. (names (view w) p = Some j \<or>
               names (view w) p = None \<and> j \<notin> ran (names (view w)) \<and> j \<notin> fst ` ran (fds (view w))) \<and>
          view w' = \<lparr>names = (names (view w))(p \<mapsto> j), content = (content (view w))(j := []),
            fds = (fds (view w))(fd \<mapsto> (j, 0))\<rparr>)))"

definition fstat_law :: "'w posix \<Rightarrow> ('w \<Rightarrow> files) \<Rightarrow> bool" where
  "fstat_law sys view \<longleftrightarrow> (\<forall>fd w. view (snd (sys_fstat sys fd w)) = view w)"

definition close_law :: "'w posix \<Rightarrow> ('w \<Rightarrow> files) \<Rightarrow> bool" where
  "close_law sys view \<longleftrightarrow> (\<forall>fd w. view (snd (sys_close sys fd w)) = view w\<lparr>fds := (fds (view w))(fd := None)\<rparr>)"

text \<open>A read delivers at most the bytes asked for, a nonempty run of those after the offset unless there is none.\<close>

definition read_law :: "'w posix \<Rightarrow> ('w \<Rightarrow> files) \<Rightarrow> bool" where
  "read_law sys view \<longleftrightarrow> (\<forall>fd n w r w' i pos. 0 < n \<longrightarrow> fds (view w) fd = Some (i, pos) \<longrightarrow> sys_read sys fd n w = (r, w') \<longrightarrow>
     (case r of None \<Rightarrow> view w' = view w
      | Some bs \<Rightarrow> length bs \<le> n \<and> (\<exists>rest. drop pos (content (view w) i) = bs @ rest) \<and>
          (bs = [] \<longrightarrow> drop pos (content (view w) i) = []) \<and>
          view w' = view w\<lparr>fds := (fds (view w))(fd \<mapsto> (i, pos + length bs))\<rparr>))"

text \<open>A write of at least one byte that does not fail stores a nonempty prefix of the bytes at the offset.\<close>

definition write_law :: "'w posix \<Rightarrow> ('w \<Rightarrow> files) \<Rightarrow> bool" where
  "write_law sys view \<longleftrightarrow> (\<forall>fd bs w k w' i pos. bs \<noteq> [] \<longrightarrow> fds (view w) fd = Some (i, pos) \<longrightarrow>
     pos \<le> length (content (view w) i) \<longrightarrow> sys_write sys fd bs w = (k, w') \<longrightarrow>
     (if k < 0 then view w' = view w
      else 0 < k \<and> k \<le> int (length bs) \<and>
        view w' = view w\<lparr>content := (content (view w))(i := stored (content (view w) i) pos (take (nat k) bs)),
          fds := (fds (view w))(fd \<mapsto> (i, pos + nat k))\<rparr>))"

definition posix_laws :: "'w posix \<Rightarrow> ('w \<Rightarrow> files) \<Rightarrow> bool" where
  "posix_laws sys view \<longleftrightarrow> open_read_law sys view \<and> open_write_law sys view \<and> fstat_law sys view \<and>
     close_law sys view \<and> read_law sys view \<and> write_law sys view"


subsection \<open>The loops\<close>

lemma stored_end [simp]: "stored d (length d) bs = d @ bs"
  by (simp add: stored_def)

text \<open>The world while the copy runs: the bytes copied so far are those before the offset of the source.\<close>

definition copying :: "files \<Rightarrow> int \<Rightarrow> int \<Rightarrow> nat \<Rightarrow> nat \<Rightarrow> byte list \<Rightarrow> nat \<Rightarrow> files" where
  "copying v src_fd dst_fd i j d pos =
     v\<lparr>content := (content v)(j := d), fds := (fds v)(src_fd \<mapsto> (i, pos), dst_fd \<mapsto> (j, length d))\<rparr>"

lemma write_all_spec:
  assumes "write_law sys view" "src_fd \<noteq> dst_fd" "view w = copying v src_fd dst_fd i j d pos"
  shows "returns (write_all sys dst_fd p w) (\<lambda>(ok, w').
     \<exists>k. view w' = copying v src_fd dst_fd i j (d @ take k p) pos \<and> (ok \<longrightarrow> length p \<le> k))"
  using assms(3)
proof (induction "length p" arbitrary: p w d rule: less_induct)
  case less
  obtain k w1 where w1: "sys_write sys dst_fd p w = (k, w1)" by fastforce
  show ?case
  proof (cases "p = []")
    case True
    with less.prems show ?thesis by (subst write_all.simps) auto
  next
    case False
    have law: "if k < 0 then view w1 = view w
      else 0 < k \<and> k \<le> int (length p) \<and> view w1 = copying v src_fd dst_fd i j (d @ take (nat k) p) pos"
      using assms(1)[unfolded write_law_def, rule_format, OF False, of w dst_fd j "length d" k w1] w1 less.prems
      by (auto simp: copying_def nat_le_iff min_absorb2)
    show ?thesis
    proof (cases "k < 0")
      case True
      with law less.prems w1 False show ?thesis by (subst write_all.simps) (auto intro!: exI [of _ 0])
    next
      case False
      with law have "length (drop (nat k) p) < length p" and
        v1: "view w1 = copying v src_fd dst_fd i j (d @ take (nat k) p) pos" by auto
      have "\<exists>k'. view w' = copying v src_fd dst_fd i j (d @ take k' p) pos \<and> (ok \<longrightarrow> length p \<le> k')"
        if "\<exists>l. view w' = copying v src_fd dst_fd i j ((d @ take (nat k) p) @ take l (drop (nat k) p)) pos \<and>
          (ok \<longrightarrow> length (drop (nat k) p) \<le> l)" for ok w'
        using that by (auto simp: le_diff_conv add.commute simp flip: take_add)
      with less.hyps [OF \<open>length (drop (nat k) p) < length p\<close> v1]
      have "returns (write_all sys dst_fd (drop (nat k) p) w1) (\<lambda>(ok, w').
        \<exists>k'. view w' = copying v src_fd dst_fd i j (d @ take k' p) pos \<and> (ok \<longrightarrow> length p \<le> k'))"
        by (auto elim!: returns_mono)
      then show ?thesis using w1 False \<open>p \<noteq> []\<close> by (subst write_all.simps) simp
    qed
  qed
qed

lemma copying_fd [simp]:
  "src_fd \<noteq> dst_fd \<Longrightarrow> fds (copying v src_fd dst_fd i j d pos) src_fd = Some (i, pos)"
  "content (copying v src_fd dst_fd i j d pos) = (content v)(j := d)"
  by (simp_all add: copying_def)

lemma copying_read:
  "src_fd \<noteq> dst_fd \<Longrightarrow>
   copying v src_fd dst_fd i j d pos\<lparr>fds := (fds (copying v src_fd dst_fd i j d pos))(src_fd \<mapsto> (i, pos'))\<rparr> =
   copying v src_fd dst_fd i j d pos'"
  by (simp add: copying_def fun_upd_twist)

text \<open>
  The outer loop with the source in another file than the destination. It ends, since every round moves
  the offset; whatever the outcome, what it wrote is a prefix of the source, all of it if the result is 0.
\<close>

lemma copy_loop_spec:
  assumes "read_law sys view" "write_law sys view" "src_fd \<noteq> dst_fd" "i \<noteq> j"
    "view w = copying v src_fd dst_fd i j (take pos (content v i)) pos" "pos \<le> length (content v i)"
  shows "returns (copy_loop sys src_fd dst_fd w) (\<lambda>(res, w').
     (res = 0 \<or> res = -1) \<and>
     (\<exists>k pos'. view w' = copying v src_fd dst_fd i j (take k (content v i)) pos' \<and>
        (res = 0 \<longrightarrow> length (content v i) \<le> k)))"
  using assms(5,6)
proof (induction "length (content v i) - pos" arbitrary: pos w rule: less_induct)
  case less
  let ?c = "content v i"
  obtain r w1 where w1: "sys_read sys src_fd COPY_BUF_SIZE w = (r, w1)" by fastforce
  have law: "case r of None \<Rightarrow> view w1 = view w
      | Some bs \<Rightarrow> (\<exists>rest. drop pos ?c = bs @ rest) \<and> (bs = [] \<longrightarrow> drop pos ?c = []) \<and>
          view w1 = copying v src_fd dst_fd i j (take pos ?c) (pos + length bs)"
    using assms(1)[unfolded read_law_def, rule_format, of COPY_BUF_SIZE w src_fd i pos r w1] w1 less.prems assms(3,4)
    by (auto simp: copying_read split: option.splits)
  show ?case
  proof (cases r)
    case None
    with law w1 less.prems show ?thesis by (subst copy_loop.simps) auto
  next
    case (Some bs)
    with law obtain rest where rest: "drop pos ?c = bs @ rest" by auto
    show ?thesis
    proof (cases "bs = []")
      case True
      with law w1 Some less.prems show ?thesis
        by (subst copy_loop.simps) (auto intro!: exI [of _ pos])
    next
      case False
      have v1: "view w1 = copying v src_fd dst_fd i j (take pos ?c) (pos + length bs)" using law Some by simp
      have prefix: "take pos ?c @ take k bs = take (pos + min k (length bs)) ?c" for k
        by (simp add: take_add rest min_def)
      have next_pos: "pos + length bs \<le> length ?c" "length ?c - (pos + length bs) < length ?c - pos"
        using rest False less.prems(2) length_drop [of pos ?c] by (auto simp: Suc_le_eq simp flip: length_greater_0_conv)
      have "returns (write_all sys dst_fd bs w1) (\<lambda>(ok, w'). \<exists>k.
          view w' = copying v src_fd dst_fd i j (take (pos + min k (length bs)) ?c) (pos + length bs) \<and> (ok \<longrightarrow> length bs \<le> k))"
        using write_all_spec [OF assms(2,3) v1, of bs] by (simp add: prefix)
      then show ?thesis
      proof (rule returnsE, goal_cases)
        case (1 x)
        obtain ok w2 where x: "x = (ok, w2)" by fastforce
        show ?case
        proof (cases ok)
          case True
          with 1 x have "view w2 = copying v src_fd dst_fd i j (take (pos + length bs) ?c) (pos + length bs)" by auto
          from less.hyps [OF next_pos(2) this next_pos(1)] show ?thesis
            using 1 x True w1 Some False by (subst copy_loop.simps) simp
        next
          case False
          with 1 x w1 Some \<open>bs \<noteq> []\<close> show ?thesis by (subst copy_loop.simps) auto
        qed
      qed
    qed
  qed
qed

text \<open>When both descriptors are open on one file, which \<open>O_TRUNC\<close> has emptied, the loop ends at once.\<close>

lemma copy_loop_alias:
  assumes "read_law sys view" "src_fd \<noteq> dst_fd" "view w = copying v src_fd dst_fd i i [] 0"
  shows "returns (copy_loop sys src_fd dst_fd w) (\<lambda>(res, w'). (res = 0 \<or> res = -1) \<and> view w' = view w)"
proof -
  obtain r w1 where w1: "sys_read sys src_fd COPY_BUF_SIZE w = (r, w1)" by fastforce
  have "case r of None \<Rightarrow> view w1 = view w | Some bs \<Rightarrow> bs = [] \<and> view w1 = view w"
    using assms(1)[unfolded read_law_def, rule_format, of COPY_BUF_SIZE w src_fd i 0 r w1] w1 assms(2,3)
    by (auto simp: copying_read split: option.splits)
  with w1 show ?thesis by (subst copy_loop.simps) (auto split: option.splits)
qed

text \<open>What a copy may leave behind: the file named \<open>dst\<close> holds the first bytes of the source, all other files are as before.\<close>

definition copied_prefix :: "files \<Rightarrow> string \<Rightarrow> string \<Rightarrow> nat \<Rightarrow> nat \<Rightarrow> nat \<Rightarrow> files" where
  "copied_prefix v src dst i j k =
     v\<lparr>names := (names v)(dst \<mapsto> j), content := (content v)(j := (if i = j then [] else take k (content v i)))\<rparr>"

lemma copy_opened:
  assumes "posix_laws sys view" "src_fd \<noteq> dst_fd"
    "view w = copying (v\<lparr>names := (names v)(dst \<mapsto> j)\<rparr>) src_fd dst_fd i j [] 0"
  shows "returns (copy_loop sys src_fd dst_fd w) (\<lambda>(res, w'). (res = 0 \<or> res = -1) \<and>
     (\<exists>pos d k. view w' = (copied_prefix v src dst i j k)\<lparr>fds := (fds v)(src_fd \<mapsto> (i, pos), dst_fd \<mapsto> (j, d))\<rparr> \<and>
        (res = 0 \<longrightarrow> length (content v i) \<le> k)))"
proof (cases "i = j")
  case True
  then have "returns (copy_loop sys src_fd dst_fd w) (\<lambda>(res, w'). (res = 0 \<or> res = -1) \<and> view w' = view w)"
    using assms by (intro copy_loop_alias) (auto simp: posix_laws_def)
  moreover have "view w =
      (copied_prefix v src dst i j (length (content v i)))\<lparr>fds := (fds v)(src_fd \<mapsto> (i, 0), dst_fd \<mapsto> (j, 0))\<rparr>"
    using assms(3) True by (simp add: copying_def copied_prefix_def)
  ultimately show ?thesis
    by (auto elim!: returns_mono)
next
  case False
  show ?thesis
    by (rule returns_mono [OF copy_loop_spec [of sys view src_fd dst_fd i j w "v\<lparr>names := (names v)(dst \<mapsto> j)\<rparr>" 0]])
      (use assms False in \<open>auto simp: posix_laws_def copying_def copied_prefix_def\<close>)
qed

lemma copied_prefix_close:
  assumes "close_law sys view" "fds v a = None" "fds v b = None"
    "view w = (copied_prefix v src dst i j k)\<lparr>fds := (fds v)(a \<mapsto> x, b \<mapsto> y)\<rparr>"
  shows "view (snd (sys_close sys b (snd (sys_close sys a w)))) = copied_prefix v src dst i j k"
  using assms by (simp add: close_law_def copied_prefix_def fun_upd_twist fun_upd_idem)

text \<open>
  C36. \<open>copy_file\<close> always returns, 0 or -1, and leaves no descriptor open. Either it failed before the
  destination was touched, or the destination, and no other file, now holds a prefix of the source: all
  of it when the result is 0. The one exception is a destination that names the source's own file: it
  is emptied.
\<close>

theorem copy_file_spec:
  assumes "posix_laws sys view"
  shows "returns (copy_file sys src dst w) (\<lambda>(res, w').
     (res = -1 \<and> view w' = view w) \<or>
     (\<exists>i j k. (res = 0 \<or> res = -1) \<and> names (view w) src = Some i \<and>
        (names (view w) dst = Some j \<or> names (view w) dst = None \<and> j \<notin> ran (names (view w))) \<and>
        view w' = copied_prefix (view w) src dst i j k \<and>
        (res = 0 \<longrightarrow> length (content (view w) i) \<le> k)))"
proof -
  have laws: "open_read_law sys view" "open_write_law sys view" "fstat_law sys view" "close_law sys view"
    using assms by (simp_all add: posix_laws_def)
  obtain a w1 where w1: "sys_open sys src {O_RDONLY} 0 w = (a, w1)" by fastforce
  obtain rc m w2 where w2: "sys_fstat sys a w1 = ((rc, m), w2)" by (metis surj_pair)
  obtain b w3 where w3: "sys_open sys dst {O_WRONLY, O_CREAT, O_TRUNC} (m AND 0x1FF) w2 = (b, w3)" by fastforce
  note code = copy_file_def w1 w2 w3
  have v2: "view w2 = view w1" using laws(3) w2 by (metis fstat_law_def snd_conv)
  have o1: "if a < 0 then view w1 = view w else fds (view w) a = None \<and>
      (\<exists>i. names (view w) src = Some i \<and> view w1 = view w\<lparr>fds := (fds (view w))(a \<mapsto> (i, 0))\<rparr>)"
    using laws(1) w1 unfolding open_read_law_def by blast
  have undo: "view (snd (sys_close sys a w')) = view w" if "view w' = view w1" "\<not> a < 0" for w'
    using laws(4) that o1 by (auto simp: close_law_def fun_upd_idem)
  have o3: "if b < 0 then view w3 = view w1 else fds (view w1) b = None \<and>
      (\<exists>j. (names (view w1) dst = Some j \<or> names (view w1) dst = None \<and> j \<notin> ran (names (view w1))) \<and>
        view w3 = \<lparr>names = (names (view w1))(dst \<mapsto> j), content = (content (view w1))(j := []),
          fds = (fds (view w1))(b \<mapsto> (j, 0))\<rparr>)"
    using laws(2) w3 unfolding open_write_law_def v2 [symmetric] by metis
  show ?thesis
  proof (cases "a < 0 \<or> rc < 0 \<or> b < 0")
    case True
    then show ?thesis
      using o1 o3 v2 undo [of w2] undo [of w3] by (cases "a < 0"; cases "rc < 0") (simp_all add: code)
  next
    case False
    then obtain i j where ij: "names (view w) src = Some i"
      "names (view w) dst = Some j \<or> names (view w) dst = None \<and> j \<notin> ran (names (view w))"
      and ab: "a \<noteq> b" "fds (view w) a = None" "fds (view w) b = None"
      and v3: "view w3 = copying ((view w)\<lparr>names := (names (view w))(dst \<mapsto> j)\<rparr>) a b i j [] 0"
      using o1 o3 by (auto simp: copying_def split: if_splits)
    from copy_opened [OF assms ab(1) v3, of src]
    have "returns (copy_loop sys a b w3) (\<lambda>(res, w'). \<exists>i j k. (res = 0 \<or> res = -1) \<and> names (view w) src = Some i \<and>
        (names (view w) dst = Some j \<or> names (view w) dst = None \<and> j \<notin> ran (names (view w))) \<and>
        view (snd (sys_close sys b (snd (sys_close sys a w')))) = copied_prefix (view w) src dst i j k \<and>
        (res = 0 \<longrightarrow> length (content (view w) i) \<le> k))"
      by (rule returns_mono) (use ij copied_prefix_close [OF laws(4) ab(2,3)] in fastforce)
    then show ?thesis
      using False by (simp add: code returns_bind case_prod_beta Let_def) (erule returns_mono, simp add: case_prod_beta)
  qed
qed

text \<open>
  A small file system in memory that obeys the laws, with one new inode and two free descriptors; it
  delivers at most two bytes per read and takes one byte per write.
\<close>

definition free_fd :: "files \<Rightarrow> int" where
  "free_fd v = (if fds v 3 = None then 3 else if fds v 4 = None then 4 else -1)"

definition mem_open :: "string \<Rightarrow> open_flag set \<Rightarrow> u32 \<Rightarrow> files \<Rightarrow> int \<times> files" where
  "mem_open p fl m v =
     (case (names v p, O_CREAT \<in> fl) of
        (Some i, False) \<Rightarrow> if free_fd v < 0 then (-1, v) else (free_fd v, v\<lparr>fds := (fds v)(free_fd v \<mapsto> (i, 0))\<rparr>)
      | (Some i, True) \<Rightarrow> if free_fd v < 0 then (-1, v)
          else (free_fd v, v\<lparr>content := (content v)(i := []), fds := (fds v)(free_fd v \<mapsto> (i, 0))\<rparr>)
      | (None, _) \<Rightarrow> (-1, v))"

definition mem_read :: "int \<Rightarrow> nat \<Rightarrow> files \<Rightarrow> byte list option \<times> files" where
  "mem_read fd n v = (case fds v fd of None \<Rightarrow> (None, v)
     | Some (i, pos) \<Rightarrow> let bs = take (min n 2) (drop pos (content v i))
         in (Some bs, v\<lparr>fds := (fds v)(fd \<mapsto> (i, pos + length bs))\<rparr>))"

definition mem_write :: "int \<Rightarrow> byte list \<Rightarrow> files \<Rightarrow> int \<times> files" where
  "mem_write fd bs v = (case (fds v fd, bs) of (Some (i, pos), b # _) \<Rightarrow>
       (1, v\<lparr>content := (content v)(i := stored (content v i) pos [b]), fds := (fds v)(fd \<mapsto> (i, pos + 1))\<rparr>)
     | _ \<Rightarrow> (-1, v))"

definition mem_posix :: "files posix" where
  "mem_posix = \<lparr>sys_open = mem_open, sys_fstat = (\<lambda>fd v. ((0, 0x1A4), v)), sys_read = mem_read, sys_write = mem_write,
     sys_close = (\<lambda>fd v. (0, v\<lparr>fds := (fds v)(fd := None)\<rparr>))\<rparr>"

lemma mem_posix_laws: "posix_laws mem_posix id"
proof -
  have fd: "\<not> free_fd v < 0 \<Longrightarrow> fds v (free_fd v) = None" for v by (simp add: free_fd_def split: if_splits)
  have "open_read_law mem_posix id"
    by (auto simp: open_read_law_def mem_posix_def mem_open_def fd split: option.splits if_splits)
  moreover have "open_write_law mem_posix id"
    by (auto simp: open_write_law_def mem_posix_def mem_open_def fd fun_upd_idem intro!: files.equality
      split: option.splits if_splits)
  moreover have "read_law mem_posix id"
    by (auto simp: read_law_def mem_posix_def mem_read_def Let_def split: option.splits) (metis append_take_drop_id)
  moreover have "write_law mem_posix id"
    by (auto simp: write_law_def mem_posix_def mem_write_def split: list.splits)
  ultimately show ?thesis by (simp add: posix_laws_def fstat_law_def close_law_def mem_posix_def)
qed

definition two_files :: files where
  "two_files = \<lparr>names = [''a'' \<mapsto> 0, ''b'' \<mapsto> 1], content = (\<lambda>_. [])(0 := [7, 8, 9], 1 := [1]), fds = Map.empty\<rparr>"

theorem copy_file_spec_witness:
  "returns (copy_file mem_posix ''a'' ''b'' two_files) (\<lambda>(res, v). res = 0 \<and> content v 1 = [7, 8, 9])"
proof -
  have "map_option fst (copy_file mem_posix ''a'' ''b'' two_files) = Some 0"
    by (simp add: copy_file_def copy_loop.simps write_all.simps mem_posix_def mem_open_def mem_read_def mem_write_def
        free_fd_def stored_def two_files_def)
  with copy_file_spec [OF mem_posix_laws, of "''a''" "''b''" two_files] show ?thesis
    by (auto simp: returns_def copied_prefix_def two_files_def)
qed

end
