(* ===== verification/Fcopy_Setup.thy ===== *)
theory Fcopy_Setup
  imports Job_Queue
begin

text \<open>
  The sequential parts of the file copy program, \<open>examples/filecopy/main.c\<close>: the command line, the
  roots of the two trees, and the callback of the tree walk, which turns every path below the source
  root into a directory to create or a job to push. Its messages to \<open>stderr\<close> are kept in order.
\<close>

abbreviation (input) WORKER_MAX :: int where "WORKER_MAX \<equiv> 16"

record fcopy_vars =
  g_src_root :: cbuf
  g_dst_root :: cbuf
  g_nworkers :: int
  messages :: "string list"

text \<open>The static variables when the program starts.\<close>

definition fcopy_statics :: fcopy_vars where
  "fcopy_statics =
     \<lparr>g_src_root = zero_buf JOB_PATH_MAX, g_dst_root = zero_buf JOB_PATH_MAX, g_nworkers = 4, messages = []\<rparr>"

definition complain :: "string \<Rightarrow> fcopy_vars \<Rightarrow> fcopy_vars" where
  "complain text v = v\<lparr>messages := messages v @ [text]\<rparr>"


subsection \<open>The command line\<close>

text \<open>
  \<open>atoi\<close> of the C library: white space, a sign, decimal digits up to the first other character. Its
  behaviour is undefined when the value is not an \<open>int\<close>.
\<close>

definition is_space :: "char \<Rightarrow> bool" where
  "is_space c \<longleftrightarrow> (let n = of_char c :: nat in n = 32 \<or> 9 \<le> n \<and> n \<le> 13)"

fun atoi_digits :: "int \<Rightarrow> string \<Rightarrow> int" where
  "atoi_digits acc [] = acc"
| "atoi_digits acc (c # cs) =
     (let n = of_char c :: nat
      in if 48 \<le> n \<and> n \<le> 57 then atoi_digits (10 * acc + int (n - 48)) cs else acc)"

definition c_atoi :: "string \<Rightarrow> int option" where
  "c_atoi str =
     (let s = dropWhile is_space (cstr str);
          v = (case s of
                 [] \<Rightarrow> 0
               | c # cs \<Rightarrow>
                   if c = CHR ''-'' then - atoi_digits 0 cs
                   else if c = CHR ''+'' then atoi_digits 0 cs else atoi_digits 0 s)
      in if - 2147483648 \<le> v \<and> v \<le> 2147483647 then Some v else None)"

definition usage :: "string \<Rightarrow> fcopy_vars \<Rightarrow> fcopy_vars" where
  "usage argv0 v = complain (''usage: '' @ cstr argv0 @ '' <src> <dst> [--workers N]'') v"

text \<open>The loop over the options, from \<open>argv[i]\<close> on.\<close>

function parse_options :: "string list \<Rightarrow> nat \<Rightarrow> fcopy_vars \<Rightarrow> (int \<times> fcopy_vars) option" where
  "parse_options argv i v =
     (if i < length argv then
        if cstr (argv ! i) = ''--workers'' \<and> i + 1 < length argv then do {
          n \<leftarrow> c_atoi (argv ! (i + 1));
          let v = v\<lparr>g_nworkers := n\<rparr>;
          if n < 1 \<or> n > WORKER_MAX then Some (-1, complain ''workers must be 1..16'' v)
          else parse_options argv (i + 2) v
        }
        else do {
          argv0 \<leftarrow> arr_get argv 0;
          Some (-1, usage argv0 (complain (''unknown option: '' @ cstr (argv ! i)) v))
        }
      else Some (0, v))"
  by pat_completeness auto
termination
  by (relation "measure (\<lambda>(argv, i, _). length argv - i)") auto

declare parse_options.simps [simp del]

definition parse_args :: "string list \<Rightarrow> fcopy_vars \<Rightarrow> (int \<times> fcopy_vars) option" where
  "parse_args argv v =
     (if length argv < 3 then do {
        argv0 \<leftarrow> arr_get argv 0;
        Some (-1, usage argv0 v)
      }
      else do {
        src \<leftarrow> c_strncpy (g_src_root v) (argv ! 1) (JOB_PATH_MAX - 1);
        dst \<leftarrow> c_strncpy (g_dst_root v) (argv ! 2) (JOB_PATH_MAX - 1);
        parse_options argv 3 (v\<lparr>g_src_root := src, g_dst_root := dst\<rparr>)
      })"


subsection \<open>Paths\<close>

text \<open>The slash at the end of the source root is cut off.\<close>

definition strip_slash :: "cbuf \<Rightarrow> cbuf option" where
  "strip_slash root =
     (let slen = length (cstr root)
      in if slen > 1 then do {
           c \<leftarrow> arr_get root (slen - 1);
           if c = CHR ''/'' then arr_set root (slen - 1) NUL else Some root
         }
         else Some root)"

text \<open>\<open>snprintf (buf, sizeof (buf), \<dots>)\<close> with the text it formats: what does not fit is cut off.\<close>

definition c_snprintf :: "cbuf \<Rightarrow> string \<Rightarrow> cbuf" where
  "c_snprintf buf text =
     (if buf = [] then []
      else let t = take (length buf - 1) text in t @ NUL # drop (length t + 1) buf)"

text \<open>The pointer \<open>p + n\<close>; past the end of the string it is undefined.\<close>

definition str_from :: "string \<Rightarrow> nat \<Rightarrow> string option" where
  "str_from p n = (if n \<le> length (cstr p) then Some (drop n (cstr p)) else None)"

datatype ftw_flag = FTW_F | FTW_D | FTW_OTHER

datatype walk_action = Walk_mkdir string | Walk_push copy_job | Walk_skip

text \<open>
  What \<open>walk_cb\<close> does for a path: \<open>mkdir\<close>, \<open>job_queue_push\<close> or nothing. \<open>junk\<close> is what its local
  buffers hold before they are written.
\<close>

definition walk_cb :: "fcopy_vars \<Rightarrow> string \<Rightarrow> ftw_flag \<Rightarrow> copy_job \<Rightarrow> walk_action option" where
  "walk_cb v fpath typeflag junk =
     (if typeflag \<noteq> FTW_F then
        (if typeflag = FTW_D then do {
           rel \<leftarrow> str_from fpath (length (cstr (g_src_root v)));
           Some (Walk_mkdir (cstr (c_snprintf (cj_dst junk) (cstr (g_dst_root v) @ rel))))
         }
         else Some Walk_skip)
      else do {
        rel \<leftarrow> str_from fpath (length (cstr (g_src_root v)));
        let job = junk\<lparr>cj_src := c_snprintf (cj_src junk) (cstr fpath)\<rparr>;
        let job = job\<lparr>cj_dst := c_snprintf (cj_dst job) (cstr (g_dst_root v) @ rel)\<rparr>;
        Some (Walk_push job)
      })"


subsection \<open>What the command line means\<close>

text \<open>A reference for the options: pairs of \<open>--workers\<close> and a number of workers.\<close>

fun worker_counts :: "string list \<Rightarrow> int list option" where
  "worker_counts [] = Some []"
| "worker_counts [_] = None"
| "worker_counts (opt # val # rest) =
     (if cstr opt = ''--workers'' then do {
        n \<leftarrow> c_atoi val;
        ns \<leftarrow> (if 1 \<le> n \<and> n \<le> WORKER_MAX then worker_counts rest else None);
        Some (n # ns)
      } else None)"

definition path_buf :: "string \<Rightarrow> cbuf" where
  "path_buf str = take 4095 (cstr str) @ replicate (4096 - length (take 4095 (cstr str))) NUL"

lemma path_buf_props [simp]:
  "length (path_buf str) = 4096" "cstr (path_buf str) = take 4095 (cstr str)" "terminated (path_buf str)"
proof -
  define m where "m = 4095 - length (take 4095 (cstr str))"
  have "4096 - length (take 4095 (cstr str)) = Suc m" unfolding m_def by simp
  then have eq: "path_buf str = take 4095 (cstr str) @ NUL # replicate m NUL" by (simp add: path_buf_def)
  show "cstr (path_buf str) = take 4095 (cstr str)"
    unfolding eq by (rule cstr_append_NUL) (meson NUL_notin_cstr in_set_takeD)
  show "terminated (path_buf str)" unfolding eq by (simp add: terminated_def)
qed (simp add: path_buf_def)

lemma strncpy_root: "c_strncpy (zero_buf 4096) str 4095 = Some (path_buf str)"
proof -
  have "take 4095 (cstr str @ replicate 4095 NUL) @ [NUL] = path_buf str"
  proof (cases "length (cstr str) \<le> 4095")
    case True
    then have "Suc (4095 - length (cstr str)) = 4096 - length (cstr str)" by simp
    with True show ?thesis by (simp add: path_buf_def replicate_append_same flip: replicate_Suc)
  qed (simp add: path_buf_def min_def)
  then show ?thesis by (simp add: c_strncpy_def zero_buf_def)
qed

lemma parse_option:
  "parse_options argv i v =
     (case drop i argv of
        [] \<Rightarrow> Some (0, v)
      | [opt] \<Rightarrow> Option.bind (arr_get argv 0) (\<lambda>argv0. Some (-1, usage argv0 (complain (''unknown option: '' @ cstr opt) v)))
      | opt # val # rest \<Rightarrow>
          if cstr opt = ''--workers'' then Option.bind (c_atoi val) (\<lambda>n.
            if n < 1 \<or> n > WORKER_MAX then Some (-1, complain ''workers must be 1..16'' (v\<lparr>g_nworkers := n\<rparr>))
            else parse_options argv (i + 2) (v\<lparr>g_nworkers := n\<rparr>))
          else Option.bind (arr_get argv 0) (\<lambda>argv0. Some (-1, usage argv0 (complain (''unknown option: '' @ cstr opt) v))))"
proof -
  consider "i + 1 < length argv" | "i + 1 = length argv" | "length argv \<le> i" by linarith
  then show ?thesis
  proof cases
    case 1
    then have "drop i argv = argv ! i # argv ! (i + 1) # drop (i + 2) argv"
      by (simp add: Cons_nth_drop_Suc)
    with 1 show ?thesis by (subst parse_options.simps) (simp add: Let_def)
  next
    case 2
    then have "drop i argv = [argv ! i]" by (simp add: Cons_nth_drop_Suc [symmetric])
    with 2 show ?thesis by (subst parse_options.simps) simp
  qed (subst parse_options.simps, simp)
qed

lemma parse_options_ok:
  "parse_options argv i v = Some (0, v') \<longleftrightarrow>
     (\<exists>ns. worker_counts (drop i argv) = Some ns \<and> v' = v\<lparr>g_nworkers := last (g_nworkers v # ns)\<rparr>)"
proof (induction "drop i argv" arbitrary: i v rule: worker_counts.induct)
  case 1
  then show ?case by (auto simp: parse_option [of argv i] 1 [symmetric])
next
  case (2 opt)
  then show ?case by (simp add: parse_option [of argv i] split: bind_splits flip: 2)
next
  case (3 opt val rest)
  have d: "drop i argv = opt # val # rest" "drop (i + 2) argv = rest"
    using "3.hyps"(2) [symmetric] drop_drop [of 2 i argv] by (simp_all add: numeral_2_eq_2)
  note unfold = parse_option [of argv i, unfolded d(1) list.case] d(1)
  consider "cstr opt \<noteq> ''--workers''" | "cstr opt = ''--workers''" "c_atoi val = None"
    | n where "cstr opt = ''--workers''" "c_atoi val = Some n" "n < 1 \<or> 16 < n"
    | n where "cstr opt = ''--workers''" "c_atoi val = Some n" "1 \<le> n" "n \<le> 16"
    by (metis not_None_eq not_le)
  then show ?case
  proof cases
    case 4
    have "parse_options argv (i + 2) (v\<lparr>g_nworkers := n\<rparr>) = Some (0, v') \<longleftrightarrow>
        (\<exists>ns. worker_counts rest = Some ns \<and> v' = v\<lparr>g_nworkers := last (n # ns)\<rparr>)"
      using "3.hyps"(1) [OF 4(1,2) _ d(2) [symmetric], of "v\<lparr>g_nworkers := n\<rparr>"] 4 unfolding d(2) by simp
    moreover have "parse_options argv i v = parse_options argv (i + 2) (v\<lparr>g_nworkers := n\<rparr>)"
      "worker_counts (drop i argv) = map_option (Cons n) (worker_counts rest)"
      using 4 by (simp add: unfold, cases "worker_counts rest", simp_all add: d(1))
    ultimately show ?thesis by (cases "worker_counts rest") simp_all
  qed (auto simp: unfold split: bind_splits)
qed

text \<open>The command line never has a third outcome: it is refused with -1 and a message.\<close>

lemma parse_options_refused: "parse_options argv i v = Some (rc, v') \<Longrightarrow> rc \<noteq> 0 \<Longrightarrow> rc = -1 \<and> messages v' \<noteq> []"
proof (induction "length argv - i" arbitrary: i v rule: less_induct)
  case less
  from less.prems show ?case
    using less.hyps [of "Suc (Suc i)"]
    by (subst (asm) parse_options.simps)
      (auto simp: Let_def complain_def usage_def split: if_splits bind_splits)
qed

lemma parse_args_eq:
  "parse_args argv fcopy_statics =
     (if length argv < 3 then Option.bind (arr_get argv 0) (\<lambda>argv0. Some (-1, usage argv0 fcopy_statics))
      else parse_options argv 3 (fcopy_statics\<lparr>g_src_root := path_buf (argv ! 1), g_dst_root := path_buf (argv ! 2)\<rparr>))"
  by (simp add: parse_args_def strncpy_root fcopy_statics_def)

lemma parse_args_accepts:
  "parse_args argv fcopy_statics = Some (0, v) \<longleftrightarrow>
     3 \<le> length argv \<and> (\<exists>ns. worker_counts (drop 3 argv) = Some ns \<and>
       v = \<lparr>g_src_root = path_buf (argv ! 1), g_dst_root = path_buf (argv ! 2), g_nworkers = last (4 # ns), messages = []\<rparr>)"
  unfolding parse_args_eq
  by (cases "length argv < 3") (simp_all add: bind_eq_Some_conv parse_options_ok fcopy_statics_def)

lemma worker_counts_bounds: "worker_counts opts = Some ns \<Longrightarrow> n \<in> set ns \<Longrightarrow> 1 \<le> n \<and> n \<le> 16"
  by (induction opts arbitrary: ns rule: worker_counts.induct) (auto split: if_splits bind_splits)

lemma parse_args_workers:
  assumes "parse_args argv fcopy_statics = Some (0, v)"
  shows "1 \<le> g_nworkers v" "g_nworkers v \<le> 16"
proof -
  obtain ns where "worker_counts (drop 3 argv) = Some ns" "g_nworkers v = last (4 # ns)"
    using assms by (auto simp: parse_args_accepts)
  with worker_counts_bounds [of _ ns "last ns"] show "1 \<le> g_nworkers v" "g_nworkers v \<le> 16"
    by (auto split: if_splits)
qed

text \<open>
  The command line is accepted exactly when it has a source, a destination and then only pairs of
  \<open>--workers\<close> and a number from 1 to 16. The roots are then the first 4095 bytes of the two arguments,
  terminated, and the number of workers is the last one given, 4 without any. Every other command line
  is refused with -1 and a message.
\<close>

theorem parse_args_spec:
  "(parse_args argv fcopy_statics = Some (0, v) \<longleftrightarrow>
      3 \<le> length argv \<and> (\<exists>ns. worker_counts (drop 3 argv) = Some ns \<and>
        v = \<lparr>g_src_root = path_buf (argv ! 1), g_dst_root = path_buf (argv ! 2), g_nworkers = last (4 # ns), messages = []\<rparr>)) \<and>
   (parse_args argv fcopy_statics = Some (rc, w) \<longrightarrow> rc = 0 \<or> rc = -1 \<and> messages w \<noteq> [])"
proof
  show "parse_args argv fcopy_statics = Some (rc, w) \<longrightarrow> rc = 0 \<or> rc = -1 \<and> messages w \<noteq> []"
    using parse_options_refused by (auto simp: parse_args_eq usage_def complain_def split: if_splits bind_splits)
qed (rule parse_args_accepts)

theorem parse_args_spec_witness:
  "\<exists>v. parse_args [''fcopy'', ''from'', ''to'', ''--workers'', '' 8''] fcopy_statics = Some (0, v) \<and>
     g_nworkers v = 8 \<and> cstr (g_src_root v) = ''from'' \<and> cstr (g_dst_root v) = ''to''"
proof -
  have "worker_counts [''--workers'', '' 8''] = Some [8]" "cstr ''from'' = ''from''" "cstr ''to'' = ''to''" by code_simp+
  then show ?thesis
    using parse_args_spec [of "[''fcopy'', ''from'', ''to'', ''--workers'', '' 8'']"
        "\<lparr>g_src_root = path_buf ''from'', g_dst_root = path_buf ''to'', g_nworkers = 8, messages = []\<rparr>"]
    by auto
qed


subsection \<open>Where the files go\<close>

lemma snprintf_props:
  assumes "length buf = Suc n" "NUL \<notin> set str"
  shows "length (c_snprintf buf str) = Suc n" "cstr (c_snprintf buf str) = take n str" "terminated (c_snprintf buf str)"
proof -
  have eq: "c_snprintf buf str = take n str @ NUL # drop (length (take n str) + 1) buf"
    using assms(1) by (auto simp: c_snprintf_def Let_def)
  show "length (c_snprintf buf str) = Suc n" using assms(1) by (simp add: eq)
  show "cstr (c_snprintf buf str) = take n str"
    unfolding eq by (rule cstr_append_NUL) (use assms(2) in \<open>blast dest: in_set_takeD\<close>)
  show "terminated (c_snprintf buf str)" by (simp add: eq terminated_def)
qed

lemma strip_slash_root:
  assumes "terminated root"
  obtains root' where "strip_slash root = Some root'" "terminated root'" "length root' = length root"
    "cstr root' = (if length (cstr root) > 1 \<and> last (cstr root) = CHR ''/'' then butlast (cstr root) else cstr root)"
proof -
  let ?n = "length (cstr root) - 1"
  have n: "length (cstr root) > 1 \<Longrightarrow> ?n < length root" using terminated_length_cstr [OF assms] by linarith
  have pre: "take (length (cstr root)) root = cstr root"
    unfolding cstr_def by (rule takeWhile_eq_take [symmetric])
  have end_char: "root ! ?n = last (cstr root)" if "length (cstr root) > 1"
  proof -
    have "cstr root \<noteq> []" using that by auto
    then have "last (cstr root) = cstr root ! ?n" by (rule last_conv_nth)
    also have "\<dots> = root ! ?n" using that unfolding cstr_def by (intro takeWhile_nth) simp
    finally show ?thesis by simp
  qed
  have "cstr (root[?n := NUL]) = butlast (cstr root)" if "length (cstr root) > 1"
  proof -
    have "butlast (cstr root) = take ?n root"
      using butlast_take [OF length_cstr_le [of root]] by (simp add: pre)
    then have "root[?n := NUL] = butlast (cstr root) @ NUL # drop (Suc ?n) root"
      using upd_conv_take_nth_drop [OF n [OF that], of NUL] by simp
    moreover have "NUL \<notin> set (butlast (cstr root))" by (meson NUL_notin_cstr in_set_butlastD)
    ultimately show ?thesis by (simp add: cstr_append_NUL)
  qed
  with assms n end_char show ?thesis
    by (intro that [of "if length (cstr root) > 1 \<and> last (cstr root) = CHR ''/'' then root[?n := NUL] else root"])
      (auto simp: strip_slash_def Let_def terminated_def set_update_memI)
qed

definition fitted :: "string \<Rightarrow> cbuf \<Rightarrow> bool" where
  "fitted str buf \<longleftrightarrow> length buf = JOB_PATH_MAX \<and> terminated buf \<and> cstr buf = take (JOB_PATH_MAX - 1) str"

lemma fitted_snprintf: "length buf = 4096 \<Longrightarrow> NUL \<notin> set str \<Longrightarrow> fitted str (c_snprintf buf str)"
  using snprintf_props [of buf 4095 str] by (simp add: fitted_def)

text \<open>
  The walk's callback, for a path below the source root, as \<open>nftw\<close> hands it out: a file becomes a
  job that names this file and the same place below the destination root, a directory becomes the
  directory there, and nothing else is touched. Both paths are cut off after 4095 bytes.
\<close>

theorem walk_cb_spec:
  assumes "cstr fpath = cstr (g_src_root v) @ rel" "length (cj_src junk) = JOB_PATH_MAX" "length (cj_dst junk) = JOB_PATH_MAX"
  shows "(\<exists>job. walk_cb v fpath FTW_F junk = Some (Walk_push job) \<and>
       fitted (cstr fpath) (cj_src job) \<and> fitted (cstr (g_dst_root v) @ rel) (cj_dst job)) \<and>
     walk_cb v fpath FTW_D junk = Some (Walk_mkdir (take 4095 (cstr (g_dst_root v) @ rel))) \<and>
     walk_cb v fpath FTW_OTHER junk = Some Walk_skip"
proof -
  have rel: "NUL \<notin> set rel" using assms(1) NUL_notin_cstr [of fpath] by auto
  have "str_from fpath (length (cstr (g_src_root v))) = Some rel" by (simp add: str_from_def assms(1))
  with rel assms fitted_snprintf [of "cj_dst junk" "cstr (g_dst_root v) @ rel"] fitted_snprintf [of "cj_src junk" "cstr fpath"]
  show ?thesis by (simp add: walk_cb_def fitted_def)
qed

theorem walk_cb_spec_witness:
  "\<exists>job. walk_cb (fcopy_statics\<lparr>g_src_root := path_buf ''from'', g_dst_root := path_buf ''to''\<rparr>) ''from/a/b'' FTW_F zero_job =
       Some (Walk_push job) \<and> cstr (cj_src job) = ''from/a/b'' \<and> cstr (cj_dst job) = ''to/a/b''"
proof -
  have c: "cstr ''from'' = ''from''" "cstr ''to'' = ''to''" "cstr ''from/a/b'' = ''from/a/b''" by code_simp+
  show ?thesis
    using walk_cb_spec [of "''from/a/b''" "fcopy_statics\<lparr>g_src_root := path_buf ''from'', g_dst_root := path_buf ''to''\<rparr>" "''/a/b''" zero_job]
    by (auto simp: c zero_job_def fitted_def)
qed

end
