(* ===== verification/Fcopy_Program.thy ===== *)
theory Fcopy_Program
  imports File_Copy Copy_File Fcopy_Setup Client
begin

text \<open>
  The file copy program as a whole, \<open>examples/filecopy/main.c\<close>, \<open>worker.c\<close> and \<open>port.c\<close>: the main thread
  with the tree walk, the workers and the supervisor thread, running on the library. The state of the
  program is that of the library; what belongs to the program itself is its environment. The threads
  around the job queue are those of \<open>File_Copy\<close>. A thread makes its steps at the calls it shares with the
  others: a call of the library, an operation on the job queue, a join. Copying one file is one step.

  The main thread up to the tree walk is run as one piece: the workers it starts find the queue empty
  until the walk begins. A run is followed up to a \<open>pthread_join\<close> in the restart callback that would
  have to wait, with the library locked, or whose thread has been joined before, which is undefined.
\<close>

subsection \<open>The platform and the memory of the program\<close>

type_synonym walk_entry = "string \<times> ftw_flag \<times> copy_job"

text \<open>What the program calls of its platform, over a world \<open>'w\<close>; \<open>nftw\<close> lists what it hands to the callback.\<close>

record 'w host =
  sys :: "'w posix"
  clock_gettime :: "'w clock"
  errno :: "'w \<Rightarrow> int"
  pthread_create :: "'w \<Rightarrow> int \<times> 'w"
  stat_dir :: "string \<Rightarrow> 'w \<Rightarrow> (int \<times> bool) \<times> 'w"
  mkdir :: "string \<Rightarrow> 'w \<Rightarrow> int \<times> 'w"
  EEXIST :: int
  strerror :: "int \<Rightarrow> string"
  nftw :: "string \<Rightarrow> 'w \<Rightarrow> walk_entry list"

datatype thread = No_thread | Joinable | Joined

record worker_ctx =
  wc_index :: int
  wc_entity :: fdir_entity_id
  wc_thread :: thread
  wc_active :: int

datatype main_pc = Setup | Walking | Joining nat | In_join nat | Stopping | Returned int

datatype sup_pc = Sup_none | Sup_loop | Sup_check | Sup_ended

datatype halt = Running | Join_waits | Join_undefined | Process_exit int

record 'w fcopy_env =
  vars :: fcopy_vars
  threads :: fcopy
  g_workers :: "worker_ctx list"
  entries :: "walk_entry list"
  g_running :: int
  main_pc :: main_pc
  sup_pc :: sup_pc
  halt :: halt
  world :: 'w

definition warn :: "string \<Rightarrow> 'w fcopy_env \<Rightarrow> 'w fcopy_env" where
  "warn line e = e\<lparr>vars := complain line (vars e)\<rparr>"

definition zero_ctx :: worker_ctx where
  "zero_ctx = \<lparr>wc_index = 0, wc_entity = 0, wc_thread = No_thread, wc_active = 0\<rparr>"

text \<open>The memory when the program starts, with whatever the job queue holds.\<close>

definition fcopy_boot :: "job_queue \<Rightarrow> 'w \<Rightarrow> 'w fcopy_env fdir" where
  "fcopy_boot q w = fdir_boot
     \<lparr>vars = fcopy_statics, threads = (fcopy_start 0 [] q)\<lparr>fc_queue := q\<rparr>, g_workers = replicate 16 zero_ctx,
      entries = [], g_running = 1, main_pc = Setup, sup_pc = Sup_none, halt = Running, world = w\<rparr>"


subsection \<open>The port\<close>

text \<open>The mutex is held by one thread at a time because a call of the library is one step here.\<close>

definition port_lock :: "'w fcopy_env \<Rightarrow> 'w fcopy_env" where
  "port_lock e = e"

definition port_unlock :: "'w fcopy_env \<Rightarrow> 'w fcopy_env" where
  "port_unlock e = e"

definition port_now :: "'w host \<Rightarrow> 'w fcopy_env \<Rightarrow> u32 \<times> 'w fcopy_env" where
  "port_now h e =
     (let ((tv_sec, tv_nsec), w) = clock_gettime h (world e)
      in (word_of_int (tv_sec * 1000 + tv_nsec div 1000000), e\<lparr>world := w\<rparr>))"

fun modes :: "fdir_mode \<Rightarrow> string" where
  "modes FDIR_MODE_NOMINAL = ''NOMINAL''"
| "modes FDIR_MODE_DEGRADED = ''DEGRADED''"
| "modes FDIR_MODE_SAFE = ''SAFE''"
| "modes FDIR_MODE_REBOOT_PENDING = ''REBOOT_PENDING''"
| "modes (FDIR_MODE_OTHER n) = ''?''"

definition port_emit :: "fdir_event \<Rightarrow> 'w fcopy_env \<Rightarrow> 'w fcopy_env" where
  "port_emit event e =
     warn (''[fdir] '' @ pad 12 (kind_name (ev_kind event)) @ '' mode='' @ pad 16 (modes (ev_mode event)) @
       '' entity='' @ dec (unat (ev_entity event)) @ '' '' @ [CHR 0x22] @ cstr (ev_detail event) @ [CHR 0x22]) e"

definition port_reboot :: "string \<Rightarrow> 'w fcopy_env \<Rightarrow> 'w fcopy_env" where
  "port_reboot reason e = (warn (''[fdir] fatal: '' @ reason) e)\<lparr>halt := Process_exit 1\<rparr>"

definition fdir_app_port :: "'w host \<Rightarrow> 'w fcopy_env fdir_port" where
  "fdir_app_port h =
     \<lparr>get_now_ms = Some (port_now h), emit_event = Some port_emit, request_reboot = Some port_reboot,
      lock = Some port_lock, unlock = Some port_unlock\<rparr>"


subsection \<open>Workers\<close>

definition on_ctx :: "nat \<Rightarrow> (worker_ctx \<Rightarrow> worker_ctx) \<Rightarrow> 'w fcopy_env \<Rightarrow> 'w fcopy_env" where
  "on_ctx i f e = e\<lparr>g_workers := (g_workers e)[i := f (g_workers e ! i)]\<rparr>"

definition on_threads :: "(fcopy \<Rightarrow> fcopy) \<Rightarrow> 'w fcopy_env \<Rightarrow> 'w fcopy_env" where
  "on_threads f e = e\<lparr>threads := f (threads e)\<rparr>"

definition station :: "nat \<Rightarrow> worker \<Rightarrow> fcopy \<Rightarrow> fcopy" where
  "station i w c = c\<lparr>fc_workers := (fc_workers c)[i := w]\<rparr>"

definition worker_start :: "'w host \<Rightarrow> nat \<Rightarrow> 'w fcopy_env \<Rightarrow> int \<times> 'w fcopy_env" where
  "worker_start h i e =
     (let e = on_ctx i (\<lambda>c. c\<lparr>wc_active := 1\<rparr>) e;
          (rc, w) = pthread_create h (world e);
          e = e\<lparr>world := w\<rparr>
      in if rc = 0 then (rc, on_threads (station i At_gate) (on_ctx i (\<lambda>c. c\<lparr>wc_thread := Joinable\<rparr>) e))
         else (rc, e))"

text \<open>
  \<open>pthread_join\<close> of a worker: it returns when the thread has ended. A second join of a thread is
  undefined, and so are joins of one thread by two at the same time.
\<close>

definition join_worker :: "nat \<Rightarrow> 'w fcopy_env \<Rightarrow> 'w fcopy_env" where
  "join_worker i e =
     (if wc_thread (g_workers e ! i) \<noteq> Joinable then e\<lparr>halt := Join_undefined\<rparr>
      else if fc_workers (threads e) ! i \<noteq> Exited then e\<lparr>halt := Join_waits\<rparr>
      else on_ctx i (\<lambda>c. c\<lparr>wc_thread := Joined\<rparr>) e)"

definition worker_restart_cb :: "'w host \<Rightarrow> 'w fcopy_env restart_fn" where
  "worker_restart_cb h eid user e =
     (if halt e \<noteq> Running then (0, e)
      else let e = warn (''[fcopy] restarting worker '' @ dec_int (wc_index (g_workers e ! user))) e;
               e = (if main_pc e = In_join user then e\<lparr>halt := Join_undefined\<rparr> else join_worker user e)
           in if halt e \<noteq> Running then (0, e) else worker_start h user e)"

text \<open>The end of \<open>worker_thread\<close>.\<close>

definition worker_exit :: "nat \<Rightarrow> 'w fcopy_env \<Rightarrow> 'w fcopy_env" where
  "worker_exit i e = on_ctx i (\<lambda>c. c\<lparr>wc_active := 0\<rparr>) e"

text \<open>One step of \<open>worker_thread\<close>; a worker that waits or has ended makes none.\<close>

definition worker_thread :: "'w host \<Rightarrow> nat \<Rightarrow> 'w fcopy_env fdir \<Rightarrow> 'w fcopy_env fdir option" where
  "worker_thread h i s =
     (case fc_workers (threads (env s)) ! i of
        At_gate \<Rightarrow> do {
          (may_run, s) \<leftarrow> fdir_worker_may_run (wc_entity (g_workers (env s) ! i)) s;
          Some (if may_run = 0 then s else s\<lparr>env := on_threads (station i Popping) (env s)\<rparr>)
        }
      | Popping \<Rightarrow> do {
          r \<leftarrow> job_queue_pop zero_job (fc_queue (threads (env s)));
          (case r of
             Wait \<Rightarrow> Some (s\<lparr>env := on_threads (station i Pop_waiting) (env s)\<rparr>)
           | Done ((got, job), q) \<Rightarrow>
               if got = 0
               then Some (s\<lparr>env := worker_exit i (on_threads (\<lambda>c. c\<lparr>fc_queue := q,
                      fc_workers := wake_all ((fc_workers c)[i := Exited])\<rparr>) (env s))\<rparr>)
               else Some (s\<lparr>env := on_threads (\<lambda>c. c\<lparr>fc_queue := q,
                      fc_workers := (fc_workers c)[i := Copying job],
                      fc_taken := fc_taken c @ [job], fc_walker := wake_walker (fc_walker c)\<rparr>) (env s)\<rparr>))
        }
      | Copying job \<Rightarrow> do {
          (rc, w) \<leftarrow> copy_file (sys h) (cstr (cj_src job)) (cstr (cj_dst job)) (world (env s));
          let s = s\<lparr>env := (env s)\<lparr>world := w\<rparr>\<rparr>;
          if rc \<noteq> 0 then do {
            (_, s) \<leftarrow> fdir_report_fault (wc_entity (g_workers (env s) ! i)) FDIR_REASON_IO_ERROR
                   (word_of_int (errno h w)) (Some (cj_src job)) s;
            Some (s\<lparr>env := worker_exit i (on_threads
                (\<lambda>c. (station i Exited c)\<lparr>fc_failures := job # fc_failures c\<rparr>) (env s))\<rparr>)
          }
          else do {
            s \<leftarrow> fdir_health_heartbeat_notify (wc_entity (g_workers (env s) ! i)) s;
            Some (s\<lparr>env := on_threads (\<lambda>c. (station i At_gate c)\<lparr>fc_copied := job # fc_copied c\<rparr>) (env s)\<rparr>)
          }
        }
      | _ \<Rightarrow> None)"


subsection \<open>The supervisor thread\<close>

definition abort_copy :: "'w fcopy_env \<Rightarrow> 'w fcopy_env" where
  "abort_copy e =
     on_threads (\<lambda>c. c\<lparr>fc_queue := job_queue_finish (fc_queue c), fc_aborted := True,
         fc_workers := wake_all (fc_workers c)\<rparr>)
       ((warn ''[fcopy] system entered SAFE mode, aborting'' e)\<lparr>g_running := 0, sup_pc := Sup_ended\<rparr>)"

definition supervisor_thread :: "'w fcopy_env fdir \<Rightarrow> 'w fcopy_env fdir option" where
  "supervisor_thread s =
     (case sup_pc (env s) of
        Sup_loop \<Rightarrow>
          if g_running (env s) = 0 then Some (s\<lparr>env := (env s)\<lparr>sup_pc := Sup_ended\<rparr>\<rparr>)
          else do {
            s \<leftarrow> fdir_supervisor_tick s;
            Some (s\<lparr>env := (env s)\<lparr>sup_pc := Sup_check\<rparr>\<rparr>)
          }
      | Sup_check \<Rightarrow> do {
          let (mode, s) = fdir_system_mode s;
          if mode \<ge> FDIR_MODE_SAFE then Some (s\<lparr>env := abort_copy (env s)\<rparr>)
          else Some (s\<lparr>env := (env s)\<lparr>sup_pc := Sup_loop\<rparr>\<rparr>)
        }
      | _ \<Rightarrow> None)"


subsection \<open>The main thread up to the walk\<close>

definition fcopy_config :: "fcopy_vars \<Rightarrow> 'w fcopy_env fdir_config" where
  "fcopy_config v = fdir_config_default\<lparr>health_check_period_ms := 2000, missed_heartbeat_tolerance := 3,
     safe_mode_critical_failure_threshold := word_of_int (g_nworkers v)\<rparr>"

definition worker_desc :: "'w host \<Rightarrow> nat \<Rightarrow> 'w fcopy_env fdir_entity_desc" where
  "worker_desc h i = zero_entity_desc\<lparr>ed_name := Some ''worker'', ed_max_restarts := 2,
     ed_max_watchdog_restarts := 1, ed_on_exhausted := FDIR_ACTION_UNAVAILABLE,
     ed_linked_subsystem := FDIR_SUBSYSTEM_NONE, ed_restart := Some (worker_restart_cb h), ed_user := i\<rparr>"

definition return_from_main :: "int \<Rightarrow> 'w fcopy_env fdir \<Rightarrow> 'w fcopy_env fdir" where
  "return_from_main rc s = s\<lparr>env := (env s)\<lparr>main_pc := Returned rc\<rparr>\<rparr>"

definition fail :: "string \<Rightarrow> 'w fcopy_env fdir \<Rightarrow> 'w fcopy_env fdir" where
  "fail line s = return_from_main 1 (s\<lparr>env := warn line (env s)\<rparr>)"

text \<open>The loop that registers and starts the workers \<open>i\<close>, \<open>i + 1\<close>, \<open>\<dots>\<close>, \<open>m\<close> of them.\<close>

primrec start_workers :: "'w host \<Rightarrow> nat \<Rightarrow> nat \<Rightarrow> 'w fcopy_env fdir \<Rightarrow> 'w fcopy_env fdir option" where
  "start_workers h 0 i s = Some s"
| "start_workers h (Suc m) i s = do {
     let s = s\<lparr>env := on_ctx i (\<lambda>c. c\<lparr>wc_index := int i\<rparr>) (env s)\<rparr>;
     ((status, out), s) \<leftarrow> fdir_entity_register (Some (worker_desc h i)) (Some (wc_entity (g_workers (env s) ! i))) s;
     let s = s\<lparr>env := on_ctx i (\<lambda>c. c\<lparr>wc_entity := the out\<rparr>) (env s)\<rparr>;
     if status \<noteq> FDIR_OK
     then Some (fail (''fcopy: fdir_entity_register failed for worker '' @ dec i) s)
     else do {
       s \<leftarrow> fdir_health_heartbeat_notify (wc_entity (g_workers (env s) ! i)) s;
       let (rc, e) = worker_start h i (env s);
       let s = s\<lparr>env := e\<rparr>;
       if rc \<noteq> 0 then Some (fail (''fcopy: failed to start worker '' @ dec i) s)
       else start_workers h m (Suc i) s
     }
   }"

text \<open>The jobs that the walk will push, in order.\<close>

definition jobs_of :: "fcopy_vars \<Rightarrow> walk_entry list \<Rightarrow> copy_job list" where
  "jobs_of v es = concat (map (\<lambda>(fpath, typeflag, junk).
     case walk_cb v fpath typeflag junk of Some (Walk_push job) \<Rightarrow> [job] | _ \<Rightarrow> []) es)"

text \<open>The supervisor thread is created, its result not looked at, and the walk begins.\<close>

definition begin_walk :: "'w host \<Rightarrow> 'w fcopy_env fdir \<Rightarrow> 'w fcopy_env fdir" where
  "begin_walk h s =
     (let (rc, w) = pthread_create h (world (env s));
          es = nftw h (cstr (g_src_root (vars (env s)))) w;
          e = (env s)\<lparr>world := w, sup_pc := (if rc = 0 then Sup_loop else Sup_none), entries := es, main_pc := Walking\<rparr>
      in s\<lparr>env := on_threads (\<lambda>c. c\<lparr>fc_todo := jobs_of (vars e) es\<rparr>) e\<rparr>)"

text \<open>After the command line and the two directories: the queue, the library, the workers.\<close>

definition start_copy :: "'w host \<Rightarrow> 'w fcopy_env fdir \<Rightarrow> 'w fcopy_env fdir option" where
  "start_copy h s =
     (let v = vars (env s);
          s = s\<lparr>env := on_threads (\<lambda>c. fcopy_start (nat (g_nworkers v)) [] (fc_queue c)) (env s)\<rparr>;
          (init_status, s) = fdir_init (Some (fcopy_config v)) (Some (fdir_app_port h)) s
      in if init_status \<noteq> FDIR_OK then Some (fail ''fcopy: fdir_init failed'' s)
         else do {
           s \<leftarrow> start_workers h (nat (g_nworkers v)) 0 s;
           Some (if main_pc (env s) = Setup then begin_walk h s else s)
         })"

definition fcopy_main :: "'w host \<Rightarrow> string list \<Rightarrow> 'w fcopy_env fdir \<Rightarrow> 'w fcopy_env fdir option" where
  "fcopy_main h argv s =
     do {
       (rc, v) \<leftarrow> parse_args argv (vars (env s));
       let s = s\<lparr>env := (env s)\<lparr>vars := v\<rparr>\<rparr>;
       if rc \<noteq> 0 then Some (return_from_main 1 s)
       else do {
         root \<leftarrow> strip_slash (g_src_root v);
         let v = v\<lparr>g_src_root := root\<rparr>;
         let ((rc, is_dir), w) = stat_dir h (cstr root) (world (env s));
         let s = s\<lparr>env := (env s)\<lparr>vars := v, world := w\<rparr>\<rparr>;
         if rc \<noteq> 0 \<or> \<not> is_dir
         then Some (fail (''fcopy: '' @ [CHR 0x27] @ cstr root @ [CHR 0x27] @ '' is not a directory'') s)
         else do {
           let (rc, w) = mkdir h (cstr (g_dst_root v)) w;
           let s = s\<lparr>env := (env s)\<lparr>world := w\<rparr>\<rparr>;
           if rc \<noteq> 0 \<and> errno h w \<noteq> EEXIST h
           then Some (fail (''fcopy: cannot create '' @ [CHR 0x27] @ cstr (g_dst_root v) @ [CHR 0x27] @ '': ''
                  @ strerror h (errno h w)) s)
           else start_copy h s
         }
       }
     }"


subsection \<open>The main thread from the walk on\<close>

text \<open>
  The walk hands the next entry to \<open>walk_cb\<close>. A push on a full queue waits; a push wakes one of the
  workers that wait. After the last entry the queue is finished and the workers are joined.
\<close>

inductive walk_step :: "'w host \<Rightarrow> 'w fcopy_env \<Rightarrow> 'w fcopy_env \<Rightarrow> bool" for h where
  dir: "entries e = (p, f, junk) # es \<Longrightarrow> walk_cb (vars e) p f junk = Some (Walk_mkdir d) \<Longrightarrow>
    walk_step h e (e\<lparr>entries := es, world := snd (mkdir h d (world e))\<rparr>)"
| skip: "entries e = (p, f, junk) # es \<Longrightarrow> walk_cb (vars e) p f junk = Some Walk_skip \<Longrightarrow>
    walk_step h e (e\<lparr>entries := es\<rparr>)"
| full: "entries e = (p, f, junk) # es \<Longrightarrow> walk_cb (vars e) p f junk = Some (Walk_push job) \<Longrightarrow>
    job_queue_push job (fc_queue (threads e)) = Some Wait \<Longrightarrow>
    walk_step h e (on_threads (\<lambda>c. c\<lparr>fc_walker := Push_waiting\<rparr>) e)"
| push: "entries e = (p, f, junk) # es \<Longrightarrow> walk_cb (vars e) p f junk = Some (Walk_push job) \<Longrightarrow>
    job_queue_push job (fc_queue (threads e)) = Some (Done q) \<Longrightarrow> signalled (fc_workers (threads e)) ws \<Longrightarrow>
    walk_step h e (on_threads (\<lambda>c. c\<lparr>fc_queue := q, fc_todo := tl (fc_todo c), fc_workers := ws\<rparr>) (e\<lparr>entries := es\<rparr>))"
| finish: "entries e = [] \<Longrightarrow>
    walk_step h e (on_threads (\<lambda>c. c\<lparr>fc_queue := job_queue_finish (fc_queue c), fc_walker := Walked,
      fc_workers := wake_all (fc_workers c)\<rparr>) (e\<lparr>main_pc := Joining 0\<rparr>))"

text \<open>
  A step of \<open>worker_wait_all\<close>: an active worker is joined, another one is passed over. The main thread
  makes no step as long as a join has to wait.
\<close>

definition worker_wait_all :: "'w fcopy_env \<Rightarrow> 'w fcopy_env option" where
  "worker_wait_all e =
     (case main_pc e of
        Joining k \<Rightarrow> Some (e\<lparr>main_pc := (if wc_active (g_workers e ! k) = 0 then Joining (Suc k) else In_join k)\<rparr>)
      | In_join k \<Rightarrow>
          if wc_thread (g_workers e ! k) = Joinable \<and> fc_workers (threads e) ! k \<noteq> Exited then None
          else Some ((join_worker k e)\<lparr>main_pc := Joining (Suc k)\<rparr>)
      | _ \<Rightarrow> None)"

text \<open>The main thread from \<open>worker_wait_all\<close> to the end of \<open>main\<close>.\<close>

definition main_thread :: "'w fcopy_env fdir \<Rightarrow> 'w fcopy_env fdir option" where
  "main_thread s =
     (let e = env s in
      case main_pc e of
        Joining k \<Rightarrow>
          if k < nat (g_nworkers (vars e)) then do {
            e \<leftarrow> worker_wait_all e;
            Some (s\<lparr>env := e\<rparr>)
          }
          else Some (s\<lparr>env := e\<lparr>g_running := 0, main_pc := Stopping\<rparr>\<rparr>)
      | In_join k \<Rightarrow> do {
          e \<leftarrow> worker_wait_all e;
          Some (s\<lparr>env := e\<rparr>)
        }
      | Stopping \<Rightarrow>
          (case sup_pc e of
             Sup_none \<Rightarrow> Some (s\<lparr>env := e\<lparr>halt := Join_undefined\<rparr>\<rparr>)
           | Sup_ended \<Rightarrow>
               let (mode, s) = fdir_system_mode s
               in if mode \<ge> FDIR_MODE_SAFE
                  then Some (fail (''fcopy: completed in degraded state (mode='' @ dec (mode_code mode) @ '')'') s)
                  else Some (return_from_main 0 s)
           | _ \<Rightarrow> None)
      | _ \<Rightarrow> None)"


subsection \<open>The program\<close>

text \<open>The process runs until \<open>main\<close> returns or a join is met that the model does not follow.\<close>

definition active :: "'w fcopy_env \<Rightarrow> bool" where
  "active e \<longleftrightarrow> halt e = Running \<and> (case main_pc e of Setup \<Rightarrow> False | Returned _ \<Rightarrow> False | _ \<Rightarrow> True)"

inductive fcopy_step :: "'w host \<Rightarrow> 'w fcopy_env fdir \<Rightarrow> 'w fcopy_env fdir \<Rightarrow> bool" for h where
  walk: "active (env s) \<Longrightarrow> main_pc (env s) = Walking \<Longrightarrow> fc_walker (threads (env s)) = Pushing \<Longrightarrow>
    walk_step h (env s) e \<Longrightarrow> fcopy_step h s (s\<lparr>env := e\<rparr>)"
| main: "active (env s) \<Longrightarrow> main_thread s = Some s' \<Longrightarrow> fcopy_step h s s'"
| worker: "active (env s) \<Longrightarrow> i < nat (g_nworkers (vars (env s))) \<Longrightarrow> worker_thread h i s = Some s' \<Longrightarrow>
    fcopy_step h s s'"
| supervisor: "active (env s) \<Longrightarrow> supervisor_thread s = Some s' \<Longrightarrow> fcopy_step h s s'"
| spurious: "active (env s) \<Longrightarrow> i < nat (g_nworkers (vars (env s))) \<Longrightarrow>
    fc_workers (threads (env s)) ! i = Pop_waiting \<Longrightarrow>
    fcopy_step h s (s\<lparr>env := on_threads (station i Popping) (env s)\<rparr>)"
| spurious_walker: "active (env s) \<Longrightarrow>
    fcopy_step h s (s\<lparr>env := on_threads (\<lambda>c. c\<lparr>fc_walker := wake_walker (fc_walker c)\<rparr>) (env s)\<rparr>)"

text \<open>The runs of the program, with the jobs that the walk has to push.\<close>

inductive fcopy_exec :: "'w host \<Rightarrow> string list \<Rightarrow> copy_job list \<Rightarrow> 'w fcopy_env fdir \<Rightarrow> bool" for h argv where
  start: "fcopy_main h argv (fcopy_boot q w) = Some s \<Longrightarrow> fcopy_exec h argv (fc_todo (threads (env s))) s"
| step: "fcopy_exec h argv js s \<Longrightarrow> fcopy_step h s s' \<Longrightarrow> fcopy_exec h argv js s'"

end
