(* ===== verification/Hooks.thy ===== *)
theory Hooks
  imports Supervised
begin

text \<open>
  What the callbacks do to the application's memory. The library itself never changes \<open>env\<close>: it calls
  hooks, and each hook changes \<open>env\<close> and leaves an entry in the history. So a predicate on both that
  every hook in the state keeps is kept by every call of the library. This is what an application
  needs to know to reason about its own hooks.
\<close>

named_theorems hook_keeps \<open>a function keeps a predicate that the hooks keep\<close>

type_synonym 'e hook_inv = "'e \<Rightarrow> ext_call list \<Rightarrow> bool"

subsection \<open>Hooks that keep a predicate\<close>

definition kept_by :: "'e hook_inv \<Rightarrow> ('e \<Rightarrow> 'e) \<Rightarrow> ('e \<Rightarrow> ext_call) \<Rightarrow> bool" where
  "kept_by J f c \<longleftrightarrow> (\<forall>e cs. J e cs \<longrightarrow> J (f e) (cs @ [c e]))"

definition port_keeps :: "'e hook_inv \<Rightarrow> 'e fdir_port \<Rightarrow> bool" where
  "port_keeps J p \<longleftrightarrow>
     (\<forall>f. get_now_ms p = Some f \<longrightarrow> kept_by J (snd \<circ> f) (\<lambda>e. Call_now (fst (f e)))) \<and>
     (\<forall>f ev. emit_event p = Some f \<longrightarrow> kept_by J (f ev) (\<lambda>_. Call_emit ev)) \<and>
     (\<forall>f why. request_reboot p = Some f \<longrightarrow> kept_by J (f why) (\<lambda>_. Call_reboot why)) \<and>
     (\<forall>f. lock p = Some f \<longrightarrow> kept_by J f (\<lambda>_. Call_lock)) \<and>
     (\<forall>f. unlock p = Some f \<longrightarrow> kept_by J f (\<lambda>_. Call_unlock))"

definition config_keeps :: "'e hook_inv \<Rightarrow> 'e fdir_config \<Rightarrow> bool" where
  "config_keeps J c \<longleftrightarrow>
     (\<forall>f mode level report. on_system_escalation c = Some f \<longrightarrow>
        kept_by J (f mode level report (system_user c)) (\<lambda>_. Call_escalation mode level report (system_user c)))"

definition entity_keeps :: "'e hook_inv \<Rightarrow> fdir_entity_id \<Rightarrow> 'e fdir_entity_desc \<Rightarrow> bool" where
  "entity_keeps J eid d \<longleftrightarrow>
     (\<forall>f. ed_restart d = Some f \<longrightarrow>
        kept_by J (snd \<circ> f eid (ed_user d)) (\<lambda>e. Call_restart eid (ed_user d) (fst (f eid (ed_user d) e)))) \<and>
     (\<forall>f r n m. ed_decide d = Some f \<longrightarrow>
        kept_by J (snd \<circ> f eid r n m (ed_user d)) (\<lambda>e. Call_decide eid r n m (ed_user d) (fst (f eid r n m (ed_user d) e))))"

definition sub_keeps :: "'e hook_inv \<Rightarrow> 'e fdir_subsystem_desc \<Rightarrow> bool" where
  "sub_keeps J d \<longleftrightarrow>
     (\<forall>f sub eid r. sd_on_entity_exhausted d = Some f \<longrightarrow>
        kept_by J (snd \<circ> f sub eid r (sd_user d))
          (\<lambda>e. Call_exhausted sub eid r (sd_user d) (fst (f sub eid r (sd_user d) e))))"

text \<open>All hooks that the library holds keep \<open>J\<close>, and \<open>J\<close> holds now.\<close>

definition hooks_keep :: "'e hook_inv \<Rightarrow> 'e fdir \<Rightarrow> bool" where
  "hooks_keep J s \<longleftrightarrow>
     port_keeps J (g_port s) \<and> config_keeps J (g_config s) \<and>
     (\<forall>i. unat i < length (g_entities s) \<longrightarrow> entity_keeps J i (map es_desc (g_entities s) ! unat i)) \<and>
     (\<forall>d \<in> set (map ss_desc (g_subs (sb s))). sub_keeps J d)"

definition hooked :: "'e hook_inv \<Rightarrow> 'e fdir \<Rightarrow> bool" where
  "hooked J s \<longleftrightarrow> hooks_keep J s \<and> J (env s) (calls s)"

lemma hookedD: "hooked J s \<Longrightarrow> J (env s) (calls s)"
  by (simp add: hooked_def hooks_keep_def)

lemma hooked_simps [simp]:
  "hooked J (s\<lparr>hl := h\<rparr>) = hooked J s" "hooked J (s\<lparr>fq := q\<rparr>) = hooked J s" "hooked J (s\<lparr>g_mode := m\<rparr>) = hooked J s"
  "hooked J (s\<lparr>g_supervision_enabled := b\<rparr>) = hooked J s" "hooked J (s\<lparr>g_entity_count := n\<rparr>) = hooked J s"
  by (simp_all add: hooked_def hooks_keep_def)

lemma hooked_ents:
  "map es_desc es = map es_desc (g_entities s) \<Longrightarrow> hooked J (s\<lparr>g_entities := es\<rparr>) = hooked J s"
  using map_eq_imp_length_eq [of es_desc es es_desc "g_entities s"] by (simp add: hooked_def hooks_keep_def)

lemma hooked_subs: "same_subs (sb s) t \<Longrightarrow> hooked J (s\<lparr>sb := t\<rparr>) = hooked J s"
  unfolding hooked_def hooks_keep_def same_subs_def by simp

lemma hooked_ext: "hooked J s \<Longrightarrow> J e (calls s @ [c]) \<Longrightarrow> hooked J (ext c e s)"
  by (simp add: hooked_def hooks_keep_def)

lemma kept_byD: "kept_by J f c \<Longrightarrow> hooked J s \<Longrightarrow> hooked J (ext (c (env s)) (f (env s)) s)"
  by (intro hooked_ext) (auto simp: kept_by_def dest: hookedD)


subsection \<open>The port\<close>

lemma hooked_sync [simp]: "hooked J s \<Longrightarrow> hooked J (fdir_port_sync_enter s)" "hooked J s \<Longrightarrow> hooked J (fdir_port_sync_exit s)"
  by (auto simp: fdir_port_sync_enter_def fdir_port_sync_exit_def hooked_def [of J s] hooks_keep_def [of J s] port_keeps_def kept_by_def
      intro!: hooked_ext split: option.splits)

lemma hooked_port [hook_keeps]:
  assumes "hooked J s"
  shows "keeps (fdir_get_now_ms s) (\<lambda>(_, t). hooked J t)" "keeps (fdir_emit_event ev s) (hooked J)"
    "keeps (fdir_request_reboot why s) (hooked J)"
proof -
  have p: "port_keeps J (g_port s)" using assms by (simp add: hooked_def hooks_keep_def)
  then show "keeps (fdir_get_now_ms s) (\<lambda>(_, t). hooked J t)"
    using kept_byD [OF _ assms]
    by (fastforce simp: fdir_get_now_ms_def keeps_def port_keeps_def comp_def split: option.splits prod.splits)
  from p show "keeps (fdir_emit_event ev s) (hooked J)" "keeps (fdir_request_reboot why s) (hooked J)"
    using kept_byD [OF _ assms]
    by (fastforce simp: fdir_emit_event_def fdir_request_reboot_def keeps_def port_keeps_def split: option.splits)+
qed

lemma hooked_emit [hook_keeps]:
  assumes "hooked J s"
  shows "keeps (emit_event_full kind mode entity reason code level phase detail s) (hooked J)"
    "keeps (fdir_internal_emit_subsystem_state sub entity reason code phase detail s) (hooked J)"
  unfolding emit_event_full_def fdir_internal_emit_subsystem_state_def fdir_internal_emit_event_def Let_def option.case
  by (rule keeps_bindI [OF hooked_port(1) [OF assms]], clarify, rule keeps_bindI [of _ "\<lambda>_. True"],
      simp add: keeps_def, erule hooked_port)+


subsection \<open>The recovery engine\<close>

lemma hooked_notify: "hooked J s \<Longrightarrow> hooked J (notify_system_handler mode report s)"
  unfolding notify_system_handler_def Let_def fdir_internal_get_config_def
  by (auto split: option.split intro!: hooked_ext)
    (auto simp: hooked_def hooks_keep_def config_keeps_def kept_by_def)

lemma hooked_modes [hook_keeps]:
  assumes "hooked J s"
  shows "keeps (set_mode mode entity detail report s) (hooked J)"
    "keeps (enter_degraded_mode_unsafe s) (hooked J)" "keeps (enter_safe_mode_unsafe s) (hooked J)"
    "keeps (try_reboot_unsafe reason s) (hooked J)" "keeps (evaluate_dual_path s) (hooked J)"
proof -
  have set: "keeps (set_mode mode entity detail report s) (hooked J)" for mode entity detail report
    unfolding set_mode_def Let_def
    by (auto simp: keeps_if assms intro!: keeps_bindI [OF hooked_emit(1)] hooked_notify)
  then show "keeps (set_mode mode entity detail report s) (hooked J)" .
  show "keeps (enter_degraded_mode_unsafe s) (hooked J)" and safe: "keeps (enter_safe_mode_unsafe s) (hooked J)"
    by (simp_all add: enter_degraded_mode_unsafe_def enter_safe_mode_unsafe_def set assms)
  show "keeps (try_reboot_unsafe reason s) (hooked J)"
    unfolding try_reboot_unsafe_def Let_def by (rule keeps_bindI [OF set]) (rule hooked_port)
  show "keeps (evaluate_dual_path s) (hooked J)"
    unfolding evaluate_dual_path_def
    by (rule keeps_bindI [of _ "\<lambda>_. True"]) (simp_all add: keeps_def [of "fdir_subsystems_critical_unavailable_count _"] safe assms)
qed


lemma hooked_marks [hook_keeps]:
  assumes "hooked J s"
  shows "keeps (mark_linked_degraded sub eid report s) (hooked J)"
    "keeps (mark_linked_unavailable sub eid report s) (hooked J)"
proof -
  have "keeps (Option.bind m (\<lambda>t. fdir_internal_emit_subsystem_state sub eid reason code phase d (s\<lparr>sb := t\<rparr>))) (hooked J)"
    if "keeps m (\<lambda>t. same_subs (sb s) t \<and> Q t)" for m reason code phase d Q
    by (rule keeps_bindI [OF that]) (use assms in \<open>simp add: hooked_subs hooked_emit(2)\<close>)
  from this [OF sub_marks_keep(2)] this [OF sub_marks_keep(3)] assms
  show "keeps (mark_linked_degraded sub eid report s) (hooked J)"
    "keeps (mark_linked_unavailable sub eid report s) (hooked J)"
    by (simp_all add: mark_linked_degraded_def mark_linked_unavailable_def Let_def)
qed

text \<open>The call of a hook that also has a result.\<close>

lemma hooked_call:
  assumes "hooked J s" "kept_by J (snd \<circ> f) (\<lambda>e. c (fst (f e)))" "f (env s) = (x, e)"
  shows "hooked J (ext (c x) e s)"
  using kept_byD [OF assms(2,1)] assms(3) by simp

lemma hooked_exhausted_call:
  assumes "hooked J s" "sub_keeps J d" "sd_on_entity_exhausted d = Some f" "f sub eid r (sd_user d) (env s) = (x, e)"
  shows "hooked J (ext (Call_exhausted sub eid r (sd_user d) x) e s)"
  by (rule hooked_call [where c = "Call_exhausted sub eid r (sd_user d)" and f = "f sub eid r (sd_user d)"])
    (use assms in \<open>simp_all add: sub_keeps_def\<close>)

lemma hooked_exhausted [hook_keeps]:
  assumes "hooked J s"
  shows "keeps (fdir_subsystem_on_entity_exhausted sub eid report s) (\<lambda>(_, t). hooked J t)"
  unfolding fdir_subsystem_on_entity_exhausted_def
proof (rule keeps_bind_any)
  fix slot assume slot: "slot_of sub (sb s) = Some slot"
  have sub: "sub_keeps J (ss_desc sl)" if "slot = Some sl" for sl
    using assms slot that by (auto simp: hooked_def hooks_keep_def slot_of_def arr_get_Some split: if_splits bind_splits)
  show "keeps (case slot of None \<Rightarrow> Some (FDIR_ACTION_NONE, s)
       | Some sl \<Rightarrow> (case sd_on_entity_exhausted (ss_desc sl) of None \<Rightarrow> Some (FDIR_ACTION_NONE, s)
            | Some f \<Rightarrow> (case f sub eid report (sd_user (ss_desc sl)) (env s) of
                (a, e) \<Rightarrow> Some (a, ext (Call_exhausted sub eid report (sd_user (ss_desc sl)) a) e s)))) (\<lambda>(_, t). hooked J t)"
    by (auto simp: assms split: option.split prod.split intro!: hooked_exhausted_call [OF assms sub])
qed

lemma hooked_resolve [hook_keeps]:
  assumes "hooked J s"
  shows "keeps (resolve_exhausted_action eid action report s) (\<lambda>(_, t). hooked J t)"
  unfolding resolve_exhausted_action_def Let_def
  by (auto simp: keeps_if assms intro!: keeps_bind_any [of "arr_get _ _"]
      keeps_bindI [OF hooked_exhausted [OF assms]] keeps_bindI [OF hooked_emit(2)])

lemma hooked_entity: "hooked J s \<Longrightarrow> arr_get (g_entities s) (unat eid) = Some slot \<Longrightarrow> entity_keeps J eid (es_desc slot)"
  by (auto simp: hooked_def hooks_keep_def arr_get_Some)

lemma hooked_decide_call:
  assumes "hooked J s" "entity_keeps J eid d" "ed_decide d = Some f" "f eid r n m (ed_user d) (env s) = (x, e)"
  shows "hooked J (ext (Call_decide eid r n m (ed_user d) x) e s)"
  by (rule hooked_call [where c = "Call_decide eid r n m (ed_user d)" and f = "f eid r n m (ed_user d)"])
    (use assms in \<open>simp_all add: entity_keeps_def\<close>)

lemma hooked_decide:
  assumes "hooked J s" "entity_keeps J eid (es_desc slot)"
  shows "hooked J (snd (call_decide eid slot report s))"
  by (auto simp: assms(1) call_decide_def Let_def split: option.split prod.split intro!: hooked_decide_call [OF assms])

interpretation hooked: port_invariant "hooked J" for J :: "'e hook_inv"
  by unfold_locales (simp_all add: hooked_port)

lemmas hooked_reset [hook_keeps] = hooked.reset_inv

lemma hooked_restart_call:
  assumes "hooked J s" "entity_keeps J eid d" "ed_restart d = Some f" "f eid (ed_user d) (env s) = (rc, e)"
  shows "hooked J (ext (Call_restart eid (ed_user d) rc) e s)"
  by (rule hooked_call [where c = "Call_restart eid (ed_user d)" and f = "f eid (ed_user d)"])
    (use assms in \<open>simp_all add: entity_keeps_def\<close>)

lemma hooked_bump:
  assumes "hooked J s" "arr_get (g_entities s) (unat eid) = Some slot"
    "arr_set (g_entities s) (unat eid) (bump_restart reason slot) = Some es"
  shows "hooked J (s\<lparr>g_entities := es\<rparr>)"
proof -
  have "map es_desc es = map es_desc (g_entities s)"
    using assms(2,3)
    by (auto simp: arr_get_Some arr_set_Some bump_restart_def map_update list_update_same_conv)
  then show ?thesis using assms(1) by (simp add: hooked_ents)
qed

text \<open>What a restart attempt does after a successful call of the hook.\<close>

lemma hooked_restarted:
  assumes "hooked J s"
  shows "keeps (do {
       (cleared, h) \<leftarrow> fdir_health_clear_latch_unsafe eid h0;
       s \<leftarrow> fdir_health_reset_unsafe eid (s\<lparr>hl := h\<rparr>);
       s \<leftarrow> (if cleared \<noteq> reason_0xFF
              then emit_event_full FDIR_EVENT_FAILURE (g_mode s) eid cleared 0 FDIR_LEVEL_ENTITY
                     FDIR_ANOMALY_CLEARED name s
              else Some s);
       s \<leftarrow> emit_event_full FDIR_EVENT_RESTART (g_mode s) eid reason 0 FDIR_LEVEL_ENTITY
              FDIR_ANOMALY_RAISED name s;
       Some (FDIR_OK, s)
     }) (\<lambda>(_, t). hooked J t)"
proof (rule keeps_bind_any, clarify)
  fix cleared h
  have emit: "hooked J t \<Longrightarrow> keeps (if cleared \<noteq> reason_0xFF
              then emit_event_full FDIR_EVENT_FAILURE (g_mode t) eid cleared 0 FDIR_LEVEL_ENTITY
                     FDIR_ANOMALY_CLEARED name t else Some t) (hooked J)" for t
    by (simp add: hooked_emit)
  show "keeps (Option.bind (fdir_health_reset_unsafe eid (s\<lparr>hl := h\<rparr>)) (\<lambda>s.
       Option.bind (if cleared \<noteq> reason_0xFF
              then emit_event_full FDIR_EVENT_FAILURE (g_mode s) eid cleared 0 FDIR_LEVEL_ENTITY
                     FDIR_ANOMALY_CLEARED name s else Some s) (\<lambda>s.
       Option.bind (emit_event_full FDIR_EVENT_RESTART (g_mode s) eid reason 0 FDIR_LEVEL_ENTITY
              FDIR_ANOMALY_RAISED name s) (\<lambda>s. Some (FDIR_OK, s))))) (\<lambda>(_, t). hooked J t)"
    using assms by (intro keeps_bindI [OF hooked_reset] keeps_bindI [OF emit] keeps_bindI [OF hooked_emit(1)]) simp_all
qed

lemma hooked_restart [hook_keeps]:
  assumes "hooked J s"
  shows "keeps (try_restart eid reason s) (\<lambda>(_, t). hooked J t)"
  unfolding try_restart_def Let_def
proof (rule keeps_bind_any)
  fix slot assume slot: "arr_get (g_entities s) (unat eid) = Some slot"
  note ent = hooked_entity [OF assms slot]
  note bump = hooked_bump [OF assms slot, of reason]
  show "keeps (case ed_restart (es_desc slot) of None \<Rightarrow> Some (FDIR_ERR_PORT, s)
       | Some f \<Rightarrow> Option.bind (arr_set (g_entities s) (unat eid) (bump_restart reason slot)) (\<lambda>ents.
           case f eid (ed_user (es_desc slot)) (env (s\<lparr>g_entities := ents\<rparr>)) of
             (rc, e) \<Rightarrow> if rc \<noteq> 0 then Some (FDIR_ERR_STATE, ext (Call_restart eid (ed_user (es_desc slot)) rc) e (s\<lparr>g_entities := ents\<rparr>))
               else Option.bind (fdir_health_clear_latch_unsafe eid (hl (ext (Call_restart eid (ed_user (es_desc slot)) rc) e (s\<lparr>g_entities := ents\<rparr>))))
                 (\<lambda>(cleared, h). Option.bind (fdir_health_reset_unsafe eid ((ext (Call_restart eid (ed_user (es_desc slot)) rc) e (s\<lparr>g_entities := ents\<rparr>))\<lparr>hl := h\<rparr>))
                   (\<lambda>s. Option.bind (if cleared \<noteq> reason_0xFF then emit_event_full FDIR_EVENT_FAILURE (g_mode s) eid cleared 0
                       FDIR_LEVEL_ENTITY FDIR_ANOMALY_CLEARED (ed_name (es_desc slot)) s else Some s)
                     (\<lambda>s. Option.bind (emit_event_full FDIR_EVENT_RESTART (g_mode s) eid reason 0 FDIR_LEVEL_ENTITY
                       FDIR_ANOMALY_RAISED (ed_name (es_desc slot)) s) (\<lambda>s. Some (FDIR_OK, s))))))) (\<lambda>(_, t). hooked J t)"
    using assms hooked_restart_call [OF bump ent]
    by (auto split: option.split prod.split intro!: keeps_bind_any [of "arr_set _ _ _"] hooked_restarted)
qed

lemma hooked_apply [hook_keeps]: "hooked J s \<Longrightarrow> keeps (apply_action eid action report s) (hooked J)"
proof (induction eid action report s rule: apply_action.induct)
  case (1 eid action report s)
  show ?case
  proof (cases "action = FDIR_ACTION_RESTART")
    case True
    then show ?thesis
      using "1.IH" keepsD [OF hooked_restart [OF "1.prems"]]
      by (subst apply_action.simps) (auto simp: Let_def keeps_if intro!: keeps_bind_any)
  next
    case False
    with "1.prems" show ?thesis
      by (subst apply_action.simps)
        (auto simp: Let_def keeps_if intro!: keeps_bind_any [of "arr_get _ _"] keeps_bindI [OF hooked_marks(1)]
          keeps_bindI [OF hooked_marks(2)] keeps_bindI [OF hooked_modes(2)] hooked_modes)
  qed
qed

lemma hooked_recover [hook_keeps]:
  assumes "hooked J s"
  shows "keeps (recover_entity r s) (hooked J)"
proof -
  have act: "keeps (Option.bind (resolve_exhausted_action eid a r t) (\<lambda>(a, s). Option.bind (apply_action eid a r s)
      evaluate_dual_path)) (hooked J)" if "hooked J t" for t a eid
    using that by (auto intro!: keeps_bindI [OF hooked_resolve] keeps_bindI [OF hooked_apply] hooked_modes)
  have "keeps (case call_decide eid slot r t of (a, s) \<Rightarrow>
      Option.bind (resolve_exhausted_action eid (if a = FDIR_ACTION_NONE then default_decide slot r else a) r s)
        (\<lambda>(a, s). Option.bind (apply_action eid a r s) evaluate_dual_path)) (hooked J)"
    if "hooked J t" "arr_get (g_entities t) (unat eid) = Some slot" for t eid slot
    using hooked_decide [OF that(1) hooked_entity [OF that], of r] act by (auto split: prod.split)
  with assms show ?thesis
    by (auto simp: recover_entity_def Let_def intro!: keeps_bind_any [of "fdir_health_latch_fault_unsafe _ _ _"]
        keeps_bind_any [of "fdir_health_set_unsafe _ _ _ _ _"] keeps_bind_any [of "arr_get _ _"])
qed

lemma hooked_handle [hook_keeps]:
  assumes "hooked J s"
  shows "keeps (fdir_handle_failure report s) (hooked J)"
proof (cases report)
  case None
  with assms show ?thesis by (simp add: fdir_handle_failure_def)
next
  case (Some r)
  with assms show ?thesis
    by (auto simp: fdir_handle_failure_def supervision_enabled_eq Let_def keeps_if
        intro!: keeps_bind_any [of "fdir_health_fault_is_latched_unsafe _ _ _"] keeps_bindI [OF hooked_emit(1), where J1 = J]
          keeps_bind_any [of "arr_get _ _"] keeps_bindI [OF hooked_modes(2), where J1 = J]
          keeps_bindI [OF hooked_recover, where J1 = J])
qed

interpretation hooks: supervised "hooked J" for J :: "'e hook_inv"
  by unfold_locales (rule hooked_handle)


subsection \<open>The calls of an application\<close>

lemma hooked_env: "hooked J s \<Longrightarrow> J e (calls s) \<Longrightarrow> hooked J (s\<lparr>env := e\<rparr>)"
  by (simp add: hooked_def hooks_keep_def)

lemma entity_keeps_name [simp]: "entity_keeps J eid (d\<lparr>ed_name := nm\<rparr>) = entity_keeps J eid d"
  by (simp add: entity_keeps_def)

lemma init_hooks:
  assumes "port_is_valid (Some p)" "port_keeps J p" "config_keeps J c"
  shows "hooks_keep J (snd (fdir_init (Some c) (Some p) s))"
  using assms
  by (auto simp: init_ok hooks_keep_def fdir_boot_def zero_entity_slot_def zero_entity_desc_def entity_keeps_def
      zero_subsystems_def zero_subsystem_slot_def zero_subsystem_desc_def sub_keeps_def)


subsection \<open>Calls that use the port only\<close>

text \<open>
  Heartbeats, the worker gate, fault reports and registration call no hook but those of the port, and
  of these only the lock and the clock. They keep what the port's hooks keep.
\<close>

definition ported :: "'e hook_inv \<Rightarrow> 'e fdir \<Rightarrow> bool" where
  "ported J s \<longleftrightarrow>
     (\<forall>f. get_now_ms (g_port s) = Some f \<longrightarrow> kept_by J (snd \<circ> f) (\<lambda>e. Call_now (fst (f e)))) \<and>
     (\<forall>f. lock (g_port s) = Some f \<longrightarrow> kept_by J f (\<lambda>_. Call_lock)) \<and>
     (\<forall>f. unlock (g_port s) = Some f \<longrightarrow> kept_by J f (\<lambda>_. Call_unlock)) \<and> J (env s) (calls s)"

lemma ported_simps [simp]:
  "ported J (s\<lparr>hl := h\<rparr>) = ported J s" "ported J (s\<lparr>fq := q\<rparr>) = ported J s" "ported J (s\<lparr>g_mode := m\<rparr>) = ported J s"
  "ported J (s\<lparr>g_entity_count := n\<rparr>) = ported J s" "ported J (s\<lparr>g_entities := es\<rparr>) = ported J s"
  by (simp_all add: ported_def)

lemma ported_sync [simp]: "ported J s \<Longrightarrow> ported J (fdir_port_sync_enter s)" "ported J s \<Longrightarrow> ported J (fdir_port_sync_exit s)"
  by (auto simp: fdir_port_sync_enter_def fdir_port_sync_exit_def ported_def kept_by_def split: option.splits)

lemma ported_now: "ported J s \<Longrightarrow> keeps (fdir_get_now_ms s) (\<lambda>(_, t). ported J t)"
  by (fastforce simp: fdir_get_now_ms_def keeps_def ported_def kept_by_def split: option.splits prod.splits)

interpretation ported: port_invariant "ported J" for J :: "'e hook_inv"
  by unfold_locales (simp_all add: ported_now)

lemma ported_register:
  assumes "fdir_inv s" "ported J s"
  shows "keeps (fdir_entity_register desc out_id s) (\<lambda>(_, t). ported J t)"
  using assms(1)
proof (cases rule: entity_register_cases [of s desc out_id])
  case (ok d nm)
  let ?s = "entity_added (new_entity_slot d nm (g_entities s ! unat (g_entity_count s))) (fdir_port_sync_enter s)"
  have "ported J ?s" using assms(2) by (simp add: entity_added_def)
  then show ?thesis unfolding ok(7) by (intro keeps_bindI [OF ported.reset_inv [of J]]) simp_all
qed (use assms(2) in simp_all)


subsection \<open>The hooks that the library holds\<close>

text \<open>Only registration changes the hooks; everything that the supervisor does leaves them as they are.\<close>

definition hooks_of where
  "hooks_of s = (g_port s, g_config s, map es_desc (g_entities s), map ss_desc (g_subs (sb s)), g_entity_count s)"

lemma hooks_keep_of: "hooks_of t = hooks_of s \<Longrightarrow> hooks_keep J t = hooks_keep J s"
  using map_eq_imp_length_eq [of es_desc "g_entities t" es_desc "g_entities s"]
  by (simp add: hooks_keep_def hooks_of_def)

interpretation hooks_of: supervised "\<lambda>s. hooks_of s = H" for H
proof unfold_locales
  fix s :: "'a fdir" and report
  assume s: "live s" "hooks_of s = H"
  show "keeps (fdir_handle_failure report s) (\<lambda>s. hooks_of s = H)"
  proof (cases report)
    case None
    with s show ?thesis by (simp add: fdir_handle_failure_def)
  next
    case (Some r)
    from s(1) show ?thesis
    proof (cases rule: handle_failure_cases [of s r])
      case (handled t u tm ev)
      with s Some show ?thesis
        by (simp add: rec_step_def sys_step_def outside_iff handling_def hooks_of_def same_subs_def)
    qed (use s Some in \<open>simp_all add: handling_def hooks_of_def\<close>)
  qed
qed (auto simp: hooks_of_def intro: keeps_mono [OF get_now_keeps])

interpretation hooks_keep: port_invariant "hooks_keep J" for J :: "'e hook_inv"
proof unfold_locales
  show "keeps (fdir_get_now_ms s) (\<lambda>(_, t). hooks_keep J t)" if "hooks_keep J s" for s :: "'e fdir"
    using that by (auto simp: hooks_keep_def intro: keeps_mono [OF get_now_keeps])
qed (simp_all add: hooks_keep_def)

lemma register_hooks:
  assumes "fdir_inv s" "hooks_keep J s" "\<And>d. desc = Some d \<Longrightarrow> entity_keeps J (g_entity_count s) d"
  shows "keeps (fdir_entity_register desc out_id s) (\<lambda>(_, t). hooks_keep J t)"
  using assms(1)
proof (cases rule: entity_register_cases [of s desc out_id])
  case (ok d nm)
  let ?s = "entity_added (new_entity_slot d nm (g_entities s ! unat (g_entity_count s))) (fdir_port_sync_enter s)"
  have "hooks_keep J ?s"
    using hooks_keep.enter [OF assms(2)] assms(3) [OF ok(1)]
    by (auto simp: hooks_keep_def entity_added_def new_entity_slot_def nth_list_update_if map_update
        simp flip: word_unat_eq_iff)
  then show ?thesis
    unfolding ok(7) by (intro keeps_bindI [OF hooks_keep.reset_inv [of J]]) (simp_all add: hooks_keep.exit)
qed (use assms(2) in \<open>simp_all add: hooks_keep.enter hooks_keep.exit\<close>)

end
