(* ===== verification/Escalation.thy ===== *)
theory Escalation
  imports Supervised
begin

text \<open>
  A program that registers no subsystem, no decision hooks and no exhaustion policy beyond \<open>UNAVAILABLE\<close>
  stays below SAFE mode, whatever faults its entities have: SAFE is entered through the count of
  unavailable critical subsystems, and that count stays 0.
\<close>

definition mild_desc :: "'e fdir_entity_desc \<Rightarrow> bool" where
  "mild_desc d \<longleftrightarrow> ed_decide d = None \<and> ed_linked_subsystem d = FDIR_SUBSYSTEM_NONE \<and>
     ed_on_exhausted d \<in> {FDIR_ACTION_NONE, FDIR_ACTION_DEGRADE, FDIR_ACTION_UNAVAILABLE}"

definition mild :: "'e fdir \<Rightarrow> bool" where
  "mild s \<longleftrightarrow> g_sub_count (sb s) = 0 \<and> 0 < threshold s \<and> g_mode s \<le> FDIR_MODE_DEGRADED \<and>
     (\<forall>i. registered i s \<longrightarrow> mild_desc (es_desc (g_entities s ! unat i)))"

lemma mild_simps [simp]:
  "mild (fdir_port_sync_enter s) = mild s" "mild (fdir_port_sync_exit s) = mild s" "mild (ext c e s) = mild s"
  "mild (s\<lparr>fq := q\<rparr>) = mild s" "mild (s\<lparr>hl := h\<rparr>) = mild s" "mild (s\<lparr>env := e\<rparr>) = mild s"
  by (simp_all add: mild_def registered_def threshold_def)

lemma mild_outside: "outside s s' \<Longrightarrow> mild s' = mild s"
  by (simp add: mild_def registered_def threshold_def outside_iff)

text \<open>Code under the lock keeps everything but the mode.\<close>

lemma rec_step_mild:
  assumes "rec_step s t" "mild s" "fdir_inv s" "g_mode t \<le> FDIR_MODE_DEGRADED"
  shows "mild t"
proof -
  have d: "map es_desc (g_entities t) = map es_desc (g_entities s)" "g_entity_count t = g_entity_count s"
    "g_config t = g_config s" "g_sub_count (sb t) = g_sub_count (sb s)"
    using assms(1) by (simp_all add: rec_step_def sys_step_def same_subs_def)
  have "es_desc (g_entities t ! unat i) = es_desc (g_entities s ! unat i)" if "registered i s" for i
    using registered_index [OF assms(3) that] d(1) by (metis length_map nth_map)
  with assms(2,4) d show ?thesis by (simp add: mild_def registered_def threshold_def)
qed

lemma dual_path_mild: "mild s \<Longrightarrow> dual_path_mode s = g_mode s"
  by (simp add: dual_path_mode_def critical_down_def mild_def)

lemma mild_enter:
  assumes "live s" "mild s"
  shows "keeps (enter_degraded_mode_unsafe s) (\<lambda>t. live t \<and> mild t)" "keeps (evaluate_dual_path s) (\<lambda>t. live t \<and> mild t)"
proof -
  have mode: "g_mode s \<le> FDIR_MODE_DEGRADED" using assms(2) by (simp add: mild_def)
  have "keeps (enter_degraded_mode_unsafe s) (\<lambda>t. g_mode t \<le> FDIR_MODE_DEGRADED)"
    by (rule keeps_mono [OF returns_keeps [OF enter_modes_spec(1) [OF assms(1)]]]) (use mode in \<open>auto dest!: to_modeD(1)\<close>)
  from keeps_conj [OF enter_degraded_keeps this] show "keeps (enter_degraded_mode_unsafe s) (\<lambda>t. live t \<and> mild t)"
    by (rule keeps_mono) (auto intro: rec_step_mild [OF _ assms(2) liveD(1) [OF assms(1)]] rec_step_live [OF _ assms(1)])
  have "keeps (evaluate_dual_path s) (\<lambda>t. outside (s\<lparr>g_mode := g_mode s\<rparr>) t)"
    by (rule keeps_mono [OF returns_keeps [OF dual_path_spec [OF assms(1)]]])
      (simp add: dual_path_mild [OF assms(2)] to_mode_def)
  then show "keeps (evaluate_dual_path s) (\<lambda>t. live t \<and> mild t)"
    by (rule keeps_mono) (use assms in \<open>auto simp: mild_outside intro: outside_live\<close>)
qed

text \<open>With no subsystem linked, the actions are these.\<close>

lemma mild_action_other:
  assumes "live s" "mild s" "registered eid s" "action \<in> {FDIR_ACTION_NONE, FDIR_ACTION_DEGRADE, FDIR_ACTION_UNAVAILABLE}"
  shows "keeps (apply_action eid action report s) (\<lambda>t. live t \<and> mild t)"
proof -
  have "ed_linked_subsystem (es_desc (g_entities s ! unat eid)) = FDIR_SUBSYSTEM_NONE"
    using assms(2,3) by (simp add: mild_def mild_desc_def)
  with registered_index [OF liveD(1) [OF assms(1)] assms(3)] assms mild_enter [OF assms(1,2)] mild_enter(2) show ?thesis
    by (subst apply_action.simps)
      (auto simp: Let_def mark_linked_degraded_def mark_linked_unavailable_def intro: keeps_bindI)
qed

lemma mild_restart:
  assumes "live s" "mild s" "registered eid s"
  shows "keeps (try_restart eid reason s) (\<lambda>(status, t). live t \<and> mild t \<and> registered eid t)"
proof (unfold keeps_def, intro allI impI, clarify)
  fix status t assume t: "try_restart eid reason s = Some (status, t)"
  have rec: "rec_step s t" using keepsD [OF try_restart_keeps t] by simp
  have "g_mode t = g_mode s" using assms(1,3)
    by (cases rule: try_restart_cases [of s eid reason]) (use t in simp_all)
  with rec_step_mild [OF rec assms(2) liveD(1) [OF assms(1)]] assms rec_step_live [OF rec] rec_step_registered [OF rec]
  show "live t \<and> mild t \<and> registered eid t" by (simp add: mild_def)
qed

lemma mild_action:
  assumes "live s" "mild s" "registered eid s"
    "action \<in> {FDIR_ACTION_NONE, FDIR_ACTION_DEGRADE, FDIR_ACTION_UNAVAILABLE, FDIR_ACTION_RESTART}"
  shows "keeps (apply_action eid action report s) (\<lambda>t. live t \<and> mild t)"
proof (cases "action = FDIR_ACTION_RESTART")
  case True
  have other: "keeps (apply_action eid FDIR_ACTION_NONE report t) (\<lambda>u. live u \<and> mild u)"
    "keeps (apply_action eid (ed_on_exhausted (es_desc (g_entities t ! unat eid))) report t) (\<lambda>u. live u \<and> mild u)"
    if "live t" "mild t" "registered eid t" for t
    using that mild_action_other [OF that] by (auto simp: mild_def mild_desc_def)
  show ?thesis
    unfolding True
    by (subst apply_action.simps)
      (auto simp: Let_def keeps_bind keeps_arr_get intro!: keeps_mono [OF mild_restart [OF assms(1-3)]] intro: other)
qed (use mild_action_other assms in auto)

lemma mild_recover:
  assumes "live s" "mild s" "registered (rep_entity r) s"
  shows "keeps (recover_entity r s) mild"
proof -
  let ?e = "rep_entity r"
  note ix = registered_index [OF liveD(1) [OF assms(1)] assms(3)]
  let ?slot = "g_entities s ! unat ?e"
  have d: "ed_decide (es_desc ?slot) = None" "ed_linked_subsystem (es_desc ?slot) = FDIR_SUBSYSTEM_NONE"
    "default_decide ?slot r \<in> {FDIR_ACTION_NONE, FDIR_ACTION_DEGRADE, FDIR_ACTION_UNAVAILABLE, FDIR_ACTION_RESTART}"
    using assms(2,3) by (auto simp: mild_def mild_desc_def default_decide_def)
  obtain rc h h' where h: "fdir_health_latch_fault_unsafe ?e (rep_reason r) (hl s) = Some (rc, h)"
    "fdir_health_set_unsafe ?e FDIR_HEALTH_FAILED (rep_error_code r) (Some (cstr (rep_detail r))) h = Some h'"
    and s1: "rec_step s (s\<lparr>hl := h'\<rparr>)" "stands_failed ?e (rep_reason r) (s\<lparr>hl := h'\<rparr>)" "others_same ?e (hl s) h'"
    by (rule latch_then_set [OF assms(1,3)])
  let ?t = "s\<lparr>hl := h'\<rparr>"
  have t: "live ?t" "mild ?t" "registered ?e ?t" using rec_step_live [OF s1(1) assms(1)] assms by (simp_all add: registered_def)
  have "recover_entity r s = Option.bind (apply_action ?e (default_decide ?slot r) r ?t) evaluate_dual_path"
    using h ix d by (simp add: recover_entity_def call_decide_def resolve_exhausted_action_def Let_def)
  moreover have "keeps (Option.bind (apply_action ?e (default_decide ?slot r) r ?t) evaluate_dual_path) mild"
    by (rule keeps_bindI [OF mild_action [OF t d(3)]]) (auto intro!: keeps_mono [OF mild_enter(2)])
  ultimately show ?thesis by simp
qed

interpretation mild: supervised mild
proof unfold_locales
  fix s :: "'e fdir" and report
  assume s: "live s" "mild s"
  show "keeps (fdir_handle_failure report s) mild"
  proof (cases report)
    case None
    with s show ?thesis by (simp add: fdir_handle_failure_def)
  next
    case (Some r)
    from s(1) show ?thesis
    proof (cases rule: handle_failure_cases [of s r])
      case (handled t u tm ev)
      have t: "mild t" "registered (rep_entity r) t = registered (rep_entity r) s"
        using s(2) mild_outside [OF handled(3)] handled(3) by (simp_all add: registered_def handling_def outside_iff)
      have "mild u"
        using handled(7) t keepsD [OF mild_recover [OF handled(4) t(1)]] keepsD [OF mild_enter(1) [OF handled(4) t(1)]]
        by (auto split: if_splits)
      with handled(9) Some show ?thesis by simp
    qed (use s(2) Some in \<open>simp_all add: handling_def\<close>)
  qed
qed (auto intro: keeps_mono [OF get_now_keeps])

end
