(* ===== verification/Fcopy_Steps.thy ===== *)
theory Fcopy_Steps
  imports Fcopy_Program Hooks Escalation Entity_Frame
begin

text \<open>
  The file copy program keeps the promises of its parts: its runs are runs of the threads around the
  job queue, the library stays live under it, and what the library guarantees of restarts and modes
  holds for the workers. The callbacks change the program's memory in the middle of a tick; the
  invariant \<open>app_inv\<close> is one that they keep, so that it holds after the tick.
\<close>

subsection \<open>What the callbacks keep\<close>

definition alive :: "worker list \<Rightarrow> nat" where
  "alive ws = length (filter (\<lambda>w. w \<noteq> Exited) ws)"

definition all_restarts :: "nat \<Rightarrow> ext_call list \<Rightarrow> nat" where
  "all_restarts n cs = (\<Sum>i<n. restarts (word_of_nat i) cs)"

text \<open>The workers that the main thread has finished waiting for.\<close>

fun passed :: "nat \<Rightarrow> main_pc \<Rightarrow> nat" where
  "passed n (Joining k) = k"
| "passed n (In_join k) = k"
| "passed n Stopping = n"
| "passed n (Returned _) = n"
| "passed n _ = 0"

fun main_in :: "nat \<Rightarrow> main_pc \<Rightarrow> bool" where
  "main_in n (Joining k) = (k \<le> n)"
| "main_in n (In_join k) = (k < n)"
| "main_in n (Returned rc) = (rc = 0)"
| "main_in n _ = True"

lemma passed_le: "main_in n m \<Longrightarrow> passed n m \<le> n"
  by (cases m) auto

definition passed_ok :: "nat \<Rightarrow> fcopy \<Rightarrow> bool" where
  "passed_ok k c \<longleftrightarrow> (0 < k \<and> fc_failures c = [] \<longrightarrow>
     waiting_jobs (fc_queue c) = [] \<and> fc_todo c = [] \<and> (\<forall>j<k. carried_by (fc_workers c ! j) = {#}))"

definition ctx_ok :: "nat \<Rightarrow> 'w fcopy_env \<Rightarrow> bool" where
  "ctx_ok n e \<longleftrightarrow> length (g_workers e) = 16 \<and> (\<forall>i<n. wc_entity (g_workers e ! i) = word_of_nat i \<and>
     (fc_workers (threads e) ! i \<noteq> Exited \<longrightarrow> wc_active (g_workers e ! i) \<noteq> 0 \<and> wc_thread (g_workers e ! i) = Joinable))"

definition app_inv :: "nat \<Rightarrow> copy_job list \<Rightarrow> 'w fcopy_env \<Rightarrow> ext_call list \<Rightarrow> bool" where
  "app_inv n js e cs \<longleftrightarrow> main_pc e \<noteq> Setup \<and> n \<le> 16 \<and> nat (g_nworkers (vars e)) = n \<and> fcopy_run n js (threads e) \<and> ctx_ok n e \<and>
     fc_todo (threads e) = jobs_of (vars e) (entries e) \<and> \<not> fc_aborted (threads e) \<and>
     main_in n (main_pc e) \<and> passed_ok (passed n (main_pc e)) (threads e) \<and>
     length (fc_failures (threads e)) + alive (fc_workers (threads e)) \<le> n + all_restarts n cs"

lemma all_restarts_append [simp]: "all_restarts n (xs @ ys) = all_restarts n xs + all_restarts n ys"
  by (simp add: all_restarts_def sum.distrib)

lemma walk_cb_complain [simp]: "walk_cb (complain line v) = walk_cb v"
  by (simp add: fun_eq_iff walk_cb_def complain_def)

lemma jobs_of_complain [simp]: "jobs_of (complain line v) = jobs_of v"
  by (simp add: fun_eq_iff jobs_of_def)

lemma warn_simps [simp]:
  "threads (warn line e) = threads e" "g_workers (warn line e) = g_workers e" "entries (warn line e) = entries e"
  "main_pc (warn line e) = main_pc e" "sup_pc (warn line e) = sup_pc e" "world (warn line e) = world e"
  "halt (warn line e) = halt e" "g_running (warn line e) = g_running e" "vars (warn line e) = complain line (vars e)"
  by (simp_all add: warn_def)

lemma complain_simps [simp]: "g_nworkers (complain line v) = g_nworkers v" "g_src_root (complain line v) = g_src_root v"
  by (simp_all add: complain_def)

lemma app_inv_simps [simp]:
  "app_inv n js (e\<lparr>world := w\<rparr>) cs = app_inv n js e cs" "app_inv n js (warn line e) cs = app_inv n js e cs"
  "app_inv n js (e\<lparr>halt := x\<rparr>) cs = app_inv n js e cs" "app_inv n js (e\<lparr>sup_pc := p\<rparr>) cs = app_inv n js e cs"
  "app_inv n js (e\<lparr>g_running := r\<rparr>) cs = app_inv n js e cs"
  by (simp_all add: app_inv_def ctx_ok_def)

lemma app_inv_call: "app_inv n js e cs \<Longrightarrow> app_inv n js e (cs @ ds)"
  by (auto simp: app_inv_def)

lemma port_keeps_app: "port_keeps (app_inv n js) (fdir_app_port h)"
  by (auto simp: port_keeps_def kept_by_def fdir_app_port_def port_now_def port_emit_def port_reboot_def
      port_lock_def port_unlock_def Let_def app_inv_call split: prod.splits)

lemma run_facts:
  assumes "fcopy_run n js c"
  shows "fcopy_inv js c" "copies_inv c" "length (fc_workers c) = n" "jq_inv (fc_queue c)"
  using fcopy.reach_inv [OF assms] fcopy_invD(1) by auto

lemmas run_length = run_facts(3)

lemma on_simps [simp]:
  "threads (on_ctx i f e) = threads e" "g_workers (on_ctx i f e) = (g_workers e)[i := f (g_workers e ! i)]"
  "entries (on_ctx i f e) = entries e" "main_pc (on_ctx i f e) = main_pc e" "vars (on_ctx i f e) = vars e"
  "halt (on_ctx i f e) = halt e" "world (on_ctx i f e) = world e" "sup_pc (on_ctx i f e) = sup_pc e"
  "g_running (on_ctx i f e) = g_running e"
  "threads (on_threads g e) = g (threads e)" "g_workers (on_threads g e) = g_workers e"
  "entries (on_threads g e) = entries e" "main_pc (on_threads g e) = main_pc e" "vars (on_threads g e) = vars e"
  "halt (on_threads g e) = halt e" "world (on_threads g e) = world e" "sup_pc (on_threads g e) = sup_pc e"
  "g_running (on_threads g e) = g_running e"
  by (simp_all add: on_ctx_def on_threads_def)

lemma app_inv_ctx:
  assumes "app_inv n js e cs" "wc_entity (f (g_workers e ! i)) = wc_entity (g_workers e ! i)"
    "fc_workers (threads e) ! i = Exited \<or>
       wc_active (f (g_workers e ! i)) \<noteq> 0 \<and> wc_thread (f (g_workers e ! i)) = Joinable"
  shows "app_inv n js (on_ctx i f e) cs"
  using assms by (auto simp: app_inv_def ctx_ok_def nth_list_update_if)

lemma alive_update:
  assumes "i < length ws" "ws ! i = Exited" "w \<noteq> Exited"
  shows "alive (ws[i := w]) = Suc (alive ws)"
proof -
  have "ws = take i ws @ Exited # drop (Suc i) ws" using assms(1,2) by (metis id_take_nth_drop)
  then have "alive ws = alive (take i ws) + alive (drop (Suc i) ws)" unfolding alive_def by (metis (mono_tags) append_Nil filter.simps filter_append length_append)
  with assms(1,3) show ?thesis by (simp add: alive_def upd_conv_take_nth_drop)
qed

lemma all_restarts_one:
  assumes "i < n" "n \<le> 16"
  shows "all_restarts n [Call_restart (word_of_nat i) u rc] = 1"
proof -
  have "(word_of_nat i :: u8) = word_of_nat j \<longleftrightarrow> j = i" if "j < n" for j
    using that assms by (auto simp: word_unat_eq_iff take_bit_nat_eq_self unsigned_of_nat)
  then have "all_restarts n [Call_restart (word_of_nat i) u rc] = (\<Sum>j<n. if j = i then 1 else 0)"
    unfolding all_restarts_def by (intro sum.cong) (simp_all add: restarts_def)
  with assms(1) show ?thesis by simp
qed

lemma app_inv_revive:
  assumes "app_inv n js e cs" "i < n" "fc_workers (threads e) ! i = Exited"
    "wc_active (g_workers e ! i) \<noteq> 0" "wc_thread (g_workers e ! i) = Joinable"
  shows "app_inv n js (on_threads (station i At_gate) e) (cs @ [Call_restart (word_of_nat i) u rc])"
proof -
  have run: "fcopy_run n js (threads e)" and n: "n \<le> 16" using assms(1) by (auto simp: app_inv_def)
  note len = run_length [OF run]
  have "fcopy_run n js (station i At_gate (threads e))"
    unfolding station_def using assms(2,3) len by (intro fcopy_run.outer [OF run] outside_step.restart) simp_all
  moreover have "alive (fc_workers (station i At_gate (threads e))) = Suc (alive (fc_workers (threads e)))"
    using alive_update [of i "fc_workers (threads e)" At_gate] assms(2,3) len by (simp add: station_def)
  moreover have "passed_ok k (station i At_gate (threads e))" if "passed_ok k (threads e)" for k
    using that by (auto simp: passed_ok_def station_def nth_list_update_if)
  ultimately show ?thesis
    using assms all_restarts_one [OF assms(2) n, of u rc] len
    by (auto simp: app_inv_def ctx_ok_def station_def nth_list_update_if)
qed

lemma app_inv_start:
  assumes "app_inv n js e cs" "i < n" "fc_workers (threads e) ! i = Exited" "length (g_workers e) = 16" "n \<le> 16"
    "worker_start h i e = (rc, e')"
  shows "app_inv n js e' (cs @ [Call_restart (word_of_nat i) u rc])"
proof -
  obtain r w where c: "pthread_create h (world e) = (r, w)" by fastforce
  let ?e = "(on_ctx i (\<lambda>c. c\<lparr>wc_active := 1\<rparr>) e)\<lparr>world := w\<rparr>"
  have a: "app_inv n js ?e cs" using assms(1,3) app_inv_ctx [of n js e cs "\<lambda>c. c\<lparr>wc_active := 1\<rparr>" i] by simp
  then have b: "app_inv n js (on_ctx i (\<lambda>c. c\<lparr>wc_thread := Joinable\<rparr>) ?e) cs"
    using assms(3) by (intro app_inv_ctx) simp_all
  show ?thesis
  proof (cases "r = 0")
    case True
    then have e': "e' = on_threads (station i At_gate) (on_ctx i (\<lambda>c. c\<lparr>wc_thread := Joinable\<rparr>) ?e)"
      using assms(6) c by (simp add: worker_start_def Let_def)
    show ?thesis unfolding e' by (rule app_inv_revive [OF b assms(2)]) (use assms(2-5) in simp_all)
  next
    case False
    then have "e' = ?e" using assms(6) c by (simp add: worker_start_def Let_def)
    with a show ?thesis by (simp add: app_inv_call)
  qed
qed

lemma worker_desc_keeps:
  assumes "i < n" "n \<le> 16"
  shows "entity_keeps (app_inv n js) (word_of_nat i) (worker_desc h i)"
proof -
  have "app_inv n js e' (cs @ [Call_restart (word_of_nat i) i rc])"
    if J: "app_inv n js e cs" and cb: "worker_restart_cb h (word_of_nat i) i e = (rc, e')" for e cs rc e'
  proof -
    let ?e = "on_ctx i (\<lambda>c. c\<lparr>wc_thread := Joined\<rparr>) (warn (''[fcopy] restarting worker '' @ dec_int (wc_index (g_workers e ! i))) e)"
    have len: "length (g_workers e) = 16" using J by (simp add: app_inv_def ctx_ok_def)
    consider "app_inv n js e' cs" | "fc_workers (threads e) ! i = Exited" "worker_start h i ?e = (rc, e')"
      using cb J by (auto simp: worker_restart_cb_def join_worker_def Let_def split: if_splits)
    then show ?thesis
    proof cases
      case 2
      have "app_inv n js ?e cs" using J 2(1) by (intro app_inv_ctx) simp_all
      then show ?thesis by (rule app_inv_start [OF _ assms(1) _ _ assms(2) 2(2)]) (use 2(1) len in simp_all)
    qed (rule app_inv_call)
  qed
  then show ?thesis
    by (auto simp: entity_keeps_def kept_by_def worker_desc_def zero_entity_desc_def split_beta)
qed


subsection \<open>The library under the program\<close>

text \<open>
  What holds of the library at every step of the program: besides its own invariant, it stays below SAFE
  mode and within the restart budgets, and its counters are the numbers of calls of the restart hooks.
\<close>

definition budgeted :: "'e fdir \<Rightarrow> bool" where
  "budgeted s \<longleftrightarrow> (\<forall>i. registered i s \<longrightarrow>
     ed_max_restarts (es_desc (g_entities s ! unat i)) = 2 \<and> ed_max_watchdog_restarts (es_desc (g_entities s ! unat i)) = 1 \<and>
     restarts i (calls s) = unat (es_restart_count (g_entities s ! unat i)) + unat (es_watchdog_restart_count (g_entities s ! unat i)))"

definition fcopy_hooks :: "'w host \<Rightarrow> nat \<Rightarrow> 'w fcopy_env fdir \<Rightarrow> bool" where
  "fcopy_hooks h n s \<longleftrightarrow> g_port s = fdir_app_port h \<and> unat (g_entity_count s) = n \<and>
     (\<forall>J. port_keeps J (fdir_app_port h) \<and> (\<forall>i<n. entity_keeps J (word_of_nat i) (worker_desc h i)) \<longrightarrow> hooks_keep J s)"

lemma fcopy_hooks_of:
  assumes "hooks_of t = hooks_of s"
  shows "fcopy_hooks h n t = fcopy_hooks h n s"
proof -
  have "g_port t = g_port s" "g_entity_count t = g_entity_count s" using assms by (simp_all add: hooks_of_def)
  then show ?thesis by (simp add: fcopy_hooks_def hooks_keep_of [OF assms])
qed

definition lib_ok :: "'w host \<Rightarrow> nat \<Rightarrow> 'w fcopy_env fdir \<Rightarrow> bool" where
  "lib_ok h n s \<longleftrightarrow> live s \<and> mild s \<and> all_slots within_budget s \<and> budgeted s \<and>
     fcopy_hooks h n s"

lemma budgeted_counts:
  assumes "all_slots within_budget s" "mild s" "budgeted s" "registered i s"
  shows "es_restart_count (g_entities s ! unat i) \<le> 2" "es_watchdog_restart_count (g_entities s ! unat i) \<le> 1"
  using assms by (auto simp: all_slots_def within_budget_def mild_def mild_desc_def budgeted_def Let_def)

lemma lib_ok_call:
  assumes "lib_ok h n s" "api_step True s t" "mild t" "all_slots within_budget t" "hooks_of t = hooks_of s"
  shows "lib_ok h n t"
proof -
  have s: "live s" "mild s" "all_slots within_budget s" "budgeted s" using assms(1) by (simp_all add: lib_ok_def)
  have reg: "registered i t = registered i s" for i using assms(5) by (simp add: registered_def hooks_of_def)
  obtain cs where cs: "calls t = calls s @ cs"
    "\<And>i. registered i s \<Longrightarrow> es_desc (g_entities t ! unat i) = es_desc (g_entities s ! unat i) \<and>
       slot_counted (g_entities s ! unat i) (g_entities t ! unat i) (restarts i cs)"
    using assms(2) by (auto simp: api_step_def lib_step_def)
  have "restarts i (calls t) = unat (es_restart_count (g_entities t ! unat i)) + unat (es_watchdog_restart_count (g_entities t ! unat i))"
    if i: "registered i s" for i
  proof -
    have max: "ed_max_restarts (es_desc (g_entities t ! unat i)) = 2" "ed_max_watchdog_restarts (es_desc (g_entities t ! unat i)) = 1"
      using cs(2) [OF i] s(4) i by (simp_all add: budgeted_def)
    have "es_restart_count (g_entities t ! unat i) \<le> 2" "es_watchdog_restart_count (g_entities t ! unat i) \<le> 1"
      using assms(3,4) max i by (auto simp: reg all_slots_def within_budget_def mild_def mild_desc_def Let_def)
    then have "es_restart_count (g_entities t ! unat i) < 255" "es_watchdog_restart_count (g_entities t ! unat i) < 255"
      by (simp_all add: word_le_nat_alt word_less_nat_alt)
    with cs i s(4) show ?thesis by (auto simp: slot_counted_def budgeted_def)
  qed
  with cs(2) s(4) have "budgeted t" by (simp add: budgeted_def reg)
  moreover have "live t" by (rule api_step_live [OF assms(2) s(1)])
  ultimately show ?thesis using assms fcopy_hooks_of [OF assms(5)] by (simp add: lib_ok_def)
qed

lemma lib_ok_env [simp]: "lib_ok h n (s\<lparr>env := e\<rparr>) = lib_ok h n s"
  using fcopy_hooks_of [of "s\<lparr>env := e\<rparr>" s h n] by (simp add: lib_ok_def live_env budgeted_def registered_def hooks_of_def)

lemma lib_ok_restarts:
  assumes "lib_ok h n s" "n \<le> 16"
  shows "all_restarts n (calls s) \<le> 3 * n"
proof -
  have "restarts (word_of_nat i) (calls s) \<le> 3" if "i < n" for i
  proof -
    have i: "registered (word_of_nat i) s"
      using that assms by (simp add: lib_ok_def fcopy_hooks_def registered_def word_less_nat_alt unsigned_of_nat take_bit_nat_eq_self)
    with assms(1) budgeted_counts [OF _ _ _ i] show ?thesis
      by (fastforce simp: lib_ok_def budgeted_def word_le_nat_alt)
  qed
  then have "all_restarts n (calls s) \<le> (\<Sum>i<n. 3)" unfolding all_restarts_def by (intro sum_mono) simp
  then show ?thesis by simp
qed

definition same_app :: "'w fcopy_env \<Rightarrow> 'w fcopy_env \<Rightarrow> bool" where
  "same_app e e' \<longleftrightarrow> (\<exists>w. e' = e\<lparr>world := w\<rparr>)"

lemma ported_same: "g_port s = fdir_app_port h \<Longrightarrow> ported (\<lambda>e' _. same_app (env s) e') s"
  by (fastforce simp: ported_def kept_by_def fdir_app_port_def port_now_def port_lock_def port_unlock_def same_app_def
      Let_def intro: exI [of _ "world (env s)"] split: prod.splits)

text \<open>A state of the program with the library in order, and a call that leaves the program's memory alone.\<close>

definition prog_ok :: "'w host \<Rightarrow> nat \<Rightarrow> copy_job list \<Rightarrow> 'w fcopy_env fdir \<Rightarrow> bool" where
  "prog_ok h n js s \<longleftrightarrow> lib_ok h n s \<and> app_inv n js (env s) (calls s)"

lemma prog_ok_hooked: "prog_ok h n js s \<Longrightarrow> hooked (app_inv n js) s"
  using worker_desc_keeps [of _ n js h] port_keeps_app [of n js h]
  by (auto simp: prog_ok_def lib_ok_def fcopy_hooks_def hooked_def) (auto simp: app_inv_def)

definition called :: "'w host \<Rightarrow> nat \<Rightarrow> copy_job list \<Rightarrow> 'w fcopy_env fdir \<Rightarrow> 'w fcopy_env fdir \<Rightarrow> bool" where
  "called h n js s t \<longleftrightarrow> prog_ok h n js t \<and> same_app (env s) (env t) \<and> api_step True s t"

lemma keeps_unit: "keeps (map_option (Pair ()) m) (\<lambda>(_, t). P t) = keeps m P"
  "returns (map_option (Pair ()) m) (\<lambda>(_, t). P t) = returns m P"
  by (cases m; simp)+

lemma lib_call:
  assumes "lib_ok h n s" "returns m (\<lambda>(_ :: 'x, t). api_step True s t)"
    "\<And>I. port_invariant I \<Longrightarrow> I s \<Longrightarrow> keeps m (\<lambda>(_, t). I t)"
  shows "returns m (\<lambda>(_, t). lib_ok h n t \<and> api_step True s t \<and> (\<forall>J. ported J s \<longrightarrow> ported J t))"
proof -
  obtain x t where m: "m = Some (x, t)" and api: "api_step True s t" using assms(2) by (auto simp: returns_def)
  have s: "mild s" "all_slots within_budget s" using assms(1) by (simp_all add: lib_ok_def)
  have keep: "I t" if "port_invariant I" "I s" for I using assms(3) [OF that] m by simp
  have "lib_ok h n t"
    using lib_ok_call [OF assms(1) api] keep [OF mild.port_invariant_axioms s(1)] keep [OF budget.port_invariant_axioms s(2)]
      keep [OF hooks_of.port_invariant_axioms refl] by simp
  moreover have "\<forall>J. ported J s \<longrightarrow> ported J t" using keep [OF ported.port_invariant_axioms] by blast
  ultimately show ?thesis using api m by simp
qed

lemma calledI:
  assumes "prog_ok h n js s" "returns m (\<lambda>(_ :: 'x, t). api_step True s t)"
    "\<And>I. port_invariant I \<Longrightarrow> I s \<Longrightarrow> keeps m (\<lambda>(_, t). I t)"
  shows "returns m (\<lambda>(_, t). called h n js s t)"
proof -
  have s: "lib_ok h n s" "app_inv n js (env s) (calls s)" "g_port s = fdir_app_port h"
    using assms(1) by (simp_all add: prog_ok_def lib_ok_def fcopy_hooks_def)
  obtain x t where m: "m = Some (x, t)" and t: "lib_ok h n t" "api_step True s t" "\<forall>J. ported J s \<longrightarrow> ported J t"
    by (rule returnsE [OF lib_call [OF s(1) assms(2,3)]]) (simp_all add: split_paired_all)
  have "ported (\<lambda>e' _. same_app (env s) e') t" using t(3) ported_same [OF s(3)] by blast
  then have same: "same_app (env s) (env t)" by (simp add: ported_def)
  moreover obtain cs where "calls t = calls s @ cs" using t(2) by (auto simp: api_step_def lib_step_def)
  with same s(2) have "app_inv n js (env t) (calls t)" by (auto simp: same_app_def app_inv_call)
  ultimately show ?thesis using t m by (simp add: called_def prog_ok_def)
qed

lemma program_calls:
  assumes "prog_ok h n js s"
  shows "returns (fdir_worker_may_run eid s) (\<lambda>(_, t). called h n js s t)"
    "returns (fdir_report_fault eid reason code detail s) (\<lambda>(_, t). called h n js s t)"
    "returns (fdir_health_heartbeat_notify eid s) (called h n js s)"
    "returns (fdir_supervisor_tick s) (prog_ok h n js)"
proof -
  have live: "live s" using assms by (simp add: prog_ok_def lib_ok_def)
  show "returns (fdir_worker_may_run eid s) (\<lambda>(_, t). called h n js s t)"
    by (rule calledI [OF assms call_steps(8) [OF live] port_invariant.gate_inv])
  show "returns (fdir_report_fault eid reason code detail s) (\<lambda>(_, t). called h n js s t)"
    using call_steps(5) [OF live] unfolding fdir_report_fault_def
    by (rule calledI [OF assms _ port_invariant.report_inv])
  show "returns (fdir_health_heartbeat_notify eid s) (called h n js s)"
    by (rule calledI [OF assms, where m = "map_option (Pair ()) (fdir_health_heartbeat_notify eid s)", unfolded keeps_unit,
        OF call_steps(1) [OF live] port_invariant.heartbeat_inv])
  obtain t where t: "fdir_supervisor_tick s = Some t" "api_step True s t" using call_steps(2) [OF live] by (auto simp: returns_def)
  have s: "lib_ok h n s" "mild s" "all_slots within_budget s" using assms by (simp_all add: prog_ok_def lib_ok_def)
  have "lib_ok h n t"
    using lib_ok_call [OF s(1) t(2)] keepsD [OF mild.supervisor_tick_inv [OF live s(2)] t(1)]
      keepsD [OF budget.supervisor_tick_inv [OF live s(3)] t(1)]
      keepsD [OF hooks_of.supervisor_tick_inv [OF live refl] t(1)] by simp
  with hookedD [OF keepsD [OF hooks.supervisor_tick_inv [OF live prog_ok_hooked [OF assms]] t(1)]] t(1)
  show "returns (fdir_supervisor_tick s) (prog_ok h n js)" by (simp add: prog_ok_def)
qed


subsection \<open>The threads' steps\<close>

text \<open>A step after which no worker runs that did not run before, and in which failures use up workers.\<close>

definition calmer :: "fcopy \<Rightarrow> fcopy \<Rightarrow> bool" where
  "calmer c c' \<longleftrightarrow> length (fc_workers c') = length (fc_workers c) \<and>
     (\<forall>i < length (fc_workers c). fc_workers c' ! i \<noteq> Exited \<longrightarrow> fc_workers c ! i \<noteq> Exited) \<and>
     length (fc_failures c') + alive (fc_workers c') \<le> length (fc_failures c) + alive (fc_workers c) \<and>
     fc_aborted c' = fc_aborted c"

lemma alive_le:
  "length ws' = length ws \<Longrightarrow> (\<And>i. i < length ws \<Longrightarrow> ws' ! i \<noteq> Exited \<Longrightarrow> ws ! i \<noteq> Exited) \<Longrightarrow> alive ws' \<le> alive ws"
proof (induction ws' ws rule: list_induct2)
  case (Cons w' ws' w ws)
  have "alive ws' \<le> alive ws" by (rule Cons.IH) (use Cons.prems [of "Suc _"] in auto)
  with Cons.prems [of 0] show ?case by (auto simp: alive_def)
qed (simp add: alive_def)

lemma alive_exit:
  assumes "i < length ws" "ws ! i \<noteq> Exited"
  shows "Suc (alive (ws[i := Exited])) = alive ws"
  using alive_update [of i "ws[i := Exited]" "ws ! i"] assms by simp

lemma calmer_same_failures:
  assumes "length (fc_workers c') = length (fc_workers c)" "fc_failures c' = fc_failures c" "fc_aborted c' = fc_aborted c"
    "\<And>i. i < length (fc_workers c) \<Longrightarrow> fc_workers c' ! i \<noteq> Exited \<Longrightarrow> fc_workers c ! i \<noteq> Exited"
  shows "calmer c c'"
  using assms alive_le [of "fc_workers c'" "fc_workers c"] by (auto simp: calmer_def)

lemma thread_step_calmer:
  assumes "thread_step c c'"
  shows "calmer c c'"
  using assms
proof (cases rule: thread_step.cases)
  case (copy_failed i job)
  with alive_exit [of i "fc_workers c"] show ?thesis
    by (auto simp: calmer_def nth_list_update_if)
qed (auto intro!: calmer_same_failures elim!: signalled.cases simp: wake_all_def nth_list_update_if split: if_splits)

lemma carried_by_wake: "i < length ws \<Longrightarrow> carried_by (wake_all ws ! i) = carried_by (ws ! i)"
  by (simp add: wake_all_def)

lemma passed_okI:
  assumes "passed_ok k c" "fc_failures c' = [] \<Longrightarrow> fc_failures c = []"
    "waiting_jobs (fc_queue c) = [] \<Longrightarrow> fc_todo c = [] \<Longrightarrow> waiting_jobs (fc_queue c') = [] \<and> fc_todo c' = []"
    "\<And>j. waiting_jobs (fc_queue c) = [] \<Longrightarrow> fc_todo c = [] \<Longrightarrow> j < k \<Longrightarrow>
       carried_by (fc_workers c ! j) = {#} \<Longrightarrow> carried_by (fc_workers c' ! j) = {#}"
  shows "passed_ok k c'"
proof (unfold passed_ok_def, intro impI)
  assume "0 < k \<and> fc_failures c' = []"
  with assms(1,2) have w: "waiting_jobs (fc_queue c) = []" "fc_todo c = []" "\<forall>j<k. carried_by (fc_workers c ! j) = {#}"
    by (simp_all add: passed_ok_def)
  with assms(3) [OF w(1,2)] assms(4) [OF w(1,2)]
  show "waiting_jobs (fc_queue c') = [] \<and> fc_todo c' = [] \<and> (\<forall>j<k. carried_by (fc_workers c' ! j) = {#})" by simp
qed

lemma carried_by_signalled: "signalled ws ws' \<Longrightarrow> carried_by (ws' ! j) = carried_by (ws ! j)"
  by (auto elim!: signalled.cases simp: nth_list_update_if)

lemma passed_thread_step:
  assumes "thread_step c c'" "jq_inv (fc_queue c)" "k \<le> length (fc_workers c)" "passed_ok k c"
  shows "passed_ok k c'"
  using assms(1)
proof (cases rule: thread_step.cases)
  case (pop i out job q)
  have "waiting_jobs (fc_queue c) = job # waiting_jobs q" using pop_cases [OF assms(2) pop(4)] by auto
  with pop(1) show ?thesis by (intro passed_okI [OF assms(4)]) simp_all
next
  case (drained i out job q)
  have "q = fc_queue c" using pop_cases [OF assms(2) drained(4)] by auto
  with drained(1) assms(3) show ?thesis
    by (intro passed_okI [OF assms(4)]) (simp_all add: carried_by_wake nth_list_update_if)
qed (use assms(3) in \<open>(intro passed_okI [OF assms(4)]; simp add: carried_by_wake nth_list_update_if)+\<close>)

text \<open>A step of one thread around the queue, the rest of the program's memory staying in line with it.\<close>

lemma app_inv_thread:
  assumes "app_inv n js e cs" "thread_step (threads e) (threads e')"
    "g_workers e' = g_workers e" "vars e' = vars e" "fc_todo (threads e') = jobs_of (vars e) (entries e')"
    "main_pc e' \<noteq> Setup" "passed n (main_pc e') = passed n (main_pc e)" "main_in n (main_pc e')"
  shows "app_inv n js e' cs"
proof -
  have run: "fcopy_run n js (threads e)" and k: "passed n (main_pc e) \<le> n" "passed_ok (passed n (main_pc e)) (threads e)"
    using assms(1) passed_le [of n "main_pc e"] by (auto simp: app_inv_def)
  note len = run_length [OF run]
  have "passed_ok (passed n (main_pc e)) (threads e')"
    using passed_thread_step [OF assms(2) run_facts(4) [OF run] _ k(2)] k(1) len by simp
  with assms thread_step_calmer [OF assms(2)] fcopy_run.thread [OF run assms(2)] len show ?thesis
    by (auto simp: app_inv_def ctx_ok_def calmer_def)
qed

text \<open>A worker that is let through the gate or wakes up.\<close>

lemma app_inv_popping:
  assumes "app_inv n js e cs" "i < n" "fc_workers (threads e) ! i \<in> {At_gate, Pop_waiting}"
  shows "app_inv n js (on_threads (station i Popping) e) cs"
proof -
  have run: "fcopy_run n js (threads e)" and k: "passed_ok (passed n (main_pc e)) (threads e)"
    using assms(1) by (auto simp: app_inv_def)
  let ?c = "station i Popping (threads e)"
  have "outside_step (threads e) ?c"
    using assms(2,3) run_length [OF run] by (auto simp: station_def intro: outside_step.may_run outside_step.spurious)
  then have "fcopy_run n js ?c" by (rule fcopy_run.outer [OF run])
  moreover have "alive (fc_workers ?c) \<le> alive (fc_workers (threads e))"
    by (rule alive_le) (use assms(3) in \<open>auto simp: station_def nth_list_update_if split: if_splits\<close>)
  moreover have "passed_ok (passed n (main_pc e)) ?c"
    by (rule passed_okI [OF k]) (use assms(3) in \<open>auto simp: station_def nth_list_update_if\<close>)
  ultimately show ?thesis
    using assms by (auto simp: app_inv_def ctx_ok_def station_def nth_list_update_if)
qed

lemma app_inv_exit: "app_inv n js e cs \<Longrightarrow> fc_workers (threads e) ! i = Exited \<Longrightarrow> app_inv n js (worker_exit i e) cs"
  unfolding worker_exit_def by (rule app_inv_ctx) simp_all

lemma app_inv_entries:
  "app_inv n js e cs \<Longrightarrow> jobs_of (vars e) es = jobs_of (vars e) (entries e) \<Longrightarrow> app_inv n js (e\<lparr>entries := es\<rparr>) cs"
  by (simp add: app_inv_def ctx_ok_def)

lemma app_inv_main:
  assumes "app_inv n js e cs" "m \<noteq> Setup" "passed n m = passed n (main_pc e)" "main_in n m"
  shows "app_inv n js (e\<lparr>main_pc := m\<rparr>) cs"
  using assms by (auto simp: app_inv_def ctx_ok_def)

text \<open>The main thread gets past a worker that has ended.\<close>

lemma app_inv_pass:
  assumes "app_inv n js e cs" "passed n (main_pc e) = k" "k < n" "fc_workers (threads e) ! k = Exited"
  shows "app_inv n js (e\<lparr>main_pc := Joining (Suc k)\<rparr>) cs"
proof -
  have run: "fcopy_run n js (threads e)" and ab: "\<not> fc_aborted (threads e)" and k: "passed_ok k (threads e)"
    using assms(1,2) by (auto simp: app_inv_def)
  note facts = run_facts [OF run]
  have "Exited \<in> set (fc_workers (threads e))" using assms(3,4) facts(3) by (metis nth_mem)
  then have "fc_failures (threads e) = [] \<longrightarrow> waiting_jobs (fc_queue (threads e)) = [] \<and> fc_todo (threads e) = []"
    using fcopy_invD(8) [OF facts(1)] ab by blast
  with k assms(4) have "passed_ok (Suc k) (threads e)" by (auto simp: passed_ok_def less_Suc_eq)
  with assms show ?thesis by (auto simp: app_inv_def ctx_ok_def)
qed

lemma app_inv_join:
  "app_inv n js e cs \<Longrightarrow> i < n \<Longrightarrow> wc_thread (g_workers e ! i) = Joinable \<longrightarrow> fc_workers (threads e) ! i = Exited \<Longrightarrow>
   fc_workers (threads e) ! i = Exited \<and> app_inv n js (join_worker i e) cs"
  using app_inv_ctx [of n js e cs "\<lambda>c. c\<lparr>wc_thread := Joined\<rparr>" i]
  by (auto simp: join_worker_def) (auto simp: app_inv_def ctx_ok_def)

lemma join_worker_simps [simp]:
  "main_pc (join_worker i e) = main_pc e" "threads (join_worker i e) = threads e"
  by (simp_all add: join_worker_def)


subsection \<open>Workers\<close>

lemma prog_ok_env: "prog_ok h n js s \<Longrightarrow> app_inv n js e (calls s) \<Longrightarrow> prog_ok h n js (s\<lparr>env := e\<rparr>)"
  by (simp add: prog_ok_def)

lemma prog_okD: "prog_ok h n js s \<Longrightarrow> app_inv n js (env s) (calls s)"
  by (simp add: prog_ok_def)

lemma prog_facts:
  assumes "prog_ok h n js s"
  shows "main_pc (env s) \<noteq> Setup" "fcopy_run n js (threads (env s))" "n \<le> 16" "nat (g_nworkers (vars (env s))) = n"
    "ctx_ok n (env s)" "length (fc_workers (threads (env s))) = n" "jq_inv (fc_queue (threads (env s)))"
    "main_in n (main_pc (env s))" "fc_todo (threads (env s)) = jobs_of (vars (env s)) (entries (env s))"
    "\<not> fc_aborted (threads (env s))"
  using prog_okD [OF assms] run_facts(3,4) by (auto simp: app_inv_def)

lemma called_facts:
  assumes "called h n js s t"
  shows "prog_ok h n js t" "threads (env t) = threads (env s)" "g_workers (env t) = g_workers (env s)"
    "main_pc (env t) = main_pc (env s)" "halt (env t) = halt (env s)" "sup_pc (env t) = sup_pc (env s)"
    "vars (env t) = vars (env s)" "entries (env t) = entries (env s)" "g_running (env t) = g_running (env s)"
  using assms by (auto simp: called_def same_app_def)

lemma prog_ok_thread:
  assumes "prog_ok h n js s" "thread_step (threads (env s)) (f (threads (env s)))"
    "fc_todo (f (threads (env s))) = fc_todo (threads (env s))"
  shows "prog_ok h n js (s\<lparr>env := on_threads f (env s)\<rparr>)"
proof (rule prog_ok_env [OF assms(1)], rule app_inv_thread [OF prog_okD [OF assms(1)]])
  show "fc_todo (threads (on_threads f (env s))) = jobs_of (vars (env s)) (entries (on_threads f (env s)))"
    using prog_facts(9) [OF assms(1)] assms(3) by (simp only: on_simps)
qed (use assms(2) prog_facts(1,8) [OF assms(1)] in simp_all)

lemma prog_ok_exit:
  assumes "prog_ok h n js (s\<lparr>env := e\<rparr>)" "fc_workers (threads e) ! i = Exited"
  shows "prog_ok h n js (s\<lparr>env := worker_exit i e\<rparr>)"
  using assms app_inv_exit [of n js e "calls s" i] by (simp add: prog_ok_def)

lemma gate_ok:
  assumes "prog_ok h n js s" "i < n" "fc_workers (threads (env s)) ! i = At_gate" "worker_thread h i s = Some s'"
  shows "prog_ok h n js s'"
proof -
  obtain r t where t: "fdir_worker_may_run (wc_entity (g_workers (env s) ! i)) s = Some (r, t)" "called h n js s t"
    using program_calls(1) [OF assms(1), of "wc_entity (g_workers (env s) ! i)"] by (auto simp: returns_def)
  note c = called_facts [OF t(2)]
  have "prog_ok h n js (t\<lparr>env := on_threads (station i Popping) (env t)\<rparr>)"
    by (rule prog_ok_env [OF c(1)], rule app_inv_popping [OF prog_okD [OF c(1)] assms(2)]) (simp add: c assms(3))
  with assms(3,4) t c(1) show ?thesis by (auto simp: worker_thread_def split: if_splits)
qed

lemma pop_ok:
  assumes "prog_ok h n js s" "i < n" "fc_workers (threads (env s)) ! i = Popping" "worker_thread h i s = Some s'"
  shows "prog_ok h n js s'"
proof -
  let ?c = "threads (env s)"
  have i: "i < length (fc_workers ?c)" using assms(2) prog_facts(6) [OF assms(1)] by simp
  obtain r where r: "job_queue_pop zero_job (fc_queue ?c) = Some r"
    using assms(3,4) by (auto simp: worker_thread_def split: bind_splits)
  from prog_facts(7) [OF assms(1)] r show ?thesis
  proof (cases rule: pop_cases)
    case 1
    have "thread_step ?c (station i Pop_waiting ?c)"
      unfolding station_def using r 1 by (intro thread_step.pop_wait [OF i assms(3)]) simp
    from prog_ok_thread [where f = "station i Pop_waiting", OF assms(1) this] assms(3,4) r 1
    show ?thesis by (simp add: worker_thread_def station_def)
  next
    case 2
    let ?f = "\<lambda>c. c\<lparr>fc_queue := fc_queue ?c, fc_workers := wake_all ((fc_workers c)[i := Exited])\<rparr>"
    have "thread_step ?c (?f ?c)"
      using r 2 by (intro thread_step.drained [OF i assms(3), of zero_job zero_job]) simp
    from prog_ok_thread [where f = ?f, OF assms(1) this] have "prog_ok h n js (s\<lparr>env := on_threads ?f (env s)\<rparr>)" by simp
    then have "prog_ok h n js (s\<lparr>env := worker_exit i (on_threads ?f (env s))\<rparr>)"
      by (rule prog_ok_exit) (use i in \<open>simp add: wake_all_def\<close>)
    with assms(3,4) r 2 show ?thesis by (simp add: worker_thread_def)
  next
    case (3 job q)
    let ?f = "\<lambda>c. c\<lparr>fc_queue := q, fc_workers := (fc_workers c)[i := Copying job], fc_taken := fc_taken c @ [job],
      fc_walker := wake_walker (fc_walker c)\<rparr>"
    have "thread_step ?c (?f ?c)" using r 3 by (intro thread_step.pop [OF i assms(3)]) simp
    from prog_ok_thread [where f = ?f, OF assms(1) this] assms(3,4) r 3
    show ?thesis by (simp add: worker_thread_def)
  qed
qed

lemma copy_ok:
  assumes "prog_ok h n js s" "i < n" "fc_workers (threads (env s)) ! i = Copying job" "worker_thread h i s = Some s'"
  shows "prog_ok h n js s'"
proof -
  let ?c = "threads (env s)"
  have i: "i < length (fc_workers ?c)" using assms(2) prog_facts(6) [OF assms(1)] by simp
  obtain rc w where cp: "copy_file (sys h) (cstr (cj_src job)) (cstr (cj_dst job)) (world (env s)) = Some (rc, w)"
    using assms(3,4) by (auto simp: worker_thread_def split: bind_splits)
  let ?s = "s\<lparr>env := (env s)\<lparr>world := w\<rparr>\<rparr>" and ?eid = "wc_entity (g_workers (env s) ! i)"
  have s: "prog_ok h n js ?s" by (rule prog_ok_env [OF assms(1)]) (simp add: prog_okD [OF assms(1)])
  show ?thesis
  proof (cases "rc = 0")
    case True
    obtain t where t: "fdir_health_heartbeat_notify ?eid ?s = Some t" "called h n js ?s t"
      using program_calls(3) [OF s, of ?eid] by (auto simp: returns_def)
    note c = called_facts [OF t(2)]
    let ?f = "\<lambda>c. (station i At_gate c)\<lparr>fc_copied := job # fc_copied c\<rparr>"
    have "thread_step (threads (env t)) (?f (threads (env t)))"
      using thread_step.copied [OF i assms(3)] by (simp add: station_def c)
    from prog_ok_thread [where f = ?f, OF c(1) this] True assms(3,4) cp t(1)
    show ?thesis by (simp add: worker_thread_def station_def)
  next
    case False
    obtain st t where t: "fdir_report_fault ?eid FDIR_REASON_IO_ERROR (word_of_int (errno h w)) (Some (cj_src job)) ?s = Some (st, t)"
      "called h n js ?s t"
      using program_calls(2) [OF s, of ?eid FDIR_REASON_IO_ERROR "word_of_int (errno h w)" "Some (cj_src job)"]
      by (auto simp: returns_def)
    note c = called_facts [OF t(2)]
    let ?f = "\<lambda>c. (station i Exited c)\<lparr>fc_failures := job # fc_failures c\<rparr>"
    have "thread_step (threads (env t)) (?f (threads (env t)))"
      using thread_step.copy_failed [OF i assms(3)] by (simp add: station_def c)
    from prog_ok_thread [where f = ?f, OF c(1) this] have "prog_ok h n js (t\<lparr>env := on_threads ?f (env t)\<rparr>)"
      by (simp add: station_def)
    then have "prog_ok h n js (t\<lparr>env := worker_exit i (on_threads ?f (env t))\<rparr>)"
      by (rule prog_ok_exit) (use i c in \<open>simp add: station_def\<close>)
    with False assms(3,4) cp t(1) show ?thesis by (simp add: worker_thread_def)
  qed
qed

lemma worker_ok:
  assumes "prog_ok h n js s" "i < n" "worker_thread h i s = Some s'"
  shows "prog_ok h n js s'"
proof (cases "fc_workers (threads (env s)) ! i")
  case At_gate
  from gate_ok [OF assms(1,2) this assms(3)] show ?thesis .
next
  case Popping
  from pop_ok [OF assms(1,2) this assms(3)] show ?thesis .
next
  case (Copying job)
  from copy_ok [OF assms(1,2) this assms(3)] show ?thesis .
qed (use assms(3) in \<open>simp_all add: worker_thread_def\<close>)


subsection \<open>The other threads\<close>

lemma jobs_of_Cons:
  "jobs_of v ((p, f, junk) # es) = (case walk_cb v p f junk of Some (Walk_push job) \<Rightarrow> [job] | _ \<Rightarrow> []) @ jobs_of v es"
  by (simp add: jobs_of_def)

lemma jobs_of_Nil [simp]: "jobs_of v [] = []"
  by (simp add: jobs_of_def)

lemma walk_ok:
  assumes "prog_ok h n js s" "main_pc (env s) = Walking" "fc_walker (threads (env s)) = Pushing" "walk_step h (env s) e"
  shows "prog_ok h n js (s\<lparr>env := e\<rparr>)"
proof (rule prog_ok_env [OF assms(1)])
  note D = prog_okD [OF assms(1)] and todo = prog_facts(9) [OF assms(1)]
  note move = app_inv_thread [OF D]
  from assms(4) show "app_inv n js e (calls s)"
  proof (cases rule: walk_step.cases)
    case (dir p f junk es d)
    with D app_inv_entries [of n js "env s" "calls s" es] show ?thesis by (simp add: jobs_of_Cons)
  next
    case (skip p f junk es)
    with D app_inv_entries [of n js "env s" "calls s" es] show ?thesis by (simp add: jobs_of_Cons)
  next
    case (full p f junk es job)
    with todo have t: "fc_todo (threads (env s)) = job # jobs_of (vars (env s)) es" by (simp add: jobs_of_Cons)
    have "thread_step (threads (env s)) (threads e)"
      using thread_step.push_wait [OF assms(3) t full(4)] full(1) by simp
    then show ?thesis by (rule move) (use full(1) assms(2) todo in simp_all)
  next
    case (push p f junk es job q ws)
    with todo have t: "fc_todo (threads (env s)) = job # jobs_of (vars (env s)) es" by (simp add: jobs_of_Cons)
    have "thread_step (threads (env s)) (threads e)"
      using thread_step.push [OF assms(3) t push(4,5)] push(1) t by simp
    then show ?thesis by (rule move) (use push(1) assms(2) t in simp_all)
  next
    case finish
    have "thread_step (threads (env s)) (threads e)"
      using thread_step.finish [OF assms(3)] finish todo by simp
    then show ?thesis by (rule move) (use finish assms(2) todo in simp_all)
  qed
qed

text \<open>The library is below SAFE mode whenever the program asks for the mode.\<close>

lemma mode_call:
  assumes "prog_ok h n js s"
  obtains t where "fdir_system_mode s = (g_mode s, t)" "called h n js s t" "\<not> FDIR_MODE_SAFE \<le> g_mode s"
proof -
  have "mild s" using assms by (simp add: prog_ok_def lib_ok_def)
  have "returns (Some (fdir_system_mode s)) (\<lambda>(_, t). called h n js s t)"
    by (rule calledI [OF assms]) (simp_all add: system_mode_eq api_step_section_refl port_invariant.enter port_invariant.exit)
  moreover have "\<not> FDIR_MODE_SAFE \<le> g_mode s" using \<open>mild s\<close> by (auto simp: mild_def fdir_mode_order)
  ultimately show ?thesis by (intro that) (auto simp: system_mode_eq)
qed

lemma main_ok:
  assumes "prog_ok h n js s" "main_thread s = Some s'"
  shows "prog_ok h n js s'"
proof -
  note D = prog_okD [OF assms(1)] and F = prog_facts [OF assms(1)]
  note ok = prog_ok_env [OF assms(1)]
  let ?e = "env s"
  show ?thesis
  proof (cases "main_pc ?e")
    case (Joining k)
    have "fc_workers (threads ?e) ! k = Exited" if "k < n" "wc_active (g_workers ?e ! k) = 0"
      using F(5) that by (auto simp: ctx_ok_def)
    then have "k < n \<Longrightarrow> wc_active (g_workers ?e ! k) = 0 \<Longrightarrow> app_inv n js (?e\<lparr>main_pc := Joining (Suc k)\<rparr>) (calls s)"
      "k < n \<Longrightarrow> app_inv n js (?e\<lparr>main_pc := In_join k\<rparr>) (calls s)"
      "\<not> k < n \<Longrightarrow> app_inv n js (?e\<lparr>g_running := 0, main_pc := Stopping\<rparr>) (calls s)"
      using app_inv_pass [OF D] app_inv_main [OF D, of "In_join k"]
        app_inv_main [of n js "?e\<lparr>g_running := 0\<rparr>" "calls s" Stopping] D F(8) by (simp_all add: Joining)
    with assms(2) ok F(4) show ?thesis by (auto simp: main_thread_def worker_wait_all_def Joining Let_def split: if_splits)
  next
    case (In_join k)
    with assms(2) have ended: "wc_thread (g_workers ?e ! k) = Joinable \<longrightarrow> fc_workers (threads ?e) ! k = Exited"
      and s': "s' = s\<lparr>env := (join_worker k ?e)\<lparr>main_pc := Joining (Suc k)\<rparr>\<rparr>"
      by (auto simp: main_thread_def worker_wait_all_def Let_def split: if_splits)
    have "app_inv n js ((join_worker k ?e)\<lparr>main_pc := Joining (Suc k)\<rparr>) (calls s)"
      using app_inv_join [OF D _ ended] app_inv_pass [of n js "join_worker k ?e"] F(8) In_join by simp
    with ok s' show ?thesis by simp
  next
    case Stopping
    obtain t where t: "fdir_system_mode s = (g_mode s, t)" "called h n js s t" "\<not> FDIR_MODE_SAFE \<le> g_mode s"
      by (rule mode_call [OF assms(1)])
    note c = called_facts [OF t(2)]
    have "app_inv n js ((env t)\<lparr>main_pc := Returned 0\<rparr>) (calls t)"
      by (rule app_inv_main [OF prog_okD [OF c(1)]]) (simp_all add: c Stopping)
    then have "prog_ok h n js (return_from_main 0 t)"
      using prog_ok_env [OF c(1)] by (simp add: return_from_main_def)
    with assms(2) t(1,3) ok D show ?thesis
      by (auto simp: main_thread_def worker_wait_all_def Stopping Let_def split: sup_pc.splits)
  qed (use assms in \<open>simp_all add: main_thread_def worker_wait_all_def\<close>)
qed

lemma supervisor_ok:
  assumes "prog_ok h n js s" "supervisor_thread s = Some s'"
  shows "prog_ok h n js s'"
proof -
  have set_pc: "prog_ok h n js (t\<lparr>env := (env t)\<lparr>sup_pc := p\<rparr>\<rparr>)" if "prog_ok h n js t" for t p
    by (rule prog_ok_env [OF that]) (simp add: prog_okD [OF that])
  obtain t where t: "fdir_system_mode s = (g_mode s, t)" "called h n js s t" "\<not> FDIR_MODE_SAFE \<le> g_mode s"
    by (rule mode_call [OF assms(1)])
  obtain u where u: "fdir_supervisor_tick s = Some u" "prog_ok h n js u" using program_calls(4) [OF assms(1)] by (auto simp: returns_def)
  show ?thesis
    using assms t(1,3) u called_facts(1) [OF t(2)] set_pc
    by (auto simp: supervisor_thread_def split: sup_pc.splits if_splits)
qed

lemma spurious_ok:
  assumes "prog_ok h n js s"
  shows "i < n \<Longrightarrow> fc_workers (threads (env s)) ! i = Pop_waiting \<Longrightarrow>
      prog_ok h n js (s\<lparr>env := on_threads (station i Popping) (env s)\<rparr>)"
    and "prog_ok h n js (s\<lparr>env := on_threads (\<lambda>c. c\<lparr>fc_walker := wake_walker (fc_walker c)\<rparr>) (env s)\<rparr>)"
proof -
  note D = prog_okD [OF assms]
  show "prog_ok h n js (s\<lparr>env := on_threads (station i Popping) (env s)\<rparr>)"
    if "i < n" "fc_workers (threads (env s)) ! i = Pop_waiting"
    by (rule prog_ok_env [OF assms], rule app_inv_popping [OF D that(1)]) (simp add: that(2))
  let ?c = "(threads (env s))\<lparr>fc_walker := wake_walker (fc_walker (threads (env s)))\<rparr>"
  have "fcopy_run n js ?c" by (rule fcopy_run.outer [OF prog_facts(2) [OF assms] outside_step.spurious_walker])
  then have "app_inv n js (on_threads (\<lambda>c. c\<lparr>fc_walker := wake_walker (fc_walker c)\<rparr>) (env s)) (calls s)"
    using D by (auto simp: app_inv_def ctx_ok_def passed_ok_def)
  then show "prog_ok h n js (s\<lparr>env := on_threads (\<lambda>c. c\<lparr>fc_walker := wake_walker (fc_walker c)\<rparr>) (env s)\<rparr>)"
    by (rule prog_ok_env [OF assms])
qed

lemma step_ok:
  assumes "fcopy_step h s s'" "prog_ok h n js s"
  shows "prog_ok h n js s'"
  using assms(1)
proof (cases rule: fcopy_step.cases)
  case (walk e)
  with walk_ok [OF assms(2)] show ?thesis by simp
next
  case main
  with main_ok [OF assms(2)] show ?thesis by simp
next
  case (worker i)
  with worker_ok [OF assms(2)] prog_facts(4) [OF assms(2)] show ?thesis by simp
next
  case supervisor
  with supervisor_ok [OF assms(2)] show ?thesis by simp
qed (use spurious_ok [OF assms(2)] prog_facts(4) [OF assms(2)] in simp_all)

end
