(* ===== verification/Fcopy_Start.thy ===== *)
theory Fcopy_Start
  imports Fcopy_Steps
begin

text \<open>
  The start of the file copy program: the library is initialised, the workers are registered and started,
  and the walk begins in a state with the invariant of \<open>Fcopy_Steps\<close>, unless \<open>main\<close> gives up before.
\<close>

subsection \<open>The main thread up to the walk\<close>

text \<open>Between two states of the setup: no hook but the lock and the clock has been called.\<close>

definition untouched :: "'w fcopy_env \<Rightarrow> 'w fcopy_env \<Rightarrow> ext_call list \<Rightarrow> bool" where
  "untouched e0 e cs \<longleftrightarrow> same_app e0 e \<and> (\<forall>j. restarts j cs = 0)"

lemma ported_untouched:
  assumes "g_port s = fdir_app_port h" "\<forall>j. restarts j (calls s) = 0"
  shows "ported (untouched (env s)) s"
  using ported_same [OF assms(1)] assms(2) by (auto simp: ported_def kept_by_def untouched_def restarts_def)

text \<open>No entity is marked failed, so that the gate is open.\<close>

definition healthy :: "'e fdir \<Rightarrow> bool" where
  "healthy s \<longleftrightarrow> (\<forall>i. registered i s \<longrightarrow> \<not> failed i (hl s))"

lemma healthy_simps [simp]: "healthy (s\<lparr>env := e\<rparr>) = healthy s" "healthy (fdir_port_sync_enter s) = healthy s"
  "healthy (fdir_port_sync_exit s) = healthy s"
  by (simp_all add: healthy_def registered_def)

lemma heartbeat_healthy:
  assumes "fdir_inv s" "healthy s"
  shows "keeps (fdir_health_heartbeat_notify eid s) healthy"
  using assms(1)
proof (cases rule: heartbeat_cases [of s eid])
  case unknown
  with assms(2) show ?thesis by (simp add: healthy_def registered_def)
next
  case known
  have "healthy (t\<lparr>hl := (hl t)\<lparr>g_health := (g_health (hl t))[unat eid := (g_health (hl t) ! unat eid)\<lparr>hs_last_heartbeat_ms := now,
      hs_health := (if failed eid (hl t) then FDIR_HEALTH_FAILED else FDIR_HEALTH_OK)\<rparr>]\<rparr>\<rparr>)" if "healthy t" for t :: "'a fdir" and now
    using that by (auto simp: healthy_def failed_def tracked_def registered_def nth_list_update_if simp flip: word_unat_eq_iff)
  moreover have "healthy t" if "fdir_get_now_ms (fdir_port_sync_enter s) = Some (now, t)" for now t
    using keepsD [OF get_now_keeps that] assms(2) by (auto simp: healthy_def registered_def)
  ultimately show ?thesis
    unfolding known(2) by (intro keeps_bind_any) (simp add: split_paired_all)
qed

lemma register_ok:
  assumes "lib_ok h i s" "i < 16" "\<forall>j. restarts j (calls s) = 0"
  shows "returns (fdir_entity_register (Some (worker_desc h i)) (Some out0) s) (\<lambda>((status, out), t).
     status = FDIR_OK \<and> out = Some (word_of_nat i) \<and> lib_ok h (Suc i) t \<and> untouched (env s) (env t) (calls t) \<and>
     (healthy s \<longrightarrow> healthy t))"
proof -
  let ?d = "worker_desc h i" and ?c = "g_entity_count s"
  have live: "live s" and mild: "mild s" and slots: "all_slots within_budget s" and bud: "budgeted s"
    and port: "g_port s = fdir_app_port h" and c: "unat ?c = i" and hooks: "fcopy_hooks h i s"
    using assms(1) by (simp_all add: lib_ok_def fcopy_hooks_def)
  have cw: "?c = word_of_nat i" using c by (metis of_nat_unat ucast_id)
  note inv = liveD(1) [OF live]
  have st: "register_status (Some ?d) (Some out0) s = FDIR_OK"
    using c assms(2) by (simp add: register_status_def worker_desc_def zero_entity_desc_def)
  have reg: "registered j t \<longleftrightarrow> registered j s \<or> j = ?c" if "g_entity_count t = ?c + 1" for j and t :: "'a fcopy_env fdir"
    using that count_inc [of ?c] c assms(2) by (auto simp: registered_def word_less_nat_alt less_Suc_eq simp flip: word_unat_eq_iff)
  obtain status out t where t: "fdir_entity_register (Some ?d) (Some out0) s = Some ((status, out), t)"
    and eff: "status = FDIR_OK" "out = Some ?c" "g_entity_count t = ?c + 1" "sb t = sb s" "g_mode t = g_mode s"
      "es_desc (g_entities t ! unat ?c) = ?d\<lparr>ed_name := Some (take 31 (cstr ''worker''))\<rparr>"
      "es_restart_count (g_entities t ! unat ?c) = 0" "es_watchdog_restart_count (g_entities t ! unat ?c) = 0"
      "\<forall>j. registered j s \<longrightarrow> g_entities t ! unat j = g_entities s ! unat j \<and>
         g_health (hl t) ! unat j = g_health (hl s) ! unat j"
      "hs_health (g_health (hl t) ! unat ?c) = FDIR_HEALTH_OK"
    using entity_register_effect [OF live, of "Some ?d" "Some out0"] st
    by (auto simp: returns_def Let_def worker_desc_def)
  have api: "api_step True s t" using call_steps(7) [OF live, of "Some ?d" "Some out0"] t by simp
  then have cfg: "g_config t = g_config s" "g_port t = g_port s" by (simp_all add: api_step_def lib_step_def)
  have un: "untouched (env s) (env t) (calls t)"
    using keepsD [OF ported_register [OF inv ported_untouched [OF port assms(3)]] t] by (simp add: ported_def)
  have desc: "ed_decide ?d = None" "ed_linked_subsystem ?d = FDIR_SUBSYSTEM_NONE" "ed_on_exhausted ?d = FDIR_ACTION_UNAVAILABLE"
    "ed_max_restarts ?d = 2" "ed_max_watchdog_restarts ?d = 1" by (simp_all add: worker_desc_def zero_entity_desc_def)
  have "mild t" using mild eff cfg desc reg [OF eff(3)] by (auto simp: mild_def mild_desc_def threshold_def)
  moreover have "all_slots within_budget t" using keepsD [OF budget.entity_register_slots [OF inv slots] t] by simp
  moreover have "budgeted t"
    using bud eff desc reg [OF eff(3)] un assms(3) by (auto simp: budgeted_def untouched_def)
  moreover have "healthy s \<longrightarrow> healthy t"
    using eff reg [OF eff(3)] registered_tracked [OF inv] by (auto simp: healthy_def failed_def)
  moreover have "hooks_keep J t"
    if "port_keeps J (fdir_app_port h)" "\<forall>k<Suc i. entity_keeps J (word_of_nat k) (worker_desc h k)" for J
    using keepsD [OF register_hooks [OF inv, of J "Some ?d" "Some out0"] t] that hooks cw
    by (auto simp: fcopy_hooks_def)
  then have "fcopy_hooks h (Suc i) t"
    using cfg port eff(3) count_inc [of ?c] c assms(2) by (simp add: fcopy_hooks_def)
  ultimately show ?thesis
    using t eff(1,2) un cw api_step_live [OF api live] by (simp add: lib_ok_def)
qed

lemma init_lib_ok:
  assumes "1 \<le> g_nworkers v" "g_nworkers v \<le> 16"
  obtains t where "fdir_init (Some (fcopy_config v)) (Some (fdir_app_port h)) s = (FDIR_OK, t)"
    "lib_ok h 0 t" "healthy t" "env t = env s" "calls t = calls s"
proof -
  have valid: "port_is_valid (Some (fdir_app_port h))" by (simp add: port_is_valid_def fdir_app_port_def)
  note init = init_ok [OF valid, of "Some (fcopy_config v)" s]
  define t where "t = snd (fdir_init (Some (fcopy_config v)) (Some (fdir_app_port h)) s)"
  have eq: "fdir_init (Some (fcopy_config v)) (Some (fdir_app_port h)) s = (FDIR_OK, t)" "env t = env s" "calls t = calls s"
    by (simp_all add: t_def init fdir_boot_def)
  have "0 < unat (word_of_int (g_nworkers v) :: u8)"
    using assms(1,2) by (simp add: unsigned_of_int take_bit_int_eq_self)
  moreover have f: "sb t = zero_subsystems" "g_config t = fcopy_config v" "g_mode t = FDIR_MODE_NOMINAL" "g_port t = fdir_app_port h"
    "g_entity_count t = 0" by (simp_all add: t_def init fdir_boot_def)
  ultimately have "mild t"
    by (simp add: mild_def zero_subsystems_def threshold_def fcopy_config_def registered_def fdir_mode_order)
  moreover have "hooks_keep J t" if "port_keeps J (fdir_app_port h)" for J
    unfolding t_def by (rule init_hooks [OF valid that]) (simp add: config_keeps_def fcopy_config_def fdir_config_default_def)
  moreover have "live t" unfolding t_def by (rule init_ok_live [OF valid])
  ultimately have "lib_ok h 0 t" using f by (simp add: lib_ok_def fcopy_hooks_def all_slots_def budgeted_def registered_def)
  with eq f(5) show ?thesis by (intro that [of t]) (simp_all add: healthy_def registered_def)
qed

definition setup_ok :: "'w host \<Rightarrow> nat \<Rightarrow> job_queue \<Rightarrow> fcopy_vars \<Rightarrow> nat \<Rightarrow> 'w fcopy_env fdir \<Rightarrow> bool" where
  "setup_ok h n q v i s \<longleftrightarrow> lib_ok h i s \<and> healthy s \<and> (\<forall>j. restarts j (calls s) = 0) \<and>
     main_pc (env s) = Setup \<and> halt (env s) = Running \<and> threads (env s) = fcopy_start n [] q \<and> vars (env s) = v \<and>
     g_running (env s) = 1 \<and> length (g_workers (env s)) = 16 \<and>
     (\<forall>k<i. wc_entity (g_workers (env s) ! k) = word_of_nat k \<and> wc_active (g_workers (env s) ! k) \<noteq> 0 \<and>
        wc_thread (g_workers (env s) ! k) = Joinable)"

lemma lib_heartbeat:
  assumes "lib_ok h n s" "\<forall>j. restarts j (calls s) = 0"
  shows "returns (fdir_health_heartbeat_notify eid s) (\<lambda>t. lib_ok h n t \<and> untouched (env s) (env t) (calls t) \<and>
     (healthy s \<longrightarrow> healthy t))"
proof -
  have live: "live s" and port: "g_port s = fdir_app_port h" using assms(1) by (simp_all add: lib_ok_def fcopy_hooks_def)
  have "returns (fdir_health_heartbeat_notify eid s) (\<lambda>t. lib_ok h n t \<and> api_step True s t \<and> (\<forall>J. ported J s \<longrightarrow> ported J t))"
    by (rule lib_call [OF assms(1), where m = "map_option (Pair ()) (fdir_health_heartbeat_notify eid s)", unfolded keeps_unit,
        OF call_steps(1) [OF live] port_invariant.heartbeat_inv])
  then obtain t where t: "fdir_health_heartbeat_notify eid s = Some t" "lib_ok h n t" "\<forall>J. ported J s \<longrightarrow> ported J t"
    by (rule returnsE) blast
  have "ported (untouched (env s)) t" using t(3) ported_untouched [OF port assms(2)] by blast
  with t(1,2) keepsD [OF heartbeat_healthy [OF liveD(1) [OF live]] t(1)] show ?thesis by (simp add: ported_def)
qed

text \<open>\<open>main\<close> has returned before the walk: no job has been seen, and the mode is below SAFE.\<close>

definition gave_up :: "'w fcopy_env fdir \<Rightarrow> bool" where
  "gave_up s \<longleftrightarrow> main_pc (env s) = Returned 1 \<and> fc_todo (threads (env s)) = [] \<and> fc_copied (threads (env s)) = [] \<and>
     fc_failures (threads (env s)) = [] \<and> \<not> fc_aborted (threads (env s)) \<and> g_mode s < FDIR_MODE_SAFE"

lemma gave_up_fail: "gave_up (fail line s) \<longleftrightarrow> fc_todo (threads (env s)) = [] \<and> fc_copied (threads (env s)) = [] \<and>
     fc_failures (threads (env s)) = [] \<and> \<not> fc_aborted (threads (env s)) \<and> g_mode s < FDIR_MODE_SAFE"
  by (simp add: gave_up_def fail_def return_from_main_def)

lemma lib_ok_below: "lib_ok h n s \<Longrightarrow> g_mode s < FDIR_MODE_SAFE"
  by (auto simp: lib_ok_def mild_def fdir_mode_order)

lemma start_workers_ok:
  assumes "setup_ok h n q v i s" "i + m = n" "n \<le> 16"
  shows "returns (start_workers h m i s) (\<lambda>t. setup_ok h n q v n t \<or>
     gave_up t \<and> (\<exists>w. fst (pthread_create h w) \<noteq> 0))"
  using assms
proof (induction m arbitrary: i s)
  case 0
  then show ?case by simp
next
  case (Suc m)
  let ?s = "s\<lparr>env := on_ctx i (\<lambda>c. c\<lparr>wc_index := int i\<rparr>) (env s)\<rparr>"
  have s: "lib_ok h i ?s" "\<forall>j. restarts j (calls ?s) = 0" "i < 16" "i < n"
    using Suc.prems by (simp_all add: setup_ok_def)
  obtain t where t: "fdir_entity_register (Some (worker_desc h i)) (Some (wc_entity (g_workers (env ?s) ! i))) ?s =
      Some ((FDIR_OK, Some (word_of_nat i)), t)" "lib_ok h (Suc i) t" "untouched (env ?s) (env t) (calls t)"
    "healthy ?s \<longrightarrow> healthy t"
    using register_ok [OF s(1,3,2)] by (auto simp: returns_def)
  let ?t = "t\<lparr>env := on_ctx i (\<lambda>c. c\<lparr>wc_entity := word_of_nat i\<rparr>) (env t)\<rparr>"
  obtain u where u: "fdir_health_heartbeat_notify (word_of_nat i) ?t = Some u" "lib_ok h (Suc i) u" "untouched (env ?t) (env u) (calls u)"
    "healthy ?t \<longrightarrow> healthy u"
    using lib_heartbeat [of h "Suc i" ?t "word_of_nat i"] t(2,3) by (auto simp: returns_def untouched_def)
  obtain rc e where w: "worker_start h i (env u) = (rc, e)" by fastforce
  have i: "i < length (g_workers (env t))" using Suc.prems(1) s(3) t(3) by (auto simp: setup_ok_def untouched_def same_app_def)
  have eq: "start_workers h (Suc m) i s =
      (if rc \<noteq> 0 then Some (fail (''fcopy: failed to start worker '' @ dec i) (u\<lparr>env := e\<rparr>))
       else start_workers h m (Suc i) (u\<lparr>env := e\<rparr>))"
    using t(1) u(1) w i by (simp add: Let_def)
  have "setup_ok h n q v (Suc i) (u\<lparr>env := e\<rparr>)" if "rc = 0"
    using Suc.prems(1) t(3,4) u(2-4) w that s(3,4)
    by (auto simp: setup_ok_def untouched_def same_app_def worker_start_def station_def fcopy_start_def Let_def
        nth_list_update_if less_Suc_eq list_update_same_conv split: prod.splits if_splits)
  moreover have "gave_up (fail (''fcopy: failed to start worker '' @ dec i) (u\<lparr>env := e\<rparr>)) \<and>
      (\<exists>w. fst (pthread_create h w) \<noteq> 0)" if "rc \<noteq> 0"
    using Suc.prems(1) t(3) u(3) w that lib_ok_below [OF u(2)]
    by (auto simp: gave_up_fail setup_ok_def untouched_def same_app_def worker_start_def fcopy_start_def Let_def
        split: prod.splits if_splits) (metis fst_conv)+
  ultimately show ?case
    using Suc.IH [of "Suc i"] Suc.prems(2,3) unfolding eq by simp
qed

lemma begin_walk_ok:
  assumes "setup_ok h n q v n s" "n \<le> 16" "nat (g_nworkers v) = n"
  shows "prog_ok h n (fc_todo (threads (env (begin_walk h s)))) (begin_walk h s)"
proof -
  obtain rc w where c: "pthread_create h (world (env s)) = (rc, w)" by fastforce
  let ?js = "jobs_of v (nftw h (cstr (g_src_root v)) w)"
  have e: "threads (env (begin_walk h s)) = fcopy_start n ?js q" "vars (env (begin_walk h s)) = v"
    "entries (env (begin_walk h s)) = nftw h (cstr (g_src_root v)) w" "main_pc (env (begin_walk h s)) = Walking"
    "g_workers (env (begin_walk h s)) = g_workers (env s)" "calls (begin_walk h s) = calls s"
    using assms(1) c by (simp_all add: begin_walk_def setup_ok_def fcopy_start_def Let_def)
  have "ctx_ok n (env (begin_walk h s))" using assms(1) e by (simp add: ctx_ok_def setup_ok_def)
  moreover have "fcopy_run n ?js (fcopy_start n ?js q)" by (rule fcopy_run.start)
  moreover have "alive (replicate n At_gate) = n" by (simp add: alive_def)
  ultimately have "app_inv n ?js (env (begin_walk h s)) (calls s)"
    using assms(2,3) e by (simp add: app_inv_def passed_ok_def) (simp add: fcopy_start_def)
  moreover have "lib_ok h n (begin_walk h s)" using assms(1) c by (simp add: begin_walk_def setup_ok_def Let_def)
  ultimately show ?thesis using e by (simp add: prog_ok_def) (simp add: fcopy_start_def)
qed

lemma start_copy_ok:
  fixes s :: "'w fcopy_env fdir"
  defines "v \<equiv> vars (env s)" and "q \<equiv> fc_queue (threads (env s))"
  assumes "1 \<le> g_nworkers v" "g_nworkers v \<le> 16" "main_pc (env s) = Setup"
    "halt (env s) = Running" "g_running (env s) = 1" "length (g_workers (env s)) = 16" "calls s = []"
  shows "returns (start_copy h s) (\<lambda>t.
     (\<exists>u. setup_ok h (nat (g_nworkers v)) q v (nat (g_nworkers v)) u \<and> t = begin_walk h u) \<or>
     gave_up t \<and> (\<exists>w. fst (pthread_create h w) \<noteq> 0))"
proof -
  let ?n = "nat (g_nworkers v)"
  let ?s = "s\<lparr>env := on_threads (\<lambda>c. fcopy_start ?n [] (fc_queue c)) (env s)\<rparr>"
  obtain t where t: "fdir_init (Some (fcopy_config v)) (Some (fdir_app_port h)) ?s = (FDIR_OK, t)" "lib_ok h 0 t" "healthy t"
    "env t = env ?s" "calls t = calls ?s"
    by (rule init_lib_ok [OF assms(3,4)])
  have "setup_ok h ?n q v 0 t"
    using t(2-5) assms by (simp add: setup_ok_def)
  then have "returns (start_workers h ?n 0 t) (\<lambda>u. setup_ok h ?n q v ?n u \<or>
      gave_up u \<and> (\<exists>w. fst (pthread_create h w) \<noteq> 0))"
    by (rule start_workers_ok) (use assms(4) in simp_all)
  then obtain u where u: "start_workers h ?n 0 t = Some u" "setup_ok h ?n q v ?n u \<or>
      gave_up u \<and> (\<exists>w. fst (pthread_create h w) \<noteq> 0)"
    by (rule returnsE)
  with t(1) show ?thesis by (auto simp: start_copy_def gave_up_def setup_ok_def v_def)
qed

lemma begin_walk_main [simp]: "main_pc (env (begin_walk h s)) = Walking"
  by (simp add: begin_walk_def Let_def split: prod.split)

lemma main_start:
  assumes "fcopy_main h argv (fcopy_boot q w) = Some s"
  shows "(\<exists>n\<ge>1. prog_ok h n (fc_todo (threads (env s))) s \<and> main_pc (env s) = Walking) \<or> gave_up s"
proof -
  let ?b = "fcopy_boot q w"
  have b: "vars (env ?b) = fcopy_statics" "main_pc (env ?b) = Setup" "halt (env ?b) = Running" "g_running (env ?b) = 1"
    "length (g_workers (env ?b)) = 16" "calls ?b = []" "fc_todo (threads (env ?b)) = []" "fc_copied (threads (env ?b)) = []"
    "fc_failures (threads (env ?b)) = []" "world (env ?b) = w" "fc_queue (threads (env ?b)) = q"
    "\<not> fc_aborted (threads (env ?b))" "g_mode ?b < FDIR_MODE_SAFE"
    by (simp_all add: fdir_mode_order fcopy_boot_def fdir_boot_def fcopy_start_def)
  obtain rc v where v: "parse_args argv fcopy_statics = Some (rc, v)"
    using assms b(1) by (auto simp: fcopy_main_def split: bind_splits)
  show ?thesis
  proof (cases "rc = 0")
    case False
    with assms v b show ?thesis by (auto simp: fcopy_main_def return_from_main_def gave_up_def Let_def)
  next
    case True
    note n = parse_args_workers [OF v [unfolded True]]
    obtain root where root: "strip_slash (g_src_root v) = Some root"
      using assms v b(1) True by (auto simp: fcopy_main_def Let_def split: bind_splits)
    obtain r d w1 where st: "stat_dir h (cstr root) w = ((r, d), w1)" by (cases "stat_dir h (cstr root) w") auto
    obtain m w2 where mk: "mkdir h (cstr (g_dst_root v)) w1 = (m, w2)" by fastforce
    let ?s = "?b\<lparr>env := (env ?b)\<lparr>vars := v\<lparr>g_src_root := root\<rparr>, world := w2\<rparr>\<rparr>"
    have "gave_up s \<or> start_copy h ?s = Some s"
      using assms v b True root st mk by (auto simp: fcopy_main_def gave_up_fail Let_def split: if_splits)
    moreover have "\<exists>n\<ge>1. prog_ok h n (fc_todo (threads (env s))) s \<and> main_pc (env s) = Walking" if sc: "start_copy h ?s = Some s" "\<not> gave_up s"
    proof -
      obtain u where u: "setup_ok h (nat (g_nworkers v)) q (v\<lparr>g_src_root := root\<rparr>) (nat (g_nworkers v)) u" "s = begin_walk h u"
        using start_copy_ok [of ?s h] sc n b by (auto simp: returns_def)
      with begin_walk_ok [OF u(1)] n show ?thesis by (auto intro!: exI [of _ "nat (g_nworkers v)"])
    qed
    ultimately show ?thesis by blast
  qed
qed

text \<open>The invariant of the whole program.\<close>

lemma exec_ok:
  "fcopy_exec h argv js s \<Longrightarrow> (\<exists>n\<ge>1. prog_ok h n js s) \<or>
     js = [] \<and> gave_up s \<and> (\<exists>q w. fcopy_main h argv (fcopy_boot q w) = Some s)"
proof (induction rule: fcopy_exec.induct)
  case (start q w s)
  then show ?case using main_start [OF start] by (auto simp: gave_up_def)
next
  case (step js s s')
  from step.IH show ?case
  proof
    assume "js = [] \<and> gave_up s \<and> (\<exists>q w. fcopy_main h argv (fcopy_boot q w) = Some s)"
    then have "\<not> active (env s)" by (simp add: gave_up_def active_def)
    with step.hyps(2) show ?thesis by (auto elim: fcopy_step.cases)
  qed (use step_ok [OF step.hyps(2)] in blast)
qed

end
