(* ===== verification/Fcopy_Solo.thy ===== *)
theory Fcopy_Solo
  imports Fcopy_Start
begin

text \<open>
  Runs of the file copy program with one worker, step by step: each lemma makes a run longer by one step
  of a thread. They lead to concrete runs on a platform where nothing but copying can fail.
\<close>

subsection \<open>Steps\<close>

text \<open>
  A state in which the program with one worker works on: where the main thread and the worker are, what
  waits in the queue and in the tree, and what has been copied and what has failed so far.
\<close>

record solo =
  so_main :: main_pc
  so_worker :: worker
  so_queue :: "copy_job list"
  so_tree :: "walk_entry list"
  so_copied :: "copy_job list"
  so_failures :: "copy_job list"

definition solo_state :: "'w host \<Rightarrow> string list \<Rightarrow> copy_job list \<Rightarrow> fcopy_vars \<Rightarrow> solo \<Rightarrow> 'w fcopy_env fdir \<Rightarrow> bool" where
  "solo_state h argv js v x s \<longleftrightarrow> fcopy_exec h argv js s \<and> prog_ok h 1 js s \<and>
     halt (env s) = Running \<and> sup_pc (env s) = Sup_loop \<and> vars (env s) = v \<and>
     main_pc (env s) = so_main x \<and> (so_main x = Walking \<and> fc_walker (threads (env s)) = Pushing \<or> so_main x = Joining 0) \<and>
     fc_workers (threads (env s)) = [so_worker x] \<and> waiting_jobs (fc_queue (threads (env s))) = so_queue x \<and>
     (so_main x = Walking \<or> producer_done (fc_queue (threads (env s))) \<noteq> 0) \<and>
     entries (env s) = so_tree x \<and> fc_copied (threads (env s)) = so_copied x \<and>
     fc_failures (threads (env s)) = so_failures x \<and> (so_worker x \<noteq> Exited \<longrightarrow> healthy s)"

text \<open>A step that leaves the library alone, but for the calls \<open>cs\<close> of its port.\<close>

definition quiet_step :: "ext_call list \<Rightarrow> 'w fcopy_env fdir \<Rightarrow> 'w fcopy_env fdir \<Rightarrow> bool" where
  "quiet_step cs s s' \<longleftrightarrow> s' = s\<lparr>env := env s', calls := calls s @ cs\<rparr> \<and>
     world (env s') = world (env s) \<and> g_running (env s') = g_running (env s)"

lemma quiet_env:
  assumes "quiet_step cs s t" "world e = world (env t)" "g_running e = g_running (env t)"
  shows "quiet_step cs s (t\<lparr>env := e\<rparr>)"
proof -
  have "t = s\<lparr>env := env t, calls := calls s @ cs\<rparr>" using assms(1) by (simp add: quiet_step_def)
  from arg_cong [OF this, of "\<lambda>t. t\<lparr>env := e\<rparr>"] assms show ?thesis by (simp add: quiet_step_def)
qed

lemma solo_active: "solo_state h argv js v x s \<Longrightarrow> active (env s)"
  by (auto simp: solo_state_def active_def)

lemma solo_step:
  assumes "solo_state h argv js v x s" "fcopy_step h s s'"
  shows "fcopy_exec h argv js s'" "prog_ok h 1 js s'"
  using assms step_ok fcopy_exec.step unfolding solo_state_def by blast+

text \<open>The walk pushes a job; it is at its end.\<close>

lemma solo_push:
  assumes "solo_state h argv js v x s" "so_main x = Walking" "so_worker x = At_gate"
    "so_tree x = (p, f, junk) # es" "walk_cb v p f junk = Some (Walk_push job)" "length (so_queue x) < 4096"
  obtains s' where "solo_state h argv js v (x\<lparr>so_queue := so_queue x @ [job], so_tree := es\<rparr>) s'" "quiet_step [] s s'"
proof -
  let ?q = "fc_queue (threads (env s))"
  have s: "prog_ok h 1 js s" "fc_walker (threads (env s)) = Pushing" "entries (env s) = (p, f, junk) # es"
    "fc_workers (threads (env s)) = [At_gate]" "vars (env s) = v"
    using assms(1-4) by (auto simp: solo_state_def)
  have q: "jq_inv ?q" "count ?q \<noteq> int JOB_QUEUE_CAP"
    using prog_facts(7) [OF s(1)] assms(1,6) length_waiting_jobs [of ?q] by (auto simp: solo_state_def jq_inv_def)
  obtain q' where q': "job_queue_push job ?q = Some (Done q')" "waiting_jobs q' = waiting_jobs ?q @ [job]"
    "producer_done q' = producer_done ?q"
    using push_room [OF q] by metis
  have sig: "signalled (fc_workers (threads (env s))) [At_gate]"
    unfolding s(4) by (rule signalled.nobody) simp
  define e where "e = on_threads (\<lambda>c. c\<lparr>fc_queue := q', fc_todo := tl (fc_todo c), fc_workers := [At_gate]\<rparr>) ((env s)\<lparr>entries := es\<rparr>)"
  have "walk_step h (env s) e"
    unfolding e_def by (rule walk_step.push [OF s(3) _ q'(1) sig]) (use assms(5) s(5) in simp)
  then have step: "fcopy_step h s (s\<lparr>env := e\<rparr>)"
    using assms(1,2) s(2) by (intro fcopy_step.walk solo_active) (auto simp: solo_state_def)
  show ?thesis
    by (rule that [of "s\<lparr>env := e\<rparr>"])
      (use solo_step [OF assms(1) step] assms(1-3) q' s(2) in \<open>auto simp: solo_state_def quiet_step_def e_def\<close>)
qed

lemma solo_finish:
  assumes "solo_state h argv js v x s" "so_main x = Walking" "so_worker x = At_gate" "so_tree x = []"
  obtains s' where "solo_state h argv js v (x\<lparr>so_main := Joining 0\<rparr>) s'"
proof -
  define e where "e = on_threads (\<lambda>c. c\<lparr>fc_queue := job_queue_finish (fc_queue c), fc_walker := Walked,
      fc_workers := wake_all (fc_workers c)\<rparr>) ((env s)\<lparr>main_pc := Joining 0\<rparr>)"
  have "walk_step h (env s) e" unfolding e_def by (rule walk_step.finish) (use assms(1,4) in \<open>simp add: solo_state_def\<close>)
  then have step: "fcopy_step h s (s\<lparr>env := e\<rparr>)"
    using assms(1,2) by (intro fcopy_step.walk solo_active) (auto simp: solo_state_def)
  show ?thesis
    by (rule that [of "s\<lparr>env := e\<rparr>"])
      (use solo_step [OF assms(1) step] assms in \<open>auto simp: solo_state_def e_def wake_all_def\<close>)
qed


lemma gate_open:
  assumes "prog_ok h n js s" "healthy s" "i < n"
  obtains t where "fdir_worker_may_run (word_of_nat i) s = Some (1, t)" "called h n js s t" "healthy t"
    "quiet_step [Call_lock, Call_unlock, Call_lock, Call_unlock] s t"
proof -
  let ?x = "fdir_port_sync_exit (fdir_port_sync_enter s)"
  have live: "live s" and mild: "mild s" and n: "unat (g_entity_count s) = n"
    using assms(1) by (simp_all add: prog_ok_def lib_ok_def fcopy_hooks_def)
  have "registered (word_of_nat i) ?x"
    using assms(3) n prog_facts(3) [OF assms(1)] by (simp add: registered_def word_less_nat_alt unsigned_of_nat take_bit_nat_eq_self)
  then have "\<not> failed (word_of_nat i) (hl ?x)" using assms(2) by (simp add: healthy_def registered_def)
  moreover have "g_mode s < FDIR_MODE_SAFE" "\<not> FDIR_MODE_SAFE \<le> g_mode s" using mild by (auto simp: mild_def fdir_mode_order)
  moreover have "fdir_inv ?x" using liveD(1) [of ?x] live by simp
  ultimately have r: "fdir_worker_may_run (word_of_nat i) s = Some (1, fdir_port_sync_exit (fdir_port_sync_enter ?x))"
    using \<open>registered (word_of_nat i) ?x\<close>
    by (simp add: fdir_worker_may_run_def system_mode_eq entity_may_run_eq)
  then have "called h n js s (fdir_port_sync_exit (fdir_port_sync_enter ?x))"
    using program_calls(1) [OF assms(1), of "word_of_nat i"] by simp
  moreover have "quiet_step [Call_lock, Call_unlock, Call_lock, Call_unlock] s (fdir_port_sync_exit (fdir_port_sync_enter ?x))"
    using assms(1) by (simp add: quiet_step_def prog_ok_def lib_ok_def live_def fcopy_hooks_def fdir_port_sync_enter_def fdir_port_sync_exit_def
        fdir_app_port_def ext_def port_lock_def port_unlock_def)
  ultimately show ?thesis using that [OF r] assms(2) by simp
qed

lemma solo_worker:
  assumes "solo_state h argv js v x s" "worker_thread h 0 s = Some s'"
  shows "fcopy_step h s s'"
  by (rule fcopy_step.worker [OF solo_active [OF assms(1)] _ assms(2)])
    (use assms(1) prog_facts(4) [of h 1 js s] in \<open>simp add: solo_state_def\<close>)

lemma solo_entity: "solo_state h argv js v x s \<Longrightarrow> wc_entity (g_workers (env s) ! 0) = word_of_nat 0"
  using prog_facts(5) [of h 1 js s] by (simp add: solo_state_def ctx_ok_def)

lemma solo_gate:
  assumes "solo_state h argv js v x s" "so_worker x = At_gate"
  obtains s' where "solo_state h argv js v (x\<lparr>so_worker := Popping\<rparr>) s'"
    "quiet_step [Call_lock, Call_unlock, Call_lock, Call_unlock] s s'"
proof -
  have s: "prog_ok h 1 js s" "healthy s" "fc_workers (threads (env s)) = [At_gate]"
    using assms by (auto simp: solo_state_def)
  obtain t where t: "fdir_worker_may_run (word_of_nat 0) s = Some (1, t)" "called h 1 js s t" "healthy t"
    "quiet_step [Call_lock, Call_unlock, Call_lock, Call_unlock] s t"
    by (rule gate_open [OF s(1,2)]) simp
  note c = called_facts [OF t(2)]
  let ?s = "t\<lparr>env := on_threads (station 0 Popping) (env t)\<rparr>"
  have "worker_thread h 0 s = Some ?s"
    using t(1) solo_entity [OF assms(1)] s(3) by (simp add: worker_thread_def)
  from solo_step [OF assms(1) solo_worker [OF assms(1) this]] assms c t(3) show ?thesis
    by (intro that [of ?s] quiet_env [OF t(4)]) (auto simp: solo_state_def station_def)
qed

lemma solo_pop:
  assumes "solo_state h argv js v x s" "so_worker x = Popping" "so_queue x = job # rest"
  obtains s' where "solo_state h argv js v (x\<lparr>so_worker := Copying job, so_queue := rest\<rparr>) s'" "quiet_step [] s s'"
proof -
  let ?q = "fc_queue (threads (env s))"
  have s: "prog_ok h 1 js s" "fc_workers (threads (env s)) = [Popping]" "waiting_jobs ?q = job # rest"
    using assms by (auto simp: solo_state_def)
  note inv = prog_facts(7) [OF s(1)]
  have "count ?q \<noteq> 0" using waiting_jobs_Nil [OF inv] s(3) by auto
  from pop_some [OF inv this, of zero_job] s(3)
  obtain q' where q': "job_queue_pop zero_job ?q = Some (Done ((1, job), q'))" "waiting_jobs q' = rest" "producer_done q' = producer_done ?q"
    by (metis list.sel(1,3))
  let ?f = "\<lambda>c. c\<lparr>fc_queue := q', fc_workers := (fc_workers c)[0 := Copying job], fc_taken := fc_taken c @ [job],
      fc_walker := wake_walker (fc_walker c)\<rparr>"
  have "worker_thread h 0 s = Some (s\<lparr>env := on_threads ?f (env s)\<rparr>)"
    using q'(1) s(2) by (simp add: worker_thread_def)
  from solo_step [OF assms(1) solo_worker [OF assms(1) this]] assms q' show ?thesis
    by (intro that [of "s\<lparr>env := on_threads ?f (env s)\<rparr>"]) (auto simp: solo_state_def quiet_step_def wake_walker_def)
qed

lemma solo_drained:
  assumes "solo_state h argv js v x s" "so_worker x = Popping" "so_queue x = []" "so_main x = Joining 0"
  obtains s' where "solo_state h argv js v (x\<lparr>so_worker := Exited\<rparr>) s'" "wc_active (g_workers (env s') ! 0) = 0"
proof -
  let ?q = "fc_queue (threads (env s))"
  have s: "prog_ok h 1 js s" "fc_workers (threads (env s)) = [Popping]" "waiting_jobs ?q = []" "producer_done ?q \<noteq> 0"
    using assms by (auto simp: solo_state_def)
  have q: "job_queue_pop zero_job ?q = Some (Done ((0, zero_job), ?q))"
    using pop_empty [of ?q zero_job] waiting_jobs_Nil [OF prog_facts(7) [OF s(1)]] s(3,4) by auto
  let ?f = "\<lambda>c. c\<lparr>fc_queue := ?q, fc_workers := wake_all ((fc_workers c)[0 := Exited])\<rparr>"
  let ?s = "s\<lparr>env := worker_exit 0 (on_threads ?f (env s))\<rparr>"
  have "length (g_workers (env s)) = 16" using prog_facts(5) [OF s(1)] by (simp add: ctx_ok_def)
  moreover have w: "worker_thread h 0 s = Some ?s" using q s(2) by (simp add: worker_thread_def)
  ultimately show ?thesis
    using assms solo_step [OF assms(1) solo_worker [OF assms(1) w]] by (intro that [of ?s]) (auto simp: solo_state_def worker_exit_def wake_all_def)
qed

lemma solo_copied:
  assumes "solo_state h argv js v x s" "so_worker x = Copying job"
    "\<And>w. \<exists>w'. copy_file (sys h) (cstr (cj_src job)) (cstr (cj_dst job)) w = Some (0, w')"
  obtains s' where "solo_state h argv js v (x\<lparr>so_worker := At_gate, so_copied := job # so_copied x\<rparr>) s'"
proof -
  have s: "prog_ok h 1 js s" "healthy s" "fc_workers (threads (env s)) = [Copying job]"
    using assms(1,2) by (auto simp: solo_state_def)
  obtain w where w: "copy_file (sys h) (cstr (cj_src job)) (cstr (cj_dst job)) (world (env s)) = Some (0, w)"
    using assms(3) by blast
  let ?s = "s\<lparr>env := (env s)\<lparr>world := w\<rparr>\<rparr>"
  have s': "prog_ok h 1 js ?s" by (rule prog_ok_env [OF s(1)]) (use prog_okD [OF s(1)] in simp)
  obtain t where t: "fdir_health_heartbeat_notify (word_of_nat 0) ?s = Some t" "called h 1 js ?s t"
    using program_calls(3) [OF s', of "word_of_nat 0"] by (auto simp: returns_def)
  note c = called_facts [OF t(2)]
  have "healthy t"
    using keepsD [OF heartbeat_healthy t(1)] s' s(2) liveD(1) by (auto simp: prog_ok_def lib_ok_def)
  moreover let ?t = "t\<lparr>env := on_threads (\<lambda>c. (station 0 At_gate c)\<lparr>fc_copied := job # fc_copied c\<rparr>) (env t)\<rparr>"
  have wt: "worker_thread h 0 s = Some ?t"
    using t(1) w solo_entity [OF assms(1)] s(3) by (simp add: worker_thread_def)
  ultimately show ?thesis
    using assms(1,2) c solo_step [OF assms(1) solo_worker [OF assms(1) wt]]
    by (intro that [of ?t]) (auto simp: solo_state_def station_def)
qed

lemma solo_failed:
  assumes "solo_state h argv js v x s" "so_worker x = Copying job"
    "\<And>w. \<exists>rc w'. copy_file (sys h) (cstr (cj_src job)) (cstr (cj_dst job)) w = Some (rc, w') \<and> rc \<noteq> 0"
  obtains s' where "solo_state h argv js v (x\<lparr>so_worker := Exited, so_failures := job # so_failures x\<rparr>) s'"
    "wc_active (g_workers (env s') ! 0) = 0"
proof -
  have s: "prog_ok h 1 js s" "fc_workers (threads (env s)) = [Copying job]"
    using assms(1,2) by (auto simp: solo_state_def)
  obtain rc w where w: "copy_file (sys h) (cstr (cj_src job)) (cstr (cj_dst job)) (world (env s)) = Some (rc, w)" "rc \<noteq> 0"
    using assms(3) by blast
  let ?s = "s\<lparr>env := (env s)\<lparr>world := w\<rparr>\<rparr>"
  have s': "prog_ok h 1 js ?s" by (rule prog_ok_env [OF s(1)]) (use prog_okD [OF s(1)] in simp)
  obtain st t where t: "fdir_report_fault (word_of_nat 0) FDIR_REASON_IO_ERROR (word_of_int (errno h w)) (Some (cj_src job)) ?s = Some (st, t)"
    "called h 1 js ?s t"
    using program_calls(2) [OF s', of "word_of_nat 0" FDIR_REASON_IO_ERROR "word_of_int (errno h w)" "Some (cj_src job)"]
    by (auto simp: returns_def)
  note c = called_facts [OF t(2)]
  let ?t = "t\<lparr>env := worker_exit 0 (on_threads (\<lambda>c. (station 0 Exited c)\<lparr>fc_failures := job # fc_failures c\<rparr>) (env t))\<rparr>"
  have wt: "worker_thread h 0 s = Some ?t"
    using t(1) w solo_entity [OF assms(1)] s(2) by (simp add: worker_thread_def del: fdir_report_fault_def)
  have "length (g_workers (env s)) = 16" using prog_facts(5) [OF s(1)] by (simp add: ctx_ok_def)
  then show ?thesis
    using assms(1,2) c solo_step [OF assms(1) solo_worker [OF assms(1) wt]]
    by (intro that [of ?t]) (auto simp: solo_state_def station_def worker_exit_def)
qed

text \<open>The worker has ended: the main thread sees it, stops the supervisor and returns.\<close>

lemma solo_end:
  assumes "solo_state h argv js v x s" "so_main x = Joining 0" "wc_active (g_workers (env s) ! 0) = 0"
  obtains s' where "fcopy_exec h argv js s'" "main_pc (env s') = Returned 0" "threads (env s') = threads (env s)"
proof -
  have s: "prog_ok h 1 js s" "main_pc (env s) = Joining 0" "halt (env s) = Running" "sup_pc (env s) = Sup_loop" "fcopy_exec h argv js s"
    using assms(1,2) by (auto simp: solo_state_def)
  note n = prog_facts(4) [OF s(1)]
  let ?a = "s\<lparr>env := (env s)\<lparr>main_pc := Joining 1\<rparr>\<rparr>"
  let ?b = "s\<lparr>env := (env s)\<lparr>main_pc := Stopping, g_running := 0\<rparr>\<rparr>"
  let ?c = "s\<lparr>env := (env s)\<lparr>main_pc := Stopping, g_running := 0, sup_pc := Sup_ended\<rparr>\<rparr>"
  have a: "fcopy_step h s ?a"
    using s assms(3) n by (intro fcopy_step.main) (simp_all add: active_def main_thread_def worker_wait_all_def Let_def)
  have b: "fcopy_step h ?a ?b"
    using s n by (intro fcopy_step.main) (simp_all add: active_def main_thread_def worker_wait_all_def Let_def)
  have c: "fcopy_step h ?b ?c"
    using s by (intro fcopy_step.supervisor) (simp_all add: active_def supervisor_thread_def)
  have ok: "prog_ok h 1 js ?c" using step_ok a b c s(1) by blast
  obtain t where t: "fdir_system_mode ?c = (g_mode ?c, t)" "called h 1 js ?c t" "\<not> FDIR_MODE_SAFE \<le> g_mode ?c"
    by (rule mode_call [OF ok])
  have d: "fcopy_step h ?c (return_from_main 0 t)"
    using s t(1,3) by (intro fcopy_step.main) (simp_all add: active_def main_thread_def worker_wait_all_def Let_def)
  have "fcopy_exec h argv js (return_from_main 0 t)"
    using s(5) a b c d fcopy_exec.step by metis
  with called_facts(2) [OF t(2)] show ?thesis
    by (intro that [of "return_from_main 0 t"]) (simp_all add: return_from_main_def)
qed


text \<open>A platform on which nothing but copying can fail, and a command line for one worker.\<close>

definition able :: "'w host \<Rightarrow> walk_entry list \<Rightarrow> bool" where
  "able h es \<longleftrightarrow> (\<forall>w. fst (pthread_create h w) = 0) \<and> (\<forall>p w. fst (stat_dir h p w) = (0, True)) \<and>
     (\<forall>p w. fst (mkdir h p w) = 0) \<and> (\<forall>p w. nftw h p w = es)"

definition solo_args :: "string list" where
  "solo_args = [''fcopy'', ''from'', ''to'', ''--workers'', ''1'']"

lemma solo_start:
  fixes h :: "'w host"
  assumes "able h es"
  obtains v s where "cstr (g_src_root v) = ''from''"
    "solo_state h solo_args (jobs_of v es) v
       \<lparr>so_main = Walking, so_worker = At_gate, so_queue = [], so_tree = es, so_copied = [], so_failures = []\<rparr> s"
    "g_nworkers v = 1" "start_copy h ((fcopy_boot q w)\<lparr>env := (env (fcopy_boot q w))\<lparr>vars := v,
       world := snd (mkdir h (cstr (g_dst_root v)) (snd (stat_dir h ''from'' w)))\<rparr>\<rparr>) = Some s"
proof -
  let ?b = "fcopy_boot q w"
  define v where "v = \<lparr>g_src_root = path_buf ''from'', g_dst_root = path_buf ''to'', g_nworkers = 1, messages = []\<rparr>"
  have c: "cstr ''from'' = ''from''" "worker_counts [''--workers'', ''1''] = Some [1]" by code_simp+
  have v: "parse_args solo_args fcopy_statics = Some (0, v)"
    unfolding parse_args_accepts by (simp add: solo_args_def c v_def del: worker_counts.simps)
  obtain root where root: "strip_slash (g_src_root v) = Some root" "cstr root = ''from''"
    by (rule strip_slash_root [of "g_src_root v"]) (simp_all add: v_def c path_buf_props)
  define v' where "v' = v\<lparr>g_src_root := root\<rparr>"
  obtain w1 where st: "stat_dir h ''from'' w = ((0, True), w1)" using assms by (metis able_def prod.collapse)
  obtain w2 where mk: "mkdir h (cstr (g_dst_root v)) w1 = (0, w2)" using assms by (metis able_def prod.collapse)
  let ?s = "?b\<lparr>env := (env ?b)\<lparr>vars := v', world := w2\<rparr>\<rparr>"
  have b: "vars (env ?b) = fcopy_statics" "main_pc (env ?b) = Setup" "halt (env ?b) = Running" "g_running (env ?b) = 1"
    "length (g_workers (env ?b)) = 16" "calls ?b = []" "world (env ?b) = w" "fc_queue (threads (env ?b)) = q"
    by (simp_all add: fcopy_boot_def fdir_boot_def)
  have eq: "fcopy_main h solo_args ?b = start_copy h ?s"
    using v root st mk b by (simp add: fcopy_main_def Let_def v'_def)
  have n: "g_nworkers v' = 1" by (simp add: v'_def v_def)
  have "returns (start_copy h ?s) (\<lambda>t. (\<exists>u. setup_ok h 1 q v' 1 u \<and> t = begin_walk h u) \<or>
      gave_up t \<and> (\<exists>w. fst (pthread_create h w) \<noteq> 0))"
    using start_copy_ok [of ?s h] n b by simp
  then obtain u where u: "start_copy h ?s = Some (begin_walk h u)" "setup_ok h 1 q v' 1 u"
    using assms by (elim returnsE) (auto simp: able_def)
  obtain w3 where pc: "pthread_create h (world (env u)) = (0, w3)" using assms by (metis able_def prod.collapse)
  have tree: "nftw h p w3 = es" for p using assms by (simp add: able_def)
  have t: "fc_todo (threads (env (begin_walk h u))) = jobs_of v' es" "healthy (begin_walk h u)"
    "halt (env (begin_walk h u)) = Running" "sup_pc (env (begin_walk h u)) = Sup_loop" "vars (env (begin_walk h u)) = v'"
    "entries (env (begin_walk h u)) = es" "threads (env (begin_walk h u)) = fcopy_start 1 (jobs_of v' es) q"
    using u(2) by (simp_all add: begin_walk_def setup_ok_def fcopy_start_def Let_def pc tree)
  have "fcopy_exec h solo_args (jobs_of v' es) (begin_walk h u)"
    using fcopy_exec.start [of h solo_args q w "begin_walk h u"] eq u(1) t(1) by simp
  moreover have "prog_ok h 1 (jobs_of v' es) (begin_walk h u)" using begin_walk_ok [OF u(2)] n t(1) by simp
  moreover have "cstr (g_src_root v') = ''from''" using root(2) by (simp add: v'_def)
  moreover have "snd (mkdir h (cstr (g_dst_root v')) (snd (stat_dir h ''from'' w))) = w2" using st mk by (simp add: v'_def)
  ultimately show ?thesis
    using t u(1) n by (intro that [of v' "begin_walk h u"]) (auto simp: solo_state_def fcopy_start_def)
qed


subsection \<open>A platform\<close>

text \<open>A tree of files that can be opened and are empty, or that cannot be opened.\<close>

definition simple_host :: "bool \<Rightarrow> string list \<Rightarrow> unit host" where
  "simple_host readable paths =
     \<lparr>sys = \<lparr>sys_open = \<lambda>_ _ _ w. (if readable then 3 else -1, w), sys_fstat = \<lambda>_ w. ((0, 0), w),
        sys_read = \<lambda>_ _ w. (Some [], w), sys_write = \<lambda>_ _ w. (-1, w), sys_close = \<lambda>_ w. (0, w)\<rparr>,
      clock_gettime = \<lambda>w. ((0, 0), w), errno = \<lambda>_. 5, pthread_create = \<lambda>w. (0, w),
      stat_dir = \<lambda>_ w. ((0, True), w), mkdir = \<lambda>_ w. (0, w), EEXIST = 17, strerror = \<lambda>_. ''error'',
      nftw = \<lambda>_ _. map (\<lambda>p. (p, FTW_F, zero_job)) paths\<rparr>"

lemma simple_able: "able (simple_host readable paths) (map (\<lambda>p. (p, FTW_F, zero_job)) paths)"
  by (simp add: able_def simple_host_def)

lemma simple_copy:
  "copy_file (sys (simple_host True paths)) src dst w = Some (0, w)"
  "copy_file (sys (simple_host False paths)) src dst w = Some (-1, w)"
  by (simp_all add: copy_file_def copy_loop.simps simple_host_def)

lemma walk_pushes:
  assumes "cstr (g_src_root v) = ''from''" "cstr p = ''from'' @ rel"
  obtains job where "walk_cb v p FTW_F junk = Some (Walk_push job)"
  using assms by (simp add: walk_cb_def str_from_def)

text \<open>The only file of the tree is copied.\<close>

lemma copying_run:
  obtains job s where "fcopy_exec (simple_host True [''from/a'']) solo_args [job] s" "main_pc (env s) = Returned 0"
    "fc_failures (threads (env s)) = []"
proof -
  let ?h = "simple_host True [''from/a'']"
  obtain v s0 where v: "cstr (g_src_root v) = ''from''" and s0: "solo_state ?h solo_args (jobs_of v [(''from/a'', FTW_F, zero_job)]) v
       \<lparr>so_main = Walking, so_worker = At_gate, so_queue = [], so_tree = [(''from/a'', FTW_F, zero_job)], so_copied = [], so_failures = []\<rparr> s0"
    by (rule solo_start [OF simple_able [of True "[''from/a'']"]]) simp
  have c: "cstr ''from/a'' = ''from'' @ ''/a''" by code_simp
  obtain job where job: "walk_cb v ''from/a'' FTW_F zero_job = Some (Walk_push job)" by (rule walk_pushes [OF v c])
  then have js: "jobs_of v [(''from/a'', FTW_F, zero_job)] = [job]" by (simp add: jobs_of_def)
  obtain s1 where s1: "solo_state ?h solo_args [job] v
      \<lparr>so_main = Walking, so_worker = At_gate, so_queue = [job], so_tree = [], so_copied = [], so_failures = []\<rparr> s1"
    by (rule solo_push [OF s0 _ _ _ job]) (simp_all add: js)
  obtain s2 where s2: "solo_state ?h solo_args [job] v
      \<lparr>so_main = Joining 0, so_worker = At_gate, so_queue = [job], so_tree = [], so_copied = [], so_failures = []\<rparr> s2"
    by (rule solo_finish [OF s1]) simp_all
  obtain s3 where s3: "solo_state ?h solo_args [job] v
      \<lparr>so_main = Joining 0, so_worker = Popping, so_queue = [job], so_tree = [], so_copied = [], so_failures = []\<rparr> s3"
    by (rule solo_gate [OF s2]) simp_all
  obtain s4 where s4: "solo_state ?h solo_args [job] v
      \<lparr>so_main = Joining 0, so_worker = Copying job, so_queue = [], so_tree = [], so_copied = [], so_failures = []\<rparr> s4"
    by (rule solo_pop [OF s3]) simp_all
  obtain s5 where s5: "solo_state ?h solo_args [job] v
      \<lparr>so_main = Joining 0, so_worker = At_gate, so_queue = [], so_tree = [], so_copied = [job], so_failures = []\<rparr> s5"
    by (rule solo_copied [OF s4]) (simp_all add: simple_copy)
  obtain s6 where s6: "solo_state ?h solo_args [job] v
      \<lparr>so_main = Joining 0, so_worker = Popping, so_queue = [], so_tree = [], so_copied = [job], so_failures = []\<rparr> s6"
    by (rule solo_gate [OF s5]) simp_all
  obtain s7 where s7: "solo_state ?h solo_args [job] v
      \<lparr>so_main = Joining 0, so_worker = Exited, so_queue = [], so_tree = [], so_copied = [job], so_failures = []\<rparr> s7"
    "wc_active (g_workers (env s7) ! 0) = 0"
    by (rule solo_drained [OF s6]) simp_all
  obtain s8 where s8: "fcopy_exec ?h solo_args [job] s8" "main_pc (env s8) = Returned 0" "threads (env s8) = threads (env s7)"
    by (rule solo_end [OF s7(1) _ s7(2)]) simp_all
  from s7(1) s8(3) have "fc_failures (threads (env s8)) = []" by (simp add: solo_state_def)
  from that [OF s8(1,2) this] show ?thesis .
qed

text \<open>The first file cannot be opened; the second one is left in the queue.\<close>

lemma abandoning_run:
  obtains a b s where "fcopy_exec (simple_host False [''from/a'', ''from/b'']) solo_args [a, b] s"
    "main_pc (env s) = Returned 0" "fc_copied (threads (env s)) = []" "fc_failures (threads (env s)) = [a]"
    "waiting_jobs (fc_queue (threads (env s))) = [b]"
proof -
  let ?h = "simple_host False [''from/a'', ''from/b'']"
  let ?es = "[(''from/a'', FTW_F, zero_job), (''from/b'', FTW_F, zero_job)]"
  obtain v s0 where v: "cstr (g_src_root v) = ''from''" and s0: "solo_state ?h solo_args (jobs_of v ?es) v
       \<lparr>so_main = Walking, so_worker = At_gate, so_queue = [], so_tree = ?es, so_copied = [], so_failures = []\<rparr> s0"
    by (rule solo_start [OF simple_able [of False "[''from/a'', ''from/b'']"]]) simp
  have c: "cstr ''from/a'' = ''from'' @ ''/a''" "cstr ''from/b'' = ''from'' @ ''/b''" by code_simp+
  obtain a where a: "walk_cb v ''from/a'' FTW_F zero_job = Some (Walk_push a)" by (rule walk_pushes [OF v c(1)])
  obtain b where b: "walk_cb v ''from/b'' FTW_F zero_job = Some (Walk_push b)" by (rule walk_pushes [OF v c(2)])
  have js: "jobs_of v ?es = [a, b]" using a b by (simp add: jobs_of_def)
  obtain s1 where s1: "solo_state ?h solo_args [a, b] v
      \<lparr>so_main = Walking, so_worker = At_gate, so_queue = [a], so_tree = tl ?es, so_copied = [], so_failures = []\<rparr> s1"
    by (rule solo_push [OF s0 _ _ _ a]) (simp_all add: js)
  obtain s2 where s2: "solo_state ?h solo_args [a, b] v
      \<lparr>so_main = Walking, so_worker = At_gate, so_queue = [a, b], so_tree = [], so_copied = [], so_failures = []\<rparr> s2"
    by (rule solo_push [OF s1 _ _ _ b]) simp_all
  obtain s3 where s3: "solo_state ?h solo_args [a, b] v
      \<lparr>so_main = Joining 0, so_worker = At_gate, so_queue = [a, b], so_tree = [], so_copied = [], so_failures = []\<rparr> s3"
    by (rule solo_finish [OF s2]) simp_all
  obtain s4 where s4: "solo_state ?h solo_args [a, b] v
      \<lparr>so_main = Joining 0, so_worker = Popping, so_queue = [a, b], so_tree = [], so_copied = [], so_failures = []\<rparr> s4"
    by (rule solo_gate [OF s3]) simp_all
  obtain s5 where s5: "solo_state ?h solo_args [a, b] v
      \<lparr>so_main = Joining 0, so_worker = Copying a, so_queue = [b], so_tree = [], so_copied = [], so_failures = []\<rparr> s5"
    by (rule solo_pop [OF s4]) simp_all
  obtain s6 where s6: "solo_state ?h solo_args [a, b] v
      \<lparr>so_main = Joining 0, so_worker = Exited, so_queue = [b], so_tree = [], so_copied = [], so_failures = [a]\<rparr> s6"
    "wc_active (g_workers (env s6) ! 0) = 0"
    by (rule solo_failed [OF s5]) (simp_all add: simple_copy)
  obtain s7 where s7: "fcopy_exec ?h solo_args [a, b] s7" "main_pc (env s7) = Returned 0" "threads (env s7) = threads (env s6)"
    by (rule solo_end [OF s6(1) _ s6(2)]) simp_all
  from s6(1) have "fc_copied (threads (env s6)) = []" "fc_failures (threads (env s6)) = [a]"
    "waiting_jobs (fc_queue (threads (env s6))) = [b]" by (simp_all add: solo_state_def)
  with s7(3) show ?thesis by (intro that [OF s7(1,2)]) simp_all
qed

end
