(* ===== verification/Fcopy_Promises.thy ===== *)
theory Fcopy_Promises
  imports Fcopy_Solo
begin

text \<open>
  What the file copy program promises, and what it does not: its properties as a whole, for every
  platform, every tree and every order of its threads' steps.
\<close>

text \<open>
  C31. The whole program, with the library and its callbacks, implements the threads around the job queue:
  unless \<open>main\<close> gives up before the walk, its number of workers is between 1 and 16, and the state of its
  threads after any run is one that the abstract system of the walker and these workers reaches for the
  jobs of the tree. The library is in order after every step.
\<close>

theorem fcopy_refines:
  assumes "fcopy_exec h argv js s" "main_pc (env s) \<noteq> Returned 1"
  shows "\<exists>n. 1 \<le> n \<and> n \<le> 16 \<and> nat (g_nworkers (vars (env s))) = n \<and> fcopy_run n js (threads (env s)) \<and> live s"
proof -
  obtain n where n: "1 \<le> n" "prog_ok h n js s" using exec_ok [OF assms(1)] assms(2) by (auto simp: gave_up_def)
  from n prog_facts(2-4) [OF n(2)] show ?thesis by (auto simp: prog_ok_def lib_ok_def)
qed

theorem fcopy_refines_witness:
  "\<exists>job s n. fcopy_exec (simple_host True [''from/a'']) solo_args [job] s \<and> main_pc (env s) = Returned 0 \<and>
     n \<ge> 1 \<and> fcopy_run n [job] (threads (env s))"
proof (rule copying_run)
  fix job s
  assume s: "fcopy_exec (simple_host True [''from/a'']) solo_args [job] s" "main_pc (env s) = Returned 0"
  with fcopy_refines [OF s(1)] show ?thesis by auto
qed

text \<open>
  C33. The program never escalates, whatever the platform, the copies and the restarts do: the mode stays
  below SAFE and the supervisor's abort is never taken. \<open>main\<close> returns nothing but 0, unless it gives up
  during the set-up: then it returns 1, and no step of the walk or of the threads is made after the set-up.
\<close>

theorem fcopy_never_safe:
  assumes "fcopy_exec h argv js s"
  shows "g_mode s < FDIR_MODE_SAFE \<and> \<not> fc_aborted (threads (env s)) \<and>
     (case main_pc (env s) of
        Returned rc \<Rightarrow> rc = 0 \<or> rc = 1 \<and> js = [] \<and> (\<exists>q w. fcopy_main h argv (fcopy_boot q w) = Some s)
      | _ \<Rightarrow> True)"
  using exec_ok [OF assms]
proof
  assume "\<exists>n\<ge>1. prog_ok h n js s"
  then obtain n where n: "prog_ok h n js s" by blast
  then have "g_mode s < FDIR_MODE_SAFE" by (auto simp: prog_ok_def intro: lib_ok_below)
  with prog_facts(8,10) [OF n] show ?thesis by (cases "main_pc (env s)") simp_all
qed (simp add: gave_up_def)

theorem fcopy_never_safe_witness:
  "\<exists>a b s. fcopy_exec (simple_host False [''from/a'', ''from/b'']) solo_args [a, b] s \<and>
     fc_failures (threads (env s)) = [a] \<and> g_mode s < FDIR_MODE_SAFE"
proof (rule abandoning_run)
  fix a b s
  assume s: "fcopy_exec (simple_host False [''from/a'', ''from/b'']) solo_args [a, b] s" "fc_failures (threads (env s)) = [a]"
  with fcopy_never_safe [OF s(1)] show ?thesis by auto
qed

text \<open>
  C30. When \<open>main\<close> has returned 0 and no copy failed, every file of the tree has been copied exactly
  once.
\<close>

theorem fcopy_done_complete:
  assumes "fcopy_exec h argv js s" "main_pc (env s) = Returned 0" "fc_failures (threads (env s)) = []"
  shows "mset (fc_copied (threads (env s))) = mset js"
proof -
  let ?c = "threads (env s)"
  obtain n where n: "1 \<le> n" "prog_ok h n js s" using exec_ok [OF assms(1)] assms(2) by (auto simp: gave_up_def)
  note run = run_facts [OF prog_facts(2) [OF n(2)]]
  have "passed_ok n ?c" using prog_okD [OF n(2)] assms(2) by (simp add: app_inv_def)
  then have d: "waiting_jobs (fc_queue ?c) = []" "fc_todo ?c = []" "\<forall>j<n. carried_by (fc_workers ?c ! j) = {#}"
    using n(1) assms(3) by (simp_all add: passed_ok_def)
  have "carried (fc_workers ?c) = {#}"
    using d(3) run(3) by (intro carried_idle) (auto simp: in_set_conv_nth)
  with run(1,2) d(1,2) assms(3) show ?thesis by (auto simp: fcopy_inv_def copies_inv_def)
qed

theorem fcopy_done_complete_witness:
  "\<exists>job s. fcopy_exec (simple_host True [''from/a'']) solo_args [job] s \<and> main_pc (env s) = Returned 0 \<and>
     fc_copied (threads (env s)) = [job]"
proof (rule copying_run)
  fix job s
  assume s: "fcopy_exec (simple_host True [''from/a'']) solo_args [job] s" "main_pc (env s) = Returned 0"
    "fc_failures (threads (env s)) = []"
  with fcopy_done_complete [OF s] show ?thesis by auto
qed

text \<open>
  C32. At most four copies fail for each worker, however long the run is: every failed copy ends a thread,
  and the library restarts a worker at most three times, twice after a report and once after a watchdog
  timeout. The bound is on the copies that were tried and failed, not on the files that were never tried.
\<close>

theorem fcopy_failures_bounded:
  assumes "fcopy_exec h argv js s"
  shows "length (fc_failures (threads (env s))) \<le> 4 * nat (g_nworkers (vars (env s)))"
  using exec_ok [OF assms]
proof
  assume "\<exists>n\<ge>1. prog_ok h n js s"
  then obtain n where n: "prog_ok h n js s" by blast
  have "all_restarts n (calls s) \<le> 3 * n" using lib_ok_restarts prog_facts(3) [OF n] n by (auto simp: prog_ok_def)
  with prog_okD [OF n] show ?thesis by (auto simp: app_inv_def)
qed (simp add: gave_up_def)

theorem fcopy_failures_bounded_witness:
  "\<exists>a b s. fcopy_exec (simple_host False [''from/a'', ''from/b'']) solo_args [a, b] s \<and>
     fc_failures (threads (env s)) = [a] \<and> length (fc_failures (threads (env s))) \<le> 4 * nat (g_nworkers (vars (env s)))"
proof (rule abandoning_run)
  fix a b s
  assume s: "fcopy_exec (simple_host False [''from/a'', ''from/b'']) solo_args [a, b] s" "fc_failures (threads (env s)) = [a]"
  with fcopy_failures_bounded [OF s(1)] show ?thesis by blast
qed

text \<open>
  C34. The success of a run means little: there is a tree of two files, of which the first cannot be
  opened, for which \<open>main\<close> can return 0 while nothing has been copied and the second file still waits in
  the queue. The only worker has ended, and \<open>worker_wait_all\<close> passes over a worker that is not active.
\<close>

theorem done_with_jobs_left:
  "\<exists>a b s. fcopy_exec (simple_host False [''from/a'', ''from/b'']) solo_args [a, b] s \<and> main_pc (env s) = Returned 0 \<and>
     fc_copied (threads (env s)) = [] \<and> waiting_jobs (fc_queue (threads (env s))) = [b]"
  by (rule abandoning_run) blast

end
