(* ===== verification/Fcopy_Deadlock.thy ===== *)
theory Fcopy_Deadlock
  imports Fcopy_Solo
begin

text \<open>
  A run of the file copy program into a deadlock. The library calls the restart callback of a worker with
  the port lock held; the callback joins the worker's thread, and the thread may still be copying a file.
  The state of the library is evaluated; the job queue and the paths stay variables.
\<close>

subsection \<open>A platform\<close>

text \<open>
  A tree of one file, which can be opened and is empty, on a platform on which ten seconds pass between
  any two readings of the clock; \<open>junk\<close> is what the buffers of the walk hold before they are written.
\<close>

definition slow_host :: "copy_job \<Rightarrow> nat host" where
  "slow_host junk =
     \<lparr>sys = \<lparr>sys_open = \<lambda>_ _ _ w. (3, w), sys_fstat = \<lambda>_ w. ((0, 0), w),
        sys_read = \<lambda>_ _ w. (Some [], w), sys_write = \<lambda>_ _ w. (-1, w), sys_close = \<lambda>_ w. (0, w)\<rparr>,
      clock_gettime = \<lambda>w. ((int w, 0), w + 10), errno = \<lambda>_. 5, pthread_create = \<lambda>w. (0, w),
      stat_dir = \<lambda>_ w. ((0, True), w), mkdir = \<lambda>_ w. (0, w), EEXIST = 17, strerror = \<lambda>_. ''error'',
      nftw = \<lambda>_ _. [(''from/a'', FTW_F, junk)]\<rparr>"

lemma slow_able: "able (slow_host junk) [(''from/a'', FTW_F, junk)]"
  by (simp add: able_def slow_host_def)

lemma slow_simps [simp]:
  "pthread_create (slow_host junk) w = (0, w)" "snd (mkdir (slow_host junk) p w) = w"
  "snd (stat_dir (slow_host junk) p w) = w"
  "copy_file (sys (slow_host junk)) src dst w = Some (0, w)"
  by (simp_all add: slow_host_def copy_file_def copy_loop.simps)


subsection \<open>The library at the start and in a later tick\<close>

definition slow_env :: "fcopy_vars \<Rightarrow> fcopy \<Rightarrow> worker_ctx list \<Rightarrow> walk_entry list \<Rightarrow> int \<Rightarrow> main_pc \<Rightarrow> sup_pc \<Rightarrow> nat \<Rightarrow> nat fcopy_env" where
  "slow_env v c ws es r p sp w =
     \<lparr>vars = v, threads = c, g_workers = ws, entries = es, g_running = r, main_pc = p, sup_pc = sp, halt = Running, world = w\<rparr>"

text \<open>The library initialised, with the worker registered and started.\<close>

definition slow_started :: "copy_job \<Rightarrow> fcopy_vars \<Rightarrow> fcopy \<Rightarrow> nat fcopy_env fdir option" where
  "slow_started junk v c =
     (let h = slow_host junk;
          (init_status, s) = fdir_init (Some (fcopy_config v)) (Some (fdir_app_port h))
            (fdir_boot (slow_env v c (replicate 16 zero_ctx) [] 1 Setup Sup_none 0))
      in if init_status \<noteq> FDIR_OK then None
         else do {
           s \<leftarrow> start_workers h 1 0 s;
           if main_pc (env s) = Setup then Some s else None
         })"

text \<open>The state after the worker has passed the gate and taken a job, a tick from there, and the worker's heartbeat.\<close>

definition slow_calls :: "copy_job \<Rightarrow> fcopy_vars \<Rightarrow> fcopy \<Rightarrow> fcopy \<Rightarrow> worker_ctx list \<Rightarrow> walk_entry list \<Rightarrow>
    (nat fcopy_env fdir \<times> nat fcopy_env fdir \<times> nat fcopy_env fdir) option" where
  "slow_calls junk v c c' ws es =
     do {
       u \<leftarrow> slow_started junk v c;
       let s = u\<lparr>env := slow_env v c' ws es (g_running (env u)) Walking Sup_loop (world (env u)),
         calls := calls u @ [Call_lock, Call_unlock, Call_lock, Call_unlock]\<rparr>;
       t \<leftarrow> fdir_supervisor_tick s;
       b \<leftarrow> fdir_health_heartbeat_notify 0 s;
       Some (s, t, b)
     }"

text \<open>The calls up to the first call of the restart hook of an entity.\<close>

fun restarts_entity :: "fdir_entity_id \<Rightarrow> ext_call \<Rightarrow> bool" where
  "restarts_entity i (Call_restart j _ _) = (i = j)"
| "restarts_entity i _ = False"

definition up_to_restart :: "fdir_entity_id \<Rightarrow> ext_call list \<Rightarrow> ext_call list" where
  "up_to_restart i = takeWhile (\<lambda>c. \<not> restarts_entity i c)"

lemma up_to_restart_split:
  assumes "restarts i cs \<noteq> 0"
  obtains u rc ds where "cs = up_to_restart i cs @ Call_restart i u rc # ds"
proof (cases "dropWhile (\<lambda>c. \<not> restarts_entity i c) cs")
  case Nil
  then have "\<forall>c \<in> set cs. \<not> restarts_entity i c" by (simp add: dropWhile_eq_Nil_conv)
  then have "restarts i cs = 0" by (induction cs) (auto simp: restarts_def split: ext_call.splits)
  with assms show ?thesis by simp
next
  case (Cons c ds)
  then have "restarts_entity i c" using hd_dropWhile [of "\<lambda>c. \<not> restarts_entity i c" cs] by simp
  then obtain u rc where "c = Call_restart i u rc" by (cases c) auto
  with Cons takeWhile_dropWhile_id [of "\<lambda>c. \<not> restarts_entity i c" cs]
  have "cs = up_to_restart i cs @ Call_restart i u rc # ds" by (simp add: up_to_restart_def)
  then show ?thesis by (rule that)
qed

lemma slow_calls_wait:
  "map_option (\<lambda>(s, t, b). let cs = drop (length (calls s)) (calls t)
       in (halt (env t) = Join_waits, g_running (env s), take (length (calls s)) (calls t) = calls s,
           lock_run False (up_to_restart 0 cs), restarts 0 cs, take (length (calls s) + 1) (calls b) = calls s @ [Call_lock]))
     (slow_calls junk \<lparr>g_src_root = src, g_dst_root = dst, g_nworkers = 1, messages = m\<rparr> c
       \<lparr>fc_queue = q, fc_walker = fw, fc_todo = ft, fc_workers = [Copying job], fc_taken = tk, fc_copied = cp,
        fc_failures = fl, fc_aborted = ab\<rparr>
       (\<lparr>wc_index = ix, wc_entity = en, wc_thread = Joinable, wc_active = ac\<rparr> # ws) es) =
   Some (True, 1, True, Some True, 1, True)"
  by code_simp


subsection \<open>The run\<close>

lemma quiet_trans:
  assumes "quiet_step cs s t" "quiet_step ds t u"
  shows "quiet_step (cs @ ds) s u"
proof -
  have t: "t = s\<lparr>env := env t, calls := calls s @ cs\<rparr>" and u: "u = t\<lparr>env := env u, calls := calls t @ ds\<rparr>"
    using assms by (simp_all add: quiet_step_def)
  have "calls t = calls s @ cs" using arg_cong [OF t, of calls] by simp
  with u arg_cong [OF t, of "\<lambda>t. t\<lparr>env := env u, calls := calls s @ cs @ ds\<rparr>"]
  have "u = s\<lparr>env := env u, calls := calls s @ cs @ ds\<rparr>" by simp
  with assms show ?thesis by (simp add: quiet_step_def)
qed

text \<open>The worker copies the only file of the tree, and the library is as after the start.\<close>

lemma slow_copying:
  fixes junk :: copy_job and q :: job_queue
  defines "h \<equiv> slow_host junk"
  obtains v job s0 s x where "solo_state h solo_args [job] v x s" "so_worker x = Copying job" "so_main x = Walking"
    "g_nworkers v = 1" "quiet_step [Call_lock, Call_unlock, Call_lock, Call_unlock] s0 s"
    "start_copy h ((fcopy_boot q 0)\<lparr>env := (env (fcopy_boot q 0))\<lparr>vars := v\<rparr>\<rparr>) = Some s0"
proof -
  let ?es = "[(''from/a'', FTW_F, junk)]"
  obtain v s0 where v: "cstr (g_src_root v) = ''from''" "g_nworkers v = 1"
    and s0: "solo_state h solo_args (jobs_of v ?es) v
       \<lparr>so_main = Walking, so_worker = At_gate, so_queue = [], so_tree = ?es, so_copied = [], so_failures = []\<rparr> s0"
    and st: "start_copy h ((fcopy_boot q 0)\<lparr>env := (env (fcopy_boot q 0))\<lparr>vars := v, world := 0\<rparr>\<rparr>) = Some s0"
    by (rule solo_start [OF slow_able [of junk], where q = q and w = 0]) (simp add: h_def)
  have c: "cstr ''from/a'' = ''from'' @ ''/a''" by code_simp
  obtain job where job: "walk_cb v ''from/a'' FTW_F junk = Some (Walk_push job)" by (rule walk_pushes [OF v(1) c])
  then have js: "jobs_of v ?es = [job]" by (simp add: jobs_of_def)
  obtain s1 where s1: "solo_state h solo_args [job] v
      \<lparr>so_main = Walking, so_worker = At_gate, so_queue = [job], so_tree = [], so_copied = [], so_failures = []\<rparr> s1" "quiet_step [] s0 s1"
    by (rule solo_push [OF s0 _ _ _ job]) (simp_all add: js)
  obtain s2 where s2: "solo_state h solo_args [job] v
      \<lparr>so_main = Walking, so_worker = Popping, so_queue = [job], so_tree = [], so_copied = [], so_failures = []\<rparr> s2"
      "quiet_step [Call_lock, Call_unlock, Call_lock, Call_unlock] s1 s2"
    by (rule solo_gate [OF s1(1)]) simp_all
  obtain s3 where s3: "solo_state h solo_args [job] v
      \<lparr>so_main = Walking, so_worker = Copying job, so_queue = [], so_tree = [], so_copied = [], so_failures = []\<rparr> s3" "quiet_step [] s2 s3"
    by (rule solo_pop [OF s2(1)]) simp_all
  have boot: "(fcopy_boot q (0 :: nat))\<lparr>env := (env (fcopy_boot q 0))\<lparr>vars := v, world := 0\<rparr>\<rparr> =
      (fcopy_boot q 0)\<lparr>env := (env (fcopy_boot q 0))\<lparr>vars := v\<rparr>\<rparr>"
    by (simp add: fcopy_boot_def fdir_boot_def)
  have quiet: "quiet_step [Call_lock, Call_unlock, Call_lock, Call_unlock] s0 s3"
    using quiet_trans [OF quiet_trans [OF s1(2) s2(2)] s3(2)] by simp
  show ?thesis by (rule that [OF s3(1) _ _ v(2) quiet st [unfolded boot]]) simp_all
qed

lemma slow_start_state:
  assumes "start_copy (slow_host junk) ((fcopy_boot q 0)\<lparr>env := (env (fcopy_boot q 0))\<lparr>vars := v\<rparr>\<rparr>) = Some s0"
    "g_nworkers v = 1" "slow_started junk v (fcopy_start 1 [] q) = Some u"
  shows "s0 = u\<lparr>env := env s0\<rparr>" "world (env s0) = world (env u)" "g_running (env s0) = g_running (env u)"
proof -
  let ?S = "(fcopy_boot q 0)\<lparr>env := (env (fcopy_boot q 0))\<lparr>vars := v\<rparr>\<rparr>"
  have e: "?S\<lparr>env := on_threads (\<lambda>c. fcopy_start 1 [] (fc_queue c)) (env ?S)\<rparr> =
      fdir_boot (slow_env v (fcopy_start 1 [] q) (replicate 16 zero_ctx) [] 1 Setup Sup_none 0)"
    by (simp add: fcopy_boot_def fdir_boot_def slow_env_def on_threads_def)
  have "vars (env ?S) = v" by (simp add: fcopy_boot_def fdir_boot_def)
  with assms(2,3) e have "start_copy (slow_host junk) ?S = Some (begin_walk (slow_host junk) u)"
    by (auto simp: start_copy_def slow_started_def Let_def split: prod.splits if_splits bind_splits)
  with assms(1) have s0: "s0 = begin_walk (slow_host junk) u" by simp
  show "s0 = u\<lparr>env := env s0\<rparr>" "world (env s0) = world (env u)" "g_running (env s0) = g_running (env u)"
    unfolding s0 by (simp_all add: begin_walk_def Let_def)
qed

text \<open>So the evaluated calls are those of the program.\<close>

lemma slow_run:
  fixes junk :: copy_job
  defines "h \<equiv> slow_host junk"
  obtains job s t b cs where "fcopy_exec h solo_args [job] s" "main_pc (env s) = Walking" "sup_pc (env s) = Sup_loop"
    "fc_workers (threads (env s)) = [Copying job]" "active (env s)" "wc_entity (g_workers (env s) ! 0) = 0"
    "fdir_supervisor_tick s = Some t" "fdir_health_heartbeat_notify 0 s = Some b" "g_running (env s) = 1"
    "halt (env t) = Join_waits" "calls t = calls s @ cs" "restarts 0 cs = 1" "lock_run False (up_to_restart 0 cs) = Some True"
    "take (length (calls s) + 1) (calls b) = calls s @ [Call_lock]"
proof -
  fix q :: job_queue
  obtain v job s0 s x where s: "solo_state h solo_args [job] v x s" "so_worker x = Copying job" "so_main x = Walking"
    "g_nworkers v = 1" "quiet_step [Call_lock, Call_unlock, Call_lock, Call_unlock] s0 s"
    "start_copy h ((fcopy_boot q 0)\<lparr>env := (env (fcopy_boot q 0))\<lparr>vars := v\<rparr>\<rparr>) = Some s0"
    unfolding h_def by (rule slow_copying [of junk q])
  let ?e = "env s"
  have e: "fcopy_exec h solo_args [job] s" "main_pc ?e = Walking" "sup_pc ?e = Sup_loop" "fc_workers (threads ?e) = [Copying job]"
    "halt ?e = Running" "vars ?e = v" "ctx_ok 1 ?e"
    using s(1-3) prog_facts(5) [of h 1 "[job]" s] by (auto simp: solo_state_def)
  have slow: "?e = slow_env v (threads ?e) (g_workers ?e) (entries ?e) (g_running ?e) Walking Sup_loop (world ?e)"
    using e by (cases "?e") (simp add: slow_env_def)
  obtain src dst m where v: "v = \<lparr>g_src_root = src, g_dst_root = dst, g_nworkers = 1, messages = m\<rparr>"
    using s(4) by (cases v) simp
  obtain q' fw ft tk cp fl ab where c: "threads ?e = \<lparr>fc_queue = q', fc_walker = fw, fc_todo = ft, fc_workers = [Copying job],
      fc_taken = tk, fc_copied = cp, fc_failures = fl, fc_aborted = ab\<rparr>"
    using e(4) by (cases "threads ?e") simp
  obtain w ws where "g_workers ?e = w # ws" using e(7) by (cases "g_workers ?e") (simp_all add: ctx_ok_def)
  then obtain ix ac where ws: "g_workers ?e = \<lparr>wc_index = ix, wc_entity = 0, wc_thread = Joinable, wc_active = ac\<rparr> # ws"
    using e(4,7) by (cases w) (simp add: ctx_ok_def)
  obtain s' t b where r: "slow_calls junk v (fcopy_start 1 [] q) (threads ?e) (g_workers ?e) (entries ?e) = Some (s', t, b)"
    and f: "halt (env t) = Join_waits" "g_running (env s') = 1" "take (length (calls s')) (calls t) = calls s'"
      "lock_run False (up_to_restart 0 (drop (length (calls s')) (calls t))) = Some True" "restarts 0 (drop (length (calls s')) (calls t)) = 1"
      "take (length (calls s') + 1) (calls b) = calls s' @ [Call_lock]"
    using slow_calls_wait [of junk src dst m "fcopy_start 1 [] q" q' fw ft job tk cp fl ab ix 0 ac ws "entries ?e", folded v c ws]
    by (simp only: map_option_eq_Some split_paired_Ex prod.case Let_def prod.inject eq_True) blast
  obtain u where u: "slow_started junk v (fcopy_start 1 [] q) = Some u"
    and s': "s' = u\<lparr>env := slow_env v (threads ?e) (g_workers ?e) (entries ?e) (g_running (env u)) Walking Sup_loop (world (env u)),
      calls := calls u @ [Call_lock, Call_unlock, Call_lock, Call_unlock]\<rparr>"
    and tb: "fdir_supervisor_tick s' = Some t" "fdir_health_heartbeat_notify 0 s' = Some b"
    using r by (auto simp: slow_calls_def Let_def split: bind_splits)
  note s0 = slow_start_state [OF s(6) [unfolded h_def] s(4) u]
  let ?L = "[Call_lock, Call_unlock, Call_lock, Call_unlock]"
  have c0: "calls s0 = calls u" using arg_cong [OF s0(1), of calls] by simp
  have u0: "s0\<lparr>env := ?e, calls := calls u @ ?L\<rparr> = u\<lparr>env := ?e, calls := calls u @ ?L\<rparr>"
    using arg_cong [OF s0(1), of "\<lambda>t. t\<lparr>env := ?e, calls := calls u @ ?L\<rparr>"] by simp
  have "s = s0\<lparr>env := ?e, calls := calls s0 @ ?L\<rparr>" "world ?e = world (env s0)" "g_running ?e = g_running (env s0)"
    using s(5) unfolding quiet_step_def by blast+
  from this(1) [unfolded c0 u0] this(2,3) [unfolded s0(2,3)]
  have "s = u\<lparr>env := slow_env v (threads ?e) (g_workers ?e) (entries ?e) (g_running (env u)) Walking Sup_loop (world (env u)),
      calls := calls u @ ?L\<rparr>"
    using slow by metis
  then have "s = s'" by (simp only: s')
  note f' = f [folded this] and tb' = tb [folded this]
  have "calls t = calls s @ drop (length (calls s)) (calls t)" using f'(3) by (metis append_take_drop_id)
  moreover have "active ?e" using e(2,5) by (simp add: active_def)
  moreover have "wc_entity (g_workers ?e ! 0) = 0" by (simp add: ws)
  ultimately show ?thesis using that e(1-4) f'(1,2,4-6) tb' by blast
qed

text \<open>
  C35. The file copy program can run into a deadlock: with one worker and a tree of one file there is a run
  in which the supervisor's tick finds the heartbeat of the worker overdue while the worker is copying,
  takes the port lock, and calls the worker's restart callback with the lock held; the callback waits in
  \<open>pthread_join\<close> for the thread to end. The first thing the thread does after it has copied the file is
  to take the same lock, for its heartbeat.
\<close>

theorem restart_waits_for_copying_worker:
  "\<exists>job s t cs user rc ds u. fcopy_exec (slow_host junk) solo_args [job] s \<and> fc_workers (threads (env s)) = [Copying job] \<and>
     fcopy_step (slow_host junk) s t \<and> halt (env t) = Join_waits \<and>
     calls t = calls s @ cs @ Call_restart 0 user rc # ds \<and> lock_run False cs = Some True \<and>
     worker_thread (slow_host junk) 0 s = Some u \<and> take (length (calls s) + 1) (calls u) = calls s @ [Call_lock]"
proof -
  let ?h = "slow_host junk"
  obtain job s t b cs where s: "fcopy_exec ?h solo_args [job] s" "sup_pc (env s) = Sup_loop"
    "fc_workers (threads (env s)) = [Copying job]" "active (env s)" "wc_entity (g_workers (env s) ! 0) = 0" "g_running (env s) = 1"
    and t: "fdir_supervisor_tick s = Some t" "halt (env t) = Join_waits" "calls t = calls s @ cs" "restarts 0 cs = 1"
      "lock_run False (up_to_restart 0 cs) = Some True"
    and b: "fdir_health_heartbeat_notify 0 s = Some b" "take (length (calls s) + 1) (calls b) = calls s @ [Call_lock]"
    by (rule slow_run [of junk]) blast
  let ?t = "t\<lparr>env := (env t)\<lparr>sup_pc := Sup_check\<rparr>\<rparr>"
  let ?u = "b\<lparr>env := on_threads (\<lambda>c. (station 0 At_gate c)\<lparr>fc_copied := job # fc_copied c\<rparr>) (env b)\<rparr>"
  have "supervisor_thread s = Some ?t" using s(2,6) t(1) by (simp add: supervisor_thread_def)
  then have step: "fcopy_step ?h s ?t" by (rule fcopy_step.supervisor [OF s(4)])
  have w: "worker_thread ?h 0 s = Some ?u" using s(3,5) b(1) by (simp add: worker_thread_def)
  obtain user rc ds where "cs = up_to_restart 0 cs @ Call_restart 0 user rc # ds"
    by (rule up_to_restart_split [of 0 cs]) (use t(4) in simp_all)
  with s step w t b show ?thesis by (intro exI [of _ job] exI [of _ s] exI [of _ ?t] exI [of _ "up_to_restart 0 cs"]) auto
qed

end
