(* ===== verification/Sections.thy ===== *)
theory Sections
  imports Entity_Frame Client Watchdog
begin

text \<open>
  The tick of the supervisor, cut into its critical sections. The code holds the lock of the port within
  a section only, so that other threads make their calls between two sections. A tick is at a place
  \<open>sup_at\<close> between two sections; \<open>sup_section\<close> runs the next one. Run without interruption, the sections
  are the tick as \<open>Supervisor\<close> has it.
\<close>

subsection \<open>The sections of a tick\<close>

text \<open>The second section of \<open>fdir_handle_failure\<close>; the first one reads the supervision gate.\<close>

definition handle_section :: "fdir_failure_report \<Rightarrow> 'e fdir \<Rightarrow> 'e fdir option" where
  "handle_section r s =
     do {
       let s = fdir_port_sync_enter s;
       latched \<leftarrow> fdir_health_fault_is_latched_unsafe (rep_entity r) (rep_reason r) (hl s);
       if latched \<noteq> 0 then Some (fdir_port_sync_exit s)
       else do {
         let event_kind = (if rep_reason r = FDIR_REASON_WATCHDOG
                           then FDIR_EVENT_WATCHDOG else FDIR_EVENT_FAILURE);
         s \<leftarrow> emit_event_full event_kind (g_mode s) (rep_entity r) (rep_reason r)
                (rep_error_code r) FDIR_LEVEL_ENTITY FDIR_ANOMALY_RAISED
                (Some (cstr (rep_detail r))) s;
         registered \<leftarrow> (if rep_entity r \<ge> g_entity_count s then Some False
            else do {
              slot \<leftarrow> arr_get (g_entities s) (unat (rep_entity r));
              Some (es_used slot \<noteq> 0)
            });
         if \<not> registered then do {
           s \<leftarrow> enter_degraded_mode_unsafe s;
           Some (fdir_port_sync_exit s)
         }
         else do {
           s \<leftarrow> recover_entity r s;
           Some (fdir_port_sync_exit s)
         }
       }
     }"

text \<open>The watchdog scan from \<open>eid\<close> on, up to the next entity that it reports, if there is one.\<close>

function scan_to :: "fdir_entity_id \<Rightarrow> u32 \<Rightarrow> u32 \<Rightarrow> 'e fdir \<Rightarrow> fdir_entity_id option option" where
  "scan_to eid now_ms max_age s =
     (if eid < g_entity_count s then
        do {
          skip \<leftarrow> watchdog_skips eid now_ms max_age s;
          if skip then scan_to (eid + 1) now_ms max_age s else Some (Some eid)
        }
      else Some None)"
  by pat_completeness auto
termination
  by (relation "measure (\<lambda>(eid, _). 256 - unat eid)") (auto dest: registered_next [unfolded registered_def])

declare scan_to.simps [simp del]

text \<open>
  Where the supervisor is: before the gate of the tick, before the next report is taken from the queue,
  before the gate and the section of \<open>fdir_handle_failure\<close>, before the clock is read, before the gate of
  the scan, and before a section of the scan. A report in hand carries the place where the supervisor
  goes on.
\<close>

datatype sup_at = Idle
  | At_tick
  | At_get
  | At_gate_of fdir_failure_report sup_at
  | At_handle fdir_failure_report sup_at
  | At_clock
  | At_scan_gate u32 u32
  | At_scan fdir_entity_id u32 u32

fun sup_section :: "sup_at \<Rightarrow> 'e fdir \<Rightarrow> (sup_at \<times> 'e fdir) option" where
  "sup_section Idle s = None"
| "sup_section At_tick s =
     (let (enabled, s) = fdir_supervision_enabled s in Some (if enabled = 0 then Idle else At_get, s))"
| "sup_section At_get s = do {
     (r, s) \<leftarrow> fdir_failure_queue_get (Some zero_report) s;
     (case r of
        (rc, out) \<Rightarrow>
          if rc = 0 then (case out of None \<Rightarrow> None | Some report \<Rightarrow> Some (At_gate_of report At_get, s))
          else Some (At_clock, s))
   }"
| "sup_section (At_gate_of r k) s =
     (let (enabled, s) = fdir_supervision_enabled s in Some (if enabled = 0 then k else At_handle r k, s))"
| "sup_section (At_handle r k) s = do {
     s \<leftarrow> handle_section r s;
     Some (k, s)
   }"
| "sup_section At_clock s = do {
     (now_ms, s) \<leftarrow> fdir_get_now_ms s;
     Some (At_scan_gate now_ms (fdir_heartbeat_max_age_ms s), s)
   }"
| "sup_section (At_scan_gate now_ms max_age) s =
     (let (enabled, s) = fdir_supervision_enabled s
      in Some (if enabled = 0 then Idle else At_scan 0 now_ms max_age, s))"
| "sup_section (At_scan eid now_ms max_age) s = do {
     let s = fdir_port_sync_enter s;
     next \<leftarrow> scan_to eid now_ms max_age s;
     (case next of
        None \<Rightarrow> Some (Idle, fdir_port_sync_exit s)
      | Some eid \<Rightarrow> do {
          report \<leftarrow> watchdog_report eid now_ms;
          Some (At_gate_of report (At_scan (eid + 1) now_ms max_age), fdir_port_sync_exit s)
        })
   }"


subsection \<open>The sections make up the tick\<close>

text \<open>The rest of the tick from a place on, if nobody interrupts it.\<close>

fun rest_of_tick :: "sup_at \<Rightarrow> 'e fdir \<Rightarrow> 'e fdir option" where
  "rest_of_tick Idle s = Some s"
| "rest_of_tick At_tick s = fdir_supervisor_tick s"
| "rest_of_tick At_get s = Option.bind (drain_queue zero_report s) fdir_check_watchdogs"
| "rest_of_tick (At_gate_of r k) s = Option.bind (fdir_handle_failure (Some r) s) (rest_of_tick k)"
| "rest_of_tick (At_handle r k) s = Option.bind (handle_section r s) (rest_of_tick k)"
| "rest_of_tick At_clock s = fdir_check_watchdogs s"
| "rest_of_tick (At_scan_gate now_ms max_age) s =
     (let (enabled, s) = fdir_supervision_enabled s
      in if enabled = 0 then Some s
         else Option.bind (watchdog_loop 0 now_ms max_age (fdir_port_sync_enter s)) (\<lambda>s. Some (fdir_port_sync_exit s)))"
| "rest_of_tick (At_scan eid now_ms max_age) s =
     Option.bind (watchdog_loop eid now_ms max_age (fdir_port_sync_enter s)) (\<lambda>s. Some (fdir_port_sync_exit s))"

lemma handle_failure_sections:
  "fdir_handle_failure (Some r) s =
     (let (enabled, s) = fdir_supervision_enabled s in if enabled = 0 then Some s else handle_section r s)"
  unfolding fdir_handle_failure_def handle_section_def option.case by (rule refl)

lemma watchdog_loop_scan_to:
  "watchdog_loop eid now_ms max_age s =
     Option.bind (scan_to eid now_ms max_age s) (\<lambda>next. case next of
        None \<Rightarrow> Some s
      | Some eid \<Rightarrow> do {
          report \<leftarrow> watchdog_report eid now_ms;
          let s = fdir_port_sync_exit s;
          s \<leftarrow> fdir_handle_failure (Some report) s;
          let s = fdir_port_sync_enter s;
          watchdog_loop (eid + 1) now_ms max_age s
        })"
proof (induction eid now_ms max_age s rule: scan_to.induct)
  case (1 eid now_ms max_age s)
  then show ?case
    by (subst watchdog_loop.simps, subst scan_to.simps) (cases "watchdog_skips eid now_ms max_age s"; auto)
qed

lemma section_then_rest:
  assumes "p \<noteq> Idle"
  shows "rest_of_tick p s = Option.bind (sup_section p s) (\<lambda>(p', t). rest_of_tick p' t)"
proof (cases p)
  case At_get
  have "drain_queue zero_report s = Option.bind (fdir_failure_queue_get (Some zero_report) s) (\<lambda>(r, s). case r of (rc, out) \<Rightarrow>
      if rc = 0 then (case out of None \<Rightarrow> None | Some x \<Rightarrow> Option.bind (fdir_handle_failure (Some x) s) (drain_queue zero_report))
      else Some s)"
    by (subst drain_queue.simps) (intro Option.bind_cong refl, auto split: option.split intro!: Option.bind_cong drain_queue_start)
  with At_get show ?thesis by (cases "fdir_failure_queue_get (Some zero_report) s") (auto split: option.split intro!: Option.bind_cong)
next
  case (At_scan eid now_ms max_age)
  have "watchdog_loop eid now_ms max_age (fdir_port_sync_enter s) = Option.bind (scan_to eid now_ms max_age (fdir_port_sync_enter s))
      (\<lambda>next. case next of None \<Rightarrow> Some (fdir_port_sync_enter s)
         | Some eid \<Rightarrow> Option.bind (watchdog_report eid now_ms) (\<lambda>report.
             Option.bind (fdir_handle_failure (Some report) (fdir_port_sync_exit (fdir_port_sync_enter s)))
               (\<lambda>s. watchdog_loop (eid + 1) now_ms max_age (fdir_port_sync_enter s))))"
    by (subst watchdog_loop_scan_to) (simp add: Let_def)
  with At_scan show ?thesis
    by (cases "scan_to eid now_ms max_age (fdir_port_sync_enter s)") (auto simp: Let_def split: option.split intro!: Option.bind_cong)
next
  case (At_gate_of r k)
  then show ?thesis by (simp add: handle_failure_sections supervision_enabled_eq)
next
  case At_tick
  then show ?thesis by (simp add: fdir_supervisor_tick_def supervision_enabled_eq)
next
  case At_clock
  then show ?thesis by (cases "fdir_get_now_ms s") (auto simp: fdir_check_watchdogs_def supervision_enabled_eq Let_def)
next
  case (At_scan_gate now_ms max_age)
  then show ?thesis by (simp add: supervision_enabled_eq)
next
  case (At_handle r k)
  then show ?thesis by (cases "handle_section r s") simp_all
qed (use assms in simp)

text \<open>A run of \<open>n\<close> sections one after another, to the end.\<close>

inductive alone :: "sup_at \<Rightarrow> 'e fdir \<Rightarrow> nat \<Rightarrow> 'e fdir \<Rightarrow> bool" where
  idle: "alone Idle s 0 s"
| step: "sup_section p s = Some (p', t) \<Longrightarrow> alone p' t n u \<Longrightarrow> alone p s (Suc n) u"

text \<open>
  A bound for the number of sections that are left: the reports that wait, at most three sections for an
  entity that has still to be scanned.
\<close>

fun sections_left :: "sup_at \<Rightarrow> failure_queue \<Rightarrow> nat" where
  "sections_left Idle q = 0"
| "sections_left (At_scan eid _ _) q = 3 * (256 - unat eid) + 1"
| "sections_left (At_scan_gate _ _) q = 770"
| "sections_left At_clock q = 771"
| "sections_left At_get q = 772 + 3 * length (pending q)"
| "sections_left At_tick q = 773 + 3 * length (pending q)"
| "sections_left (At_gate_of _ k) q = sections_left k q + 2"
| "sections_left (At_handle _ k) q = sections_left k q + 1"

lemma scan_to_Some:
  "scan_to eid now_ms max_age s = Some (Some i) \<Longrightarrow> i < g_entity_count s \<and> unat eid \<le> unat i"
proof (induction eid now_ms max_age s rule: scan_to.induct)
  case (1 eid now_ms max_age s)
  from "1.prems" have eid: "eid < g_entity_count s"
    by (subst (asm) scan_to.simps) (auto split: if_splits)
  then consider "i = eid" | "watchdog_skips eid now_ms max_age s = Some True" "scan_to (eid + 1) now_ms max_age s = Some (Some i)"
    using "1.prems" by (subst (asm) scan_to.simps) (auto split: if_splits bind_splits)
  then show ?case
    using "1.IH" [OF eid, of True] unat_inc [OF eid] eid by cases simp_all
qed

lemma handle_section_fq: "keeps (handle_section r s) (\<lambda>t. fq t = fq s)"
proof -
  have "keeps (raise_event r v) (\<lambda>s'. fq s' = fq v)" "keeps (recover_entity r v) (\<lambda>s'. fq s' = fq v)"
    "keeps (enter_degraded_mode_unsafe v) (\<lambda>s'. fq s' = fq v)" for v :: "'a fdir"
    by (auto intro: keeps_mono [OF raise_event_rec] keeps_mono [OF recover_entity_keeps]
        keeps_mono [OF enter_degraded_keeps] simp: rec_step_frame(4))
  then show ?thesis
    unfolding handle_section_def Let_def raise_event_def [symmetric]
    by (auto simp: keeps_def split: bind_splits if_splits)
qed

lemma get_pending:
  assumes "queue_inv (fq s)"
  shows "pending (fq s) = [] \<Longrightarrow> fdir_failure_queue_get (Some out) s =
      Some ((- 1, Some out), fdir_port_sync_exit ((fdir_port_sync_enter s)\<lparr>fq := fq s\<rparr>))"
    and "pending (fq s) = r # rs \<Longrightarrow> fdir_failure_queue_get (Some out) s =
      Some ((0, Some r), fdir_port_sync_exit ((fdir_port_sync_enter s)\<lparr>fq := popped (fq s)\<rparr>))"
  using get_locked_popped [OF assms] by (simp_all add: fdir_failure_queue_get_def get_locked_empty Let_def)

lemma section_decreases:
  assumes "queue_inv (fq s)" "sup_section p s = Some (p', t)"
  shows "sections_left p' (fq t) < sections_left p (fq s)" "queue_inv (fq t)"
proof -
  have "sections_left p' (fq t) < sections_left p (fq s) \<and> queue_inv (fq t)"
  proof (cases p)
    case At_get
    show ?thesis
      using At_get assms get_pending [OF assms(1), where out = zero_report] get_locked_popped [OF assms(1)]
      by (cases "pending (fq s)") (auto simp del: length_pending)
  next
    case (At_handle r k)
    with assms handle_section_fq [of r s] show ?thesis by (auto simp: keeps_def split: bind_splits)
  next
    case At_clock
    with assms get_now_keeps [of s] show ?thesis by (auto simp: keeps_def split: bind_splits)
  next
    case (At_scan eid now_ms max_age)
    let ?x = "fdir_port_sync_enter s"
    from At_scan assms(2) obtain n where n: "scan_to eid now_ms max_age ?x = Some n"
      by (auto simp: Let_def split: bind_splits)
    show ?thesis
    proof (cases n)
      case (Some i)
      have i: "i < g_entity_count ?x" "unat eid \<le> unat i" using scan_to_Some [of eid now_ms max_age ?x i] n Some by simp_all
      have "unat (i + 1) = Suc (unat i)" by (rule unat_inc [OF i(1)])
      with i(2) unat_u8_bound [of "i + 1"] At_scan assms n Some show ?thesis
        by (auto simp: Let_def split: bind_splits)
    qed (use At_scan assms n in \<open>auto simp: Let_def\<close>)
  qed (use assms in \<open>auto simp: supervision_enabled_eq\<close>)
  then show "sections_left p' (fq t) < sections_left p (fq s)" "queue_inv (fq t)" by auto
qed

lemma alone_rest: "alone p s n u \<Longrightarrow> rest_of_tick p s = Some u"
proof (induction rule: alone.induct)
  case (step p s p' t n u)
  then have "p \<noteq> Idle" by auto
  with step show ?case by (simp add: section_then_rest)
qed simp

lemma alone_bound: "alone p s n u \<Longrightarrow> queue_inv (fq s) \<Longrightarrow> n \<le> sections_left p (fq s)"
proof (induction rule: alone.induct)
  case (step p s p' t n u)
  from section_decreases [OF step.prems step.hyps(1)] step.IH show ?case by simp
qed simp

lemma rest_alone: "rest_of_tick p s = Some u \<Longrightarrow> queue_inv (fq s) \<Longrightarrow> \<exists>n. alone p s n u"
proof (induction "sections_left p (fq s)" arbitrary: p s rule: less_induct)
  case less
  show ?case
  proof (cases "p = Idle")
    case False
    then obtain p' t where t: "sup_section p s = Some (p', t)" "rest_of_tick p' t = Some u"
      using less.prems(1) by (auto simp: section_then_rest split: bind_splits)
    from section_decreases [OF less.prems(2) t(1)] less.hyps t(2) obtain n where "alone p' t n u" by blast
    with t(1) show ?thesis by (blast intro: alone.step)
  qed (use less.prems in \<open>auto intro: alone.idle\<close>)
qed

text \<open>
  C26. A tick is what its critical sections, run one after another, make of the state: the sections end
  in the state \<open>u\<close> exactly when \<open>fdir_supervisor_tick\<close> returns it. There are at most 773 sections and
  three for each report that waits, so that a tick that nobody interrupts is over after so many takes of
  the lock and one reading of the clock.
\<close>

theorem tick_is_its_sections:
  assumes "live s"
  shows "((\<exists>n. alone At_tick s n u) \<longleftrightarrow> fdir_supervisor_tick s = Some u) \<and>
     (\<forall>n. alone At_tick s n u \<longrightarrow> n \<le> 773 + 3 * length (pending (fq s)))"
  using alone_rest [of At_tick s _ u] rest_alone [of At_tick s u] alone_bound [of At_tick s _ u] liveD(4) [OF assms]
  by auto

theorem tick_is_its_sections_witness:
  "\<exists>u n. fdir_supervisor_tick demo = Some u \<and> alone At_tick demo n u \<and> n \<le> 773"
proof -
  obtain u where u: "fdir_supervisor_tick demo = Some u"
    using supervisor_tick_returns [OF demo_live] by (metis returnsE)
  then obtain n where n: "alone At_tick demo n u" using tick_is_its_sections [OF demo_live [of 0], of u] by blast
  then have "n \<le> 773" using tick_is_its_sections [OF demo_live [of 0], of u] demo_fresh(1) [of 0] by (auto simp del: length_pending)
  with u n show ?thesis by blast
qed

end
