(* ===== verification/Interleaving.thy ===== *)
theory Interleaving
  imports Sections
begin

text \<open>
  The supervisor among the other threads of the application, as \<open>docs/threading.md\<close> describes it for a port
  with a lock: one supervisor, any number of threads that make calls of the API. A thread runs only
  between two critical sections of another one. The calls that are one section are steps; a call that has
  several sections is a sequence of them (\<open>fdir_worker_may_run\<close> is \<open>fdir_system_mode\<close> and then a
  heartbeat or \<open>fdir_entity_may_run\<close>, \<open>fdir_submit_failure\<close> the gate and then the queue).
\<close>

subsection \<open>The system\<close>

definition single_section :: "'e api_call \<Rightarrow> bool" where
  "single_section c \<longleftrightarrow>
     (case c of
        Init _ _ \<Rightarrow> False
      | Worker_may_run _ \<Rightarrow> False
      | Supervisor_tick \<Rightarrow> False
      | Handle_failure _ \<Rightarrow> False
      | Check_watchdogs \<Rightarrow> False
      | Submit_failure _ \<Rightarrow> False
      | _ \<Rightarrow> True)"

text \<open>
  The states that the system gets to from \<open>s0\<close>, with the place of the supervisor, if the threads make
  only calls that are \<open>allowed\<close>.
\<close>

inductive interleaved :: "('e api_call \<Rightarrow> bool) \<Rightarrow> 'e fdir \<Rightarrow> sup_at \<Rightarrow> 'e fdir \<Rightarrow> bool" for allowed s0 where
  start: "interleaved allowed s0 Idle s0"
| tick: "interleaved allowed s0 Idle s \<Longrightarrow> interleaved allowed s0 At_tick s"
| supervisor: "interleaved allowed s0 p s \<Longrightarrow> sup_section p s = Some (p', t) \<Longrightarrow> interleaved allowed s0 p' t"
| thread: "interleaved allowed s0 p s \<Longrightarrow> allowed c \<Longrightarrow> single_section c \<Longrightarrow> exec c s = Some t \<Longrightarrow>
    interleaved allowed s0 p t"
| submit: "interleaved allowed s0 p s \<Longrightarrow> fdir_failure_queue_put (Some r) s = Some (rc, t) \<Longrightarrow>
    interleaved allowed s0 p t"
| environment: "interleaved allowed s0 p s \<Longrightarrow> interleaved allowed s0 p (s\<lparr>env := e\<rparr>)"


subsection \<open>One section of the supervisor\<close>

lemma handle_section_eq:
  assumes "fdir_inv s"
  shows "handle_section r s =
    (if latched (rep_entity r) (rep_reason r) (hl s) then Some (fdir_port_sync_exit (fdir_port_sync_enter s))
     else Option.bind (raise_event r (fdir_port_sync_enter s)) (\<lambda>s.
       Option.bind (if registered (rep_entity r) s then recover_entity r s else enter_degraded_mode_unsafe s)
         (\<lambda>s. Some (fdir_port_sync_exit s))))"
proof -
  let ?x = "fdir_port_sync_enter s"
  have la: "fdir_health_fault_is_latched_unsafe (rep_entity r) (rep_reason r) (hl ?x) =
      Some (if latched (rep_entity r) (rep_reason r) (hl s) then 1 else 0)"
    using fdir_invD(3) [OF assms] by (simp add: is_latched_unsafe_eq)
  show ?thesis
  proof (cases "raise_event r ?x")
    case None
    then show ?thesis unfolding handle_section_def Let_def la Option.bind.simps raise_event_def [symmetric] by simp
  next
    case (Some t)
    have "fdir_inv t" using rec_step_frame(9) [OF keepsD [OF raise_event_rec Some]] assms by simp
    from registered_check [OF this] Some show ?thesis
      unfolding handle_section_def Let_def la Option.bind.simps raise_event_def [symmetric] by simp
  qed
qed

lemma handle_section_cases:
  assumes "live s"
  obtains
    (repeated) "latched (rep_entity r) (rep_reason r) (hl s)"
      "handle_section r s = Some (fdir_port_sync_exit (fdir_port_sync_enter s))"
  | (handled) t u where "\<not> latched (rep_entity r) (rep_reason r) (hl s)" "outside (fdir_port_sync_enter s) t" "live t"
      "(if registered (rep_entity r) s then recover_entity r t else enter_degraded_mode_unsafe t) = Some u"
      "rec_step (fdir_port_sync_enter s) u" "rec_step t u" "handle_section r s = Some (fdir_port_sync_exit u)"
proof (cases "latched (rep_entity r) (rep_reason r) (hl s)")
  case True
  with handle_section_eq [OF liveD(1) [OF assms], of r] repeated show ?thesis by simp
next
  case False
  let ?x = "fdir_port_sync_enter s"
  have x: "live ?x" using assms by simp
  obtain t where t: "raise_event r ?x = Some t" "outside ?x t" by (rule raise_event_cases [OF x]) blast
  have lt: "live t" by (rule outside_live [OF t(2) x])
  have reg: "registered (rep_entity r) t = registered (rep_entity r) s" using t(2) by (simp add: registered_def outside_iff)
  obtain u where u: "(if registered (rep_entity r) s then recover_entity r t else enter_degraded_mode_unsafe t) = Some u"
    using recover_entity_returns [OF lt, of r] enter_modes_return(1) [OF lt] reg by (auto simp: returns_def)
  then have "rec_step t u"
    using keepsD [OF recover_entity_keeps] keepsD [OF enter_degraded_keeps] by (auto split: if_splits)
  moreover have "rec_step ?x t" by (rule keepsD [OF raise_event_rec t(1)])
  ultimately have step: "rec_step ?x u" "rec_step t u" using rec.trans by blast+
  have "handle_section r s = Some (fdir_port_sync_exit u)"
    using handle_section_eq [OF liveD(1) [OF assms], of r] False t(1) u reg by simp
  with False t(2) lt u step show ?thesis by (rule handled)
qed

lemma handle_section_step:
  assumes "live s"
  obtains t where "handle_section r s = Some t" "api_step True s t"
    "g_supervision_enabled t = g_supervision_enabled s" "g_entity_count t = g_entity_count s"
  using assms
proof (cases rule: handle_section_cases [of s r])
  case repeated
  with that show ?thesis by (simp add: api_step_section_refl)
next
  case (handled t u)
  have "api_step True s (fdir_port_sync_exit u)"
    using rec_cs [OF handled(5)] liveD(1) [OF assms] by (intro api_section) simp
  from that [OF handled(7) this] rec_step_frame [OF handled(5)] show ?thesis by simp
qed

text \<open>What the section leaves of the health table.\<close>

lemma handle_section_health:
  assumes "live s" "handle_section r s = Some t"
  shows "hl t = hl s \<and> (registered (rep_entity r) s \<longrightarrow> latched (rep_entity r) (rep_reason r) (hl s)) \<or>
     others_same (rep_entity r) (hl s) (hl t) \<and>
       (stands_failed (rep_entity r) (rep_reason r) t \<or> unlatched_ok (rep_entity r) t)"
  using assms(1)
proof (cases rule: handle_section_cases [of s r])
  case (handled u v)
  show ?thesis
  proof (cases "registered (rep_entity r) s")
    case True
    then have "registered (rep_entity r) u" "recover_entity r u = Some v"
      using handled(2,4) by (simp_all add: registered_def outside_iff)
    from recover_entity_effect [OF handled(3) this] handled(2,7) assms(2) show ?thesis
      by (auto simp: outside_iff stands_failed_def unlatched_ok_def)
  next
    case False
    with handled(4) have "enter_degraded_mode_unsafe u = Some v" by simp
    from keepsD [OF modes_eng(1) this] handled(2,7) assms(2) False show ?thesis
      by (auto simp: outside_iff engine_frame_def)
  qed
qed (use assms(2) in simp)

lemma scan_to_returns:
  assumes "fdir_inv s"
  shows "scan_to eid now_ms max_age s \<noteq> None"
  using assms
proof (induction eid now_ms max_age s rule: scan_to.induct)
  case (1 eid now_ms max_age s)
  then show ?case
    using watchdog_skips_eq [OF "1.prems", of eid now_ms max_age]
    by (subst scan_to.simps) (auto simp: registered_def)
qed

text \<open>Every section returns, keeps the contract of the API, and leaves the supervision gate alone.\<close>

lemma sup_section_step:
  assumes "live s" "p \<noteq> Idle"
  obtains p' t where "sup_section p s = Some (p', t)" "api_step True s t"
    "g_supervision_enabled t = g_supervision_enabled s" "g_entity_count t = g_entity_count s"
proof (cases p)
  case (At_handle r k)
  obtain t where "handle_section r s = Some t" "api_step True s t"
    "g_supervision_enabled t = g_supervision_enabled s" "g_entity_count t = g_entity_count s"
    by (rule handle_section_step [OF assms(1), of r])
  with At_handle that show ?thesis by simp
next
  case At_get
  note q = get_pending [OF liveD(4) [OF assms(1)], where out = zero_report] get_locked_popped [OF liveD(4) [OF assms(1)]]
  show ?thesis
    using At_get that q liveD(4) [OF assms(1)] api_step_fq [of _ True s] by (cases "pending (fq s)") auto
next
  case At_clock
  obtain now e where "fdir_get_now_ms s = Some (now, ext (Call_now now) e s)"
    using get_now_returns [of s] liveD [OF assms(1)] by (auto simp: returns_def)
  with At_clock that api_step_now [OF liveD(1) [OF assms(1)]] show ?thesis by simp
next
  case (At_scan eid now_ms max_age)
  obtain n where n: "scan_to eid now_ms max_age (fdir_port_sync_enter s) = Some n"
    using scan_to_returns [of "fdir_port_sync_enter s" eid now_ms max_age] liveD(1) [OF assms(1)] by auto
  show ?thesis
  proof (cases n)
    case (Some i)
    obtain r where "watchdog_report i now_ms = Some r" by (rule watchdog_report_eq)
    with n At_scan Some that api_step_section_refl [of True s] show ?thesis by (simp add: Let_def)
  qed (use n At_scan that api_step_section_refl [of True s] in \<open>simp add: Let_def\<close>)
qed (use assms(2) that api_step_section_refl [of True s] in \<open>auto simp: supervision_enabled_eq\<close>)


subsection \<open>No thread is ever stuck\<close>

lemma single_section_step:
  assumes "live s" "single_section c"
  shows "returns (exec c s) (api_step (\<not> ground c) s)"
proof -
  have "\<not> is_init c" using assms(2) by (auto simp: single_section_def is_init_def)
  from exec_keeps [OF liveD(1) [OF assms(1)] this] exec_returns [OF assms(1), of c] show ?thesis
    by (auto simp: returns_def keeps_def)
qed

lemma api_step_down: "api_step up s t \<Longrightarrow> api_step False s t"
  by (auto simp: api_step_def lib_step_def)

text \<open>Every step of the system keeps the contract of the API.\<close>

lemma interleaved_api: "interleaved allowed s0 p s \<Longrightarrow> live s0 \<Longrightarrow> api_step False s0 s"
proof (induction rule: interleaved.induct)
  case start
  show ?case by (rule api.refl)
next
  case (supervisor p s p' t)
  note s = supervisor.IH [OF supervisor.prems] and live = api_step_live [OF supervisor.IH [OF supervisor.prems] supervisor.prems]
  have p: "p \<noteq> Idle" using supervisor.hyps(2) by (intro notI) simp
  obtain q u where u: "sup_section p s = Some (q, u)" "api_step True s u"
    by (rule sup_section_step [OF live p]) blast
  with supervisor.hyps(2) have "u = t" by simp
  with api.trans [OF s api_step_down [OF u(2)]] show ?case by simp
next
  case (thread p s c t)
  note s = thread.IH [OF thread.prems] and live = api_step_live [OF thread.IH [OF thread.prems] thread.prems]
  have "api_step (\<not> ground c) s t"
    using single_section_step [OF live thread.hyps(3)] thread.hyps(4) by simp
  from api.trans [OF s api_step_down [OF this]] show ?case .
next
  case (submit p s r rc t)
  note s = submit.IH [OF submit.prems] and live = api_step_live [OF submit.IH [OF submit.prems] submit.prems]
  have "api_step False s t"
    using queue_calls_return(1) [OF liveD(1) [OF live], of "Some r" False] submit.hyps(2) by simp
  from api.trans [OF s this] show ?case .
next
  case (environment p s e)
  note s = environment.IH [OF environment.prems] and live = api_step_live [OF environment.IH [OF environment.prems] environment.prems]
  from api.trans [OF s api_step_down [OF api_step_env [OF live]]] show ?case .
qed

lemmas interleaved_live = api_step_live [OF interleaved_api]

text \<open>
  The interface of an assertion that is stable: it is kept by the sections of the supervisor and by the
  allowed calls of the threads, each from a live state. Then it holds between any two sections.
\<close>

locale stable_assertion =
  fixes allowed :: "'e api_call \<Rightarrow> bool" and P :: "sup_at \<Rightarrow> 'e fdir \<Rightarrow> bool"
  assumes tick_starts: "P Idle s \<Longrightarrow> P At_tick s"
    and section_keeps: "live s \<Longrightarrow> P p s \<Longrightarrow> sup_section p s = Some (p', t) \<Longrightarrow> P p' t"
    and call_keeps: "live s \<Longrightarrow> P p s \<Longrightarrow> allowed c \<Longrightarrow> exec c s = Some t \<Longrightarrow> P p t"
    and put_keeps: "live s \<Longrightarrow> P p s \<Longrightarrow> fdir_failure_queue_put (Some r) s = Some (rc, t) \<Longrightarrow> P p t"
    and environment_keeps: "P p s \<Longrightarrow> P p (s\<lparr>env := e\<rparr>)"
begin

lemma between_sections:
  assumes "interleaved allowed s0 p s" "live s0" "P Idle s0"
  shows "P p s"
  using assms
proof (induction rule: interleaved.induct)
  case (supervisor p s p' t)
  from section_keeps [OF interleaved_live [OF supervisor.hyps(1) supervisor.prems(1,1)] supervisor.IH [OF supervisor.prems] supervisor.hyps(2)]
  show ?case .
next
  case (thread p s c t)
  from call_keeps [OF interleaved_live [OF thread.hyps(1) thread.prems(1,1)] thread.IH [OF thread.prems] thread.hyps(2,4)]
  show ?case .
next
  case (submit p s r rc t)
  from put_keeps [OF interleaved_live [OF submit.hyps(1) submit.prems(1,1)] submit.IH [OF submit.prems] submit.hyps(2)]
  show ?case .
qed (auto intro: tick_starts environment_keeps)

end

text \<open>
  C24. Whatever the threads and the supervisor do between each other's critical sections, nobody gets
  stuck: in every state that they get to, the library's invariant holds, the next section of the
  supervisor is run without an abort, an access outside an array or a call of a missing hook, and so is
  every call of a thread.
\<close>

theorem interleaved_never_stuck:
  assumes "live s0" "interleaved allowed s0 p s"
  shows "live s \<and> (p \<noteq> Idle \<longrightarrow> sup_section p s \<noteq> None) \<and> exec c s \<noteq> None"
proof -
  have live: "live s" by (rule interleaved_live [OF assms(2,1,1)])
  moreover have "sup_section p s \<noteq> None" if "p \<noteq> Idle" by (rule sup_section_step [OF live that]) simp
  moreover have "exec c s \<noteq> None" using exec_returns [OF live, of c] by (intro notI) simp
  ultimately show ?thesis by blast
qed

theorem interleaved_never_stuck_witness:
  "interleaved (\<lambda>_. True) demo At_tick demo \<and> sup_section At_tick demo \<noteq> None"
proof -
  have run: "interleaved (\<lambda>_. True) demo At_tick demo" by (rule interleaved.tick [OF interleaved.start])
  from interleaved_never_stuck [OF demo_live [of 0] run] run show ?thesis by simp
qed


subsection \<open>No report is lost\<close>

text \<open>The reports that the supervisor has taken from the queue and not handled yet.\<close>

fun in_hand :: "sup_at \<Rightarrow> fdir_failure_report list" where
  "in_hand (At_gate_of r k) = r # in_hand k"
| "in_hand (At_handle r k) = r # in_hand k"
| "in_hand _ = []"

text \<open>The calls of the tasks and the ground that neither switch supervision nor write health records by hand.\<close>

definition task_call :: "'e api_call \<Rightarrow> bool" where
  "task_call c \<longleftrightarrow>
     (case c of
        Heartbeat _ \<Rightarrow> True
      | Report_fault _ _ _ _ \<Rightarrow> True
      | Report_fault_ex _ _ _ _ _ \<Rightarrow> True
      | Entity_may_run _ \<Rightarrow> True
      | System_mode \<Rightarrow> True
      | Supervision_enabled \<Rightarrow> True
      | Set_system_mode _ \<Rightarrow> True
      | Deescalate \<Rightarrow> True
      | Enter_degraded \<Rightarrow> True
      | Enter_safe \<Rightarrow> True
      | Reassess \<Rightarrow> True
      | Try_reboot _ \<Rightarrow> True
      | Log_note _ \<Rightarrow> True
      | Log_overflow _ _ _ \<Rightarrow> True
      | _ \<Rightarrow> False)"

definition accounted :: "sup_at \<Rightarrow> 'e fdir \<Rightarrow> fdir_entity_id \<Rightarrow> bool" where
  "accounted p s i \<longleftrightarrow> (failed i (hl s) \<longrightarrow>
     (\<exists>reason. latched i reason (hl s)) \<or> (\<exists>r \<in> set (in_hand p @ pending (fq s)). rep_entity r = i))"

definition nothing_lost :: "sup_at \<Rightarrow> 'e fdir \<Rightarrow> bool" where
  "nothing_lost p s \<longleftrightarrow> g_supervision_enabled s \<noteq> 0 \<and> (\<forall>i. accounted p s i)"

text \<open>A step that leaves the health table and the reports alone.\<close>

lemma nothing_lost_frame:
  assumes "nothing_lost p s" "hl t = hl s" "g_supervision_enabled t = g_supervision_enabled s"
    "set (in_hand p @ pending (fq s)) \<subseteq> set (in_hand p' @ pending (fq t))"
  shows "nothing_lost p' t"
  using assms unfolding nothing_lost_def accounted_def by (metis subsetD)

definition calm :: "'e fdir \<Rightarrow> 'e fdir \<Rightarrow> bool" where
  "calm s t \<longleftrightarrow> hl t = hl s \<and> fq t = fq s \<and> g_supervision_enabled t = g_supervision_enabled s \<and>
     (\<forall>i. restarts i (calls t) = restarts i (calls s))"

lemma nothing_lost_calm: "nothing_lost p s \<Longrightarrow> calm s t \<Longrightarrow> nothing_lost p t"
  by (rule nothing_lost_frame) (auto simp: calm_def)

lemma calm_section:
  assumes "keeps m (engine_frame (fdir_port_sync_enter s))" "keeps m (sys_step (fdir_port_sync_enter s))"
  shows "keeps (Option.bind m (\<lambda>t. Some (fdir_port_sync_exit t))) (calm s)"
  by (rule keeps_bindI [OF keeps_conj [OF assms]]) (auto simp: calm_def engine_frame_def dest: sys_step_frame(4,5))

lemma set_mode_calm:
  assumes "mode_ok mode"
  shows "keeps (Option.bind (set_mode mode entity detail report (fdir_port_sync_enter s))
     (\<lambda>t. Some (x, fdir_port_sync_exit t))) (\<lambda>(_, t). calm s t)"
  by (rule keeps_bindI [OF keeps_conj [OF set_mode_eng set_mode_sys [OF assms]]])
    (auto simp: calm_def engine_frame_def dest: sys_step_frame(4,5))

lemma calm_calls:
  "keeps (fdir_enter_degraded_mode s) (calm s)" "keeps (fdir_enter_safe_mode s) (calm s)"
  "keeps (fdir_reassess_system_mode s) (calm s)" "keeps (fdir_try_reboot why s) (calm s)"
  "keeps (fdir_log_note note s) (calm s)" "keeps (fdir_log_queue_overflow q d h s) (calm s)"
  "keeps (fdir_set_system_mode mode s) (\<lambda>(_, t). calm s t)" "keeps (fdir_deescalate_system_mode s) (\<lambda>(_, t). calm s t)"
proof -
  have same: "calm s (fdir_port_sync_exit (fdir_port_sync_enter s))" by (simp add: calm_def)
  show "keeps (fdir_enter_degraded_mode s) (calm s)" "keeps (fdir_enter_safe_mode s) (calm s)"
    "keeps (fdir_reassess_system_mode s) (calm s)" "keeps (fdir_try_reboot why s) (calm s)"
    "keeps (fdir_log_note note s) (calm s)" "keeps (fdir_log_queue_overflow q d h s) (calm s)"
    unfolding fdir_enter_degraded_mode_def fdir_enter_safe_mode_def fdir_reassess_system_mode_def
      fdir_try_reboot_def fdir_log_note_def fdir_log_queue_overflow_def Let_def
    by (rule calm_section; ((intro eng_keeps; simp) | (rule keeps_rec_sys, intro rec_keeps; simp)))+
  show "keeps (fdir_set_system_mode mode s) (\<lambda>(_, t). calm s t)"
    by (auto simp: fdir_set_system_mode_def Let_def mode_ok_def not_less same intro!: set_mode_calm)
  show "keeps (fdir_deescalate_system_mode s) (\<lambda>(_, t). calm s t)"
    by (auto simp: deescalate_eq mode_ok_cases same intro!: set_mode_calm)
qed

lemma nothing_lost_heartbeat:
  assumes "live s" "nothing_lost p s" "fdir_health_heartbeat_notify eid s = Some t"
  shows "nothing_lost p t"
  using liveD(1) [OF assms(1)]
proof (cases rule: heartbeat_cases [of s eid])
  case unknown
  with assms(2,3) show ?thesis by (auto intro: nothing_lost_calm simp: calm_def)
next
  case known
  obtain now e where "fdir_get_now_ms (fdir_port_sync_enter s) = Some (now, ext (Call_now now) e (fdir_port_sync_enter s))"
    using get_now_returns [of "fdir_port_sync_enter s"] liveD(2,3) [of "fdir_port_sync_enter s"] assms(1) by (auto simp: returns_def)
  with known assms(3) have "failed i (hl t) = failed i (hl s)" "latched i reason (hl t) = latched i reason (hl s)"
    "fq t = fq s" "g_supervision_enabled t = g_supervision_enabled s" for i reason
    by (auto simp: failed_def latched_def tracked_def nth_list_update_if simp flip: word_unat_eq_iff)
  with assms(2) show ?thesis by (simp add: nothing_lost_def accounted_def)
qed

lemma nothing_lost_report:
  assumes "live s" "nothing_lost p s" "fdir_report_fault_ex eid reason code detail flags s = Some (st, t)"
  shows "nothing_lost p t"
proof -
  note eff = report_fault_effect [OF assms(1), of eid reason code detail flags, unfolded assms(3) returns_Some prod.case]
  have en: "g_supervision_enabled t = g_supervision_enabled s" using eff by (auto simp: outside_iff)
  consider "hl t = hl s" "set (pending (fq s)) \<subseteq> set (pending (fq t))"
    | r where "pending (fq t) = pending (fq s) @ [r]" "rep_entity r = eid" "others_same eid (hl s) (hl t)"
      "g_fault_latched (hl t) = g_fault_latched (hl s)"
    using eff by (auto simp: reports_def split: if_splits)
  then show ?thesis
  proof cases
    case 1
    then show ?thesis by (intro nothing_lost_frame [OF assms(2) _ en]) auto
  next
    case (2 r)
    have "accounted p t i" for i
    proof (cases "i = eid")
      case False
      note e = others_same_entry [OF 2(3) False]
      have lim: "g_entity_limit (hl t) = g_entity_limit (hl s)" using 2(3) by (simp add: others_same_def)
      from e lim have "failed i (hl t) = failed i (hl s)" "latched i x (hl t) = latched i x (hl s)" for x
        by (simp_all add: same_entry_def failed_def latched_def tracked_def)
      with assms(2) 2(1) show ?thesis by (auto simp: nothing_lost_def accounted_def)
    qed (use 2 in \<open>auto simp: accounted_def\<close>)
    with assms(2) en show ?thesis by (simp add: nothing_lost_def)
  qed
qed


lemma nothing_lost_task_call:
  assumes "live s" "nothing_lost p s" "task_call c" "exec c s = Some t"
  shows "nothing_lost p t"
proof -
  note calm = calm_calls [THEN keepsD]
  have sec: "calm s (fdir_port_sync_exit (fdir_port_sync_enter s))" by (simp add: calm_def)
  have hb: ?thesis if "c = Heartbeat eid" for eid
    using that assms(4) nothing_lost_heartbeat [OF assms(1,2)] by simp
  have rep: ?thesis if "c = Report_fault eid reason code detail \<or> c = Report_fault_ex eid reason code detail flags"
    for eid reason code detail flags
    using that assms(4) nothing_lost_report [OF assms(1,2)]
    by (auto simp: fdir_report_fault_def fdir_report_fault_ex_def)
  have "calm s t" if "\<not> (\<exists>eid. c = Heartbeat eid)" "\<not> (\<exists>eid reason code detail. c = Report_fault eid reason code detail)"
    "\<not> (\<exists>eid reason code detail flags. c = Report_fault_ex eid reason code detail flags)"
    using assms(3,4) that calm sec entity_may_run_eq [OF liveD(1) [OF assms(1)]]
    by (cases c) (auto simp: task_call_def system_mode_eq supervision_enabled_eq)
  with hb rep nothing_lost_calm [OF assms(2)] show ?thesis by blast
qed

lemma nothing_lost_handled:
  assumes "live s" "nothing_lost (At_handle r k) s" "handle_section r s = Some t"
  shows "nothing_lost k t"
proof -
  obtain u where "handle_section r s = Some u" "g_supervision_enabled u = g_supervision_enabled s" "api_step True s u"
    "g_entity_count u = g_entity_count s"
    by (rule handle_section_step [OF assms(1), of r]) blast
  with assms(3) have u: "g_supervision_enabled t = g_supervision_enabled s" "live t" "fq t = fq s"
    "g_entity_count t = g_entity_count s"
    using api_step_live [OF _ assms(1)] keepsD [OF handle_section_fq assms(3)] by auto
  have "accounted k t i" for i
  proof -
    have acc: "accounted (At_handle r k) s i" using assms(2) by (simp add: nothing_lost_def)
    from handle_section_health [OF assms(1,3)] show ?thesis
    proof (elim disjE conjE)
      assume h: "hl t = hl s" "registered (rep_entity r) s \<longrightarrow> latched (rep_entity r) (rep_reason r) (hl s)"
      have "failed i (hl s) \<Longrightarrow> registered i s"
        using registered_tracked [OF liveD(1) [OF assms(1)]] by (simp add: failed_def)
      with acc h u(3) show ?thesis by (auto simp: accounted_def)
    next
      assume same: "others_same (rep_entity r) (hl s) (hl t)"
      then have lim: "g_entity_limit (hl t) = g_entity_limit (hl s)" by (simp add: others_same_def)
      show "accounted k t i" if "stands_failed (rep_entity r) (rep_reason r) t"
        using that acc u(3) same lim others_same_entry [OF same, of i]
        by (cases "i = rep_entity r")
          (auto simp: accounted_def stands_failed_def same_entry_def failed_def latched_def tracked_def)
      show "accounted k t i" if "unlatched_ok (rep_entity r) t"
        using that acc u(3) same lim others_same_entry [OF same, of i]
        by (cases "i = rep_entity r")
          (auto simp: accounted_def unlatched_ok_def same_entry_def failed_def latched_def tracked_def)
    qed
  qed
  with assms(2) u(1) show ?thesis by (simp add: nothing_lost_def)
qed

lemma nothing_lost_section:
  assumes "live s" "nothing_lost p s" "sup_section p s = Some (p', t)"
  shows "nothing_lost p' t"
proof -
  have en: "g_supervision_enabled s \<noteq> 0" using assms(2) by (simp add: nothing_lost_def)
  note frame = nothing_lost_frame [OF assms(2)]
  show ?thesis
  proof (cases p)
    case (At_handle r k)
    with assms show ?thesis by (auto intro: nothing_lost_handled split: bind_splits)
  next
    case At_get
    note q = get_pending [OF liveD(4) [OF assms(1)], where out = zero_report] get_locked_popped [OF liveD(4) [OF assms(1)]]
    show ?thesis
      using At_get assms(3) q by (cases "pending (fq s)") (auto intro!: frame)
  next
    case At_clock
    obtain now e where "fdir_get_now_ms s = Some (now, ext (Call_now now) e s)"
      using get_now_returns [of s] liveD [OF assms(1)] by (auto simp: returns_def)
    with At_clock assms(3) show ?thesis by (auto intro!: frame)
  next
    case (At_scan eid now_ms max_age)
    with assms(3) show ?thesis by (auto intro!: frame simp: Let_def split: bind_splits option.splits)
  qed (use assms(3) en in \<open>auto intro!: frame simp: supervision_enabled_eq\<close>)
qed

lemma put_keeps_pending:
  assumes "queue_inv q" "fdir_failure_queue_put_unsafe (Some r) q = Some (rc, q')"
  shows "set (pending q) \<subseteq> set (pending q')"
proof (cases "unat (g_count q) < FDIR_FAILURE_QUEUE_CAP")
  case True
  obtain u where "fdir_failure_queue_put_unsafe (Some r) q = Some (0, u)" "pending u = pending q @ [r]"
    by (rule put_unsafe_room [OF assms(1) True]) blast
  with assms(2) show ?thesis by auto
next
  case False
  then have "unat (g_count q) = FDIR_FAILURE_QUEUE_CAP" using assms(1) by (simp add: queue_inv_def)
  with put_unsafe_full [OF assms(1) this] assms(2) show ?thesis by auto
qed

lemma nothing_lost_put:
  assumes "live s" "nothing_lost p s" "fdir_failure_queue_put (Some r) s = Some (rc, t)"
  shows "nothing_lost p t"
proof -
  note pend = put_keeps_pending [OF liveD(4) [OF assms(1)]]
  from assms(3) have "hl t = hl s" "g_supervision_enabled t = g_supervision_enabled s" "set (pending (fq s)) \<subseteq> set (pending (fq t))"
    by (auto simp: fdir_failure_queue_put_def Let_def split: bind_splits dest!: pend)
  with nothing_lost_frame [OF assms(2)] show ?thesis by auto
qed

interpretation lost: stable_assertion task_call nothing_lost
proof unfold_locales
  show "nothing_lost At_tick s" if "nothing_lost Idle s" for s :: "'a fdir"
    by (rule nothing_lost_frame [OF that]) simp_all
  show "nothing_lost p (s\<lparr>env := e\<rparr>)" if "nothing_lost p s" for p and s :: "'a fdir" and e
    by (rule nothing_lost_calm [OF that]) (simp add: calm_def)
qed (fact nothing_lost_section nothing_lost_task_call nothing_lost_put)+

text \<open>
  C23. No report is lost among the threads, in a run that starts from a live state with supervision on and
  nobody FAILED, if the calls of the tasks and the ground neither switch supervision, nor write health
  records by hand, nor change what is registered: a registered entity that stands FAILED has a fault latched,
  so that its failure has been handled, or a report about it waits in the queue or is in the supervisor's
  hands. This holds between any two critical sections, however those calls, reports put into the queue and
  the sections of the supervisor interleave.
\<close>

theorem no_report_lost:
  assumes "live s0" "g_supervision_enabled s0 \<noteq> 0" "\<forall>i. \<not> failed i (hl s0)"
    "interleaved task_call s0 p s" "failed i (hl s)"
  shows "(\<exists>reason. latched i reason (hl s)) \<or> (\<exists>r \<in> set (in_hand p @ pending (fq s)). rep_entity r = i)"
proof -
  have "nothing_lost Idle s0" using assms(2,3) by (simp add: nothing_lost_def accounted_def)
  from lost.between_sections [OF assms(4,1) this] assms(5) show ?thesis
    by (simp add: nothing_lost_def accounted_def)
qed


text \<open>A report that the supervisor has taken, with the entity FAILED and nothing latched.\<close>

theorem no_report_lost_witness:
  "\<exists>s. interleaved task_call demo Idle s \<and> failed 0 (hl s) \<and> (\<exists>r \<in> set (pending (fq s)). rep_entity r = 0)"
proof -
  have "map_option (\<lambda>s. (hs_health (g_health (hl s) ! 0), g_fault_latched (hl s) ! 0, g_entity_limit (hl s)))
      (exec (Report_fault 0 FDIR_REASON_IO_ERROR 7 None) demo) = Some (FDIR_HEALTH_FAILED, 0, 1)" by code_simp
  then obtain s where s: "exec (Report_fault 0 FDIR_REASON_IO_ERROR 7 None) demo = Some s"
    "failed 0 (hl s)" "\<And>reason. \<not> latched 0 reason (hl s)"
    by (auto simp: failed_def latched_def tracked_def)
  have run: "interleaved task_call demo Idle s"
    by (rule interleaved.thread [OF interleaved.start _ _ s(1)]) (simp_all add: task_call_def single_section_def)
  have "\<not> failed i (hl demo)" for i
    using demo_unlatched(2) [of 0] by (cases "i = 0") (auto simp: failed_def tracked_def demo_state_def fdir_boot_def word_less_nat_alt)
  with no_report_lost [OF demo_live [of 0] _ _ run s(2)] s(2,3) run show ?thesis by auto
qed



subsection \<open>Restart budgets among the threads\<close>

context slot_invariant
begin

lemma handle_section_slots:
  assumes "live s" "all_slots ok s"
  shows "keeps (handle_section r s) (all_slots ok)"
  using assms(1)
proof (cases rule: handle_section_cases [of s r])
  case (handled t u)
  have t: "all_slots ok t" "registered (rep_entity r) t = registered (rep_entity r) s"
    using assms(2) handled(2) by (simp_all add: all_slots_def registered_def outside_iff)
  have "all_slots ok u"
  proof (cases "registered (rep_entity r) s")
    case True
    with handled(4) have rec: "recover_entity r t = Some u" by simp
    have e: "g_entities u = g_entities t \<or> g_entities u = bumped (rep_entity r) (rep_reason r) t"
      using recover_entity_effect(2) [OF handled(3) _ rec] True t(2) by simp
    have reg: "registered i u = registered i t" for i
      using handled(6) by (simp add: rec_step_def sys_step_registered)
    have "ok (g_entities u ! unat (rep_entity r))"
      using recovered [OF handled(3) _ _ rec] t True by (simp add: all_slots_def)
    with e t(1) show ?thesis
      unfolding all_slots_def reg bumped_def by (metis nth_list_update_neq)
  next
    case False
    with handled(4) have "enter_degraded_mode_unsafe t = Some u" by simp
    from keepsD [OF modes_eng(1) this] t(1) show ?thesis
      by (auto simp: all_slots_ents dest!: engine_ents)
  qed
  with handled(7) show ?thesis by simp
qed (use assms in simp_all)

lemma sup_section_slots:
  assumes "live s" "all_slots ok s" "sup_section p s = Some (p', t)"
  shows "all_slots ok t"
proof (cases p)
  case (At_handle r k)
  with assms(3) keepsD [OF handle_section_slots [OF assms(1,2)]] show ?thesis by (auto split: bind_splits)
next
  case At_get
  with assms(2,3) show ?thesis
    by (auto simp: fdir_failure_queue_get_def Let_def split: bind_splits if_splits option.splits)
next
  case At_clock
  with assms(2,3) show ?thesis by (auto split: bind_splits dest!: keepsD [OF get_now_keeps])
next
  case (At_scan eid now_ms max_age)
  with assms(2,3) show ?thesis by (auto simp: Let_def split: bind_splits option.splits)
qed (use assms(2,3) in \<open>auto simp: supervision_enabled_eq\<close>)

lemma put_slots:
  assumes "all_slots ok s" "fdir_failure_queue_put (Some r) s = Some (rc, t)"
  shows "all_slots ok t"
  using assms by (auto simp: fdir_failure_queue_put_def Let_def split: bind_splits)

end

sublocale slot_invariant \<subseteq> slots: stable_assertion "\<lambda>_. True" "\<lambda>_. all_slots ok"
proof unfold_locales
  show "all_slots ok t" if "live s" "all_slots ok s" "exec c s = Some t" for c s t
    by (rule exec_slots [OF liveD(1) [OF that(1)] that(2,3)])
qed (auto intro: sup_section_slots put_slots)

text \<open>
  C27. The restart budgets hold among the threads as well: however the sections of the supervisor and the
  calls of the threads interleave, an entity that the library recovers on its own is restarted at most as
  often as its descriptor permits. The counter is read and written in one section, so that no restart is
  counted twice or not at all.
\<close>

theorem interleaved_budget_respected:
  assumes "fdir_reachable s0" "live s0" "interleaved (\<lambda>_. True) s0 p s" "registered i s"
    "ed_decide (es_desc (g_entities s ! unat i)) = None"
    "ed_linked_subsystem (es_desc (g_entities s ! unat i)) = FDIR_SUBSYSTEM_NONE"
  shows "(ed_max_restarts (es_desc (g_entities s ! unat i)) = FDIR_RESTART_UNLIMITED \<or>
      es_restart_count (g_entities s ! unat i) \<le> ed_max_restarts (es_desc (g_entities s ! unat i))) \<and>
     (ed_max_watchdog_restarts (es_desc (g_entities s ! unat i)) = FDIR_RESTART_UNLIMITED \<or>
      es_watchdog_restart_count (g_entities s ! unat i) \<le> ed_max_watchdog_restarts (es_desc (g_entities s ! unat i)))"
  using budget.slots.between_sections [OF assms(3,2) budget.reachable_slots [OF assms(1)]] assms(4-6)
  by (auto simp: all_slots_def within_budget_def Let_def)

text \<open>The application that has used up its budget, with a tick going on.\<close>

theorem interleaved_budget_respected_witness:
  "\<exists>s :: nat fdir. interleaved (\<lambda>_. True) s At_tick s \<and> es_restart_count (g_entities s ! 0) = 1 \<and>
     es_restart_count (g_entities s ! 0) \<le> ed_max_restarts (es_desc (g_entities s ! 0))"
proof -
  have "map_option (\<lambda>s. let slot = g_entities s ! 0; d = es_desc slot in
      (g_entity_count s, es_restart_count slot, ed_max_restarts d, ed_linked_subsystem d, Option.is_none (ed_decide d), g_port_ready s))
      (run spent_calls (fdir_boot 100)) = Some (1, 1, 1, 255, True, True)" by code_simp
  then obtain s where s: "run spent_calls (fdir_boot 100) = Some s" "g_entity_count s = 1"
    "es_restart_count (g_entities s ! 0) = 1" "ed_max_restarts (es_desc (g_entities s ! 0)) = 1"
    "ed_linked_subsystem (es_desc (g_entities s ! 0)) = 255" "ed_decide (es_desc (g_entities s ! 0)) = None" "g_port_ready s"
    by (auto simp: Let_def Option.is_none_def)
  have reach: "fdir_reachable s" by (rule run_reachable [OF fdir_reachable.boot s(1)])
  then have live: "live s" using lib.reach_inv [OF reach] s(7) by (simp add: live_def)
  have tick: "interleaved (\<lambda>_. True) s At_tick s" by (rule interleaved.tick [OF interleaved.start])
  have "es_restart_count (g_entities s ! 0) \<le> ed_max_restarts (es_desc (g_entities s ! 0))"
    using interleaved_budget_respected [OF reach live tick, of 0] s by (auto simp: registered_def)
  with tick s(3) show ?thesis by blast
qed


subsection \<open>The history of a run\<close>

text \<open>Steps of a run, put together for evaluation.\<close>

primrec sections :: "nat \<Rightarrow> sup_at \<Rightarrow> 'e fdir \<Rightarrow> (sup_at \<times> 'e fdir) option" where
  "sections 0 p s = Some (p, s)"
| "sections (Suc n) p s = Option.bind (sup_section p s) (\<lambda>(p', t). sections n p' t)"

lemma interleaved_sections:
  "interleaved allowed s0 p s \<Longrightarrow> sections n p s = Some (p', t) \<Longrightarrow> interleaved allowed s0 p' t"
  by (induction n arbitrary: p s) (auto split: bind_splits intro: interleaved.supervisor)

text \<open>
  C25. The history of the whole system is as orderly as the history of a single call, for any interleaving
  of the critical sections, including those of the ground commands: with a port whose lock and unlock hooks
  are both there, the lock is taken only when it is free, released only when it is held, and free between
  any two sections; every event is well formed and carries the mode in force when it was emitted, so that a
  ground station that replays the MODE_CHANGE events in the order of emission knows the mode; and the
  restart counters of every registered entity count the calls of its restart hook.
\<close>

theorem interleaved_history:
  assumes "live s0" "interleaved allowed s0 p s" "lock_paired s0" "registered i s0"
  shows "\<exists>cs. calls s = calls s0 @ cs \<and> lock_run False cs = Some False \<and>
     events_ok (g_mode s0) cs \<and> replay (g_mode s0) cs = g_mode s \<and>
     slot_counted (g_entities s0 ! unat i) (g_entities s ! unat i) (restarts i cs)"
  using interleaved_api [OF assms(2,1)] assms(3,4) unfolding api_step_def lib_step_def by blast

text \<open>The supervisor has read the gate and the queue of its tick when the ground enters SAFE mode.\<close>

theorem interleaved_history_witness:
  "\<exists>p s cs. interleaved (\<lambda>c. c = Enter_safe) demo p s \<and> p \<noteq> Idle \<and> calls s = calls demo @ cs \<and>
     lock_run False cs = Some False \<and> replay FDIR_MODE_NOMINAL cs = FDIR_MODE_SAFE"
proof -
  have "map_option (\<lambda>(p, s). (p = Idle, map_option g_mode (exec Enter_safe s))) (sections 2 At_tick demo) =
      Some (False, Some FDIR_MODE_SAFE)" by code_simp
  then obtain p s t where s: "sections 2 At_tick demo = Some (p, s)" "p \<noteq> Idle" "exec Enter_safe s = Some t"
    "g_mode t = FDIR_MODE_SAFE" by auto
  let ?I = "interleaved (\<lambda>c. c = Enter_safe) demo"
  have "?I p s" by (rule interleaved_sections [OF interleaved.tick [OF interleaved.start] s(1)])
  then have run: "?I p t" by (rule interleaved.thread [OF _ _ _ s(3)]) (simp_all add: single_section_def)
  have demo: "g_mode demo = FDIR_MODE_NOMINAL" "registered 0 demo"
    by (simp_all add: demo_state_def fdir_boot_def registered_def)
  from interleaved_history [OF demo_live run demo_paired demo(2)] obtain cs where
    "calls t = calls demo @ cs" "lock_run False cs = Some False" "replay FDIR_MODE_NOMINAL cs = FDIR_MODE_SAFE"
    by (auto simp: s(4) demo(1))
  with run s(2) show ?thesis by blast
qed


subsection \<open>Two races\<close>

text \<open>
  A tick up to the reading of the clock; one millisecond later the entity gives its heartbeat; then the
  rest of the tick. The states before and after the heartbeat and after the tick.
\<close>

definition heartbeat_during_tick :: "nat fdir \<Rightarrow> (sup_at \<times> nat fdir \<times> nat fdir \<times> nat fdir) option" where
  "heartbeat_during_tick s =
     do {
       (p, s) \<leftarrow> sections 4 At_tick s;
       let s = s\<lparr>env := env s + 1\<rparr>;
       t \<leftarrow> exec (Heartbeat 0) s;
       (_, u) \<leftarrow> sections 4 p t;
       Some (p, s, t, u)
     }"

text \<open>
  C28. The watchdog can restart an entity that has just given its heartbeat. The tick of this run has read
  the clock, 100, and is about to take the lock for its scan; the clock has moved on to 101. The entity
  gives its heartbeat: the record carries the time 101, so that the heartbeat is not older than any
  permitted age by the clock as it stands, and there has been no restart yet. But by the reading that the
  tick holds, the entity is overdue, since the unsigned age of a heartbeat that is later than the reading
  wraps around. The rest of the tick, during which the clock stands still, restarts the entity for a
  watchdog timeout.
\<close>

theorem watchdog_races_heartbeat:
  "\<exists>s t u. interleaved (\<lambda>c. c = Heartbeat 0) demo (At_scan 0 100 1500) s \<and> exec (Heartbeat 0) s = Some t \<and>
     env t = 101 \<and> hs_last_heartbeat_ms (g_health (hl t) ! 0) = 101 \<and> restarts 0 (calls t) = 0 \<and>
     (\<forall>age. \<not> overdue 0 101 age t) \<and> overdue 0 100 1500 t \<and>
     sections 4 (At_scan 0 100 1500) t = Some (Idle, u) \<and> env u = 101 \<and>
     watchdogs (since t u) = [0] \<and> restarts 0 (since t u) = 1 \<and> es_watchdog_restart_count (g_entities u ! 0) = 1"
proof -
  have "map_option (\<lambda>(p, s, t, u). (p, env t, hs_last_heartbeat_ms (g_health (hl t) ! 0), restarts 0 (calls t),
      overdue 0 100 1500 t)) (heartbeat_during_tick demo) = Some (At_scan 0 100 1500, 101, 101, 0, True)"
    "map_option (\<lambda>(p, s, t, u). (map_option fst (sections 4 p t), env u, watchdogs (since t u), restarts 0 (since t u),
      es_watchdog_restart_count (g_entities u ! 0))) (heartbeat_during_tick demo) = Some (Some Idle, 101, [0], 1, 1)"
    by code_simp+
  then obtain s t u where run: "heartbeat_during_tick demo = Some (At_scan 0 100 1500, s, t, u)"
    and t: "env t = 101" "hs_last_heartbeat_ms (g_health (hl t) ! 0) = 101" "restarts 0 (calls t) = 0" "overdue 0 100 1500 t"
    and u: "env u = 101" "watchdogs (since t u) = [0]" "restarts 0 (since t u) = 1"
      "es_watchdog_restart_count (g_entities u ! 0) = 1"
    and p: "map_option fst (sections 4 (At_scan 0 100 1500) t) = Some Idle"
    by auto
  obtain v where v: "sections 4 At_tick demo = Some (At_scan 0 100 1500, v)" "s = v\<lparr>env := env v + 1\<rparr>"
    "exec (Heartbeat 0) s = Some t" "sections 4 (At_scan 0 100 1500) t = Some (Idle, u)"
    using run p by (auto simp: heartbeat_during_tick_def Let_def simp del: exec.simps sections.simps split: bind_splits)
  let ?I = "interleaved (\<lambda>c. c = Heartbeat 0) demo"
  have "?I (At_scan 0 100 1500) v" by (rule interleaved_sections [OF interleaved.tick [OF interleaved.start] v(1)])
  then have "?I (At_scan 0 100 1500) s" unfolding v(2) by (rule interleaved.environment)
  moreover have "\<not> overdue 0 101 age t" for age using t(2) by (simp add: overdue_def)
  ultimately show ?thesis using v(3,4) t u by blast
qed


text \<open>A report is taken from the queue and has passed the gate when the ground switches supervision off.\<close>

definition disable_during_tick :: "nat fdir \<Rightarrow> (sup_at \<times> nat fdir \<times> nat fdir \<times> nat fdir) option" where
  "disable_during_tick s =
     do {
       s \<leftarrow> exec (Report_fault 0 FDIR_REASON_IO_ERROR 7 None) s;
       (p, s) \<leftarrow> sections 3 At_tick s;
       t \<leftarrow> exec (Set_supervision 0) s;
       (_, u) \<leftarrow> sections 1 p t;
       Some (p, s, t, u)
     }"

text \<open>
  C29. Switching supervision off does not stop a recovery that has passed the gate:
  \<open>fdir_set_supervision_enabled\<close> has returned, supervision is off and the queue is empty, and the
  next section of the supervisor still restarts the entity. \<open>fdir_handle_failure\<close> reads the gate in one section
  and acts in another.
\<close>

theorem restart_after_disable:
  "\<exists>p s t u. interleaved task_call demo p s \<and> exec (Set_supervision 0) s = Some t \<and>
     g_supervision_enabled t = 0 \<and> restarts 0 (calls t) = 0 \<and> sections 1 p t = Some (At_get, u) \<and> restarts 0 (calls u) = 1"
proof -
  have "map_option (\<lambda>(p, s, t, u). (g_supervision_enabled t, restarts 0 (calls t), restarts 0 (calls u)))
      (disable_during_tick demo) = Some (0, 0, 1)"
    "map_option (\<lambda>(p, s, t, u). map_option fst (sections 1 p t)) (disable_during_tick demo) = Some (Some At_get)"
    by code_simp+
  then obtain p s t u where d: "disable_during_tick demo = Some (p, s, t, u)" "g_supervision_enabled t = 0"
    "restarts 0 (calls t) = 0" "restarts 0 (calls u) = 1" "map_option fst (sections 1 p t) = Some At_get"
    by auto
  obtain r where r: "exec (Report_fault 0 FDIR_REASON_IO_ERROR 7 None) demo = Some r" "sections 3 At_tick r = Some (p, s)"
    "exec (Set_supervision 0) s = Some t" "sections 1 p t = Some (At_get, u)"
    using d(1,5) by (auto simp: disable_during_tick_def simp del: exec.simps sections.simps split: bind_splits)
  have "interleaved task_call demo Idle r"
    by (rule interleaved.thread [OF interleaved.start _ _ r(1)]) (simp_all add: task_call_def single_section_def)
  from interleaved_sections [OF interleaved.tick [OF this] r(2)] r(3,4) d(2-4) show ?thesis by blast
qed

end
