(* ===== verification/Lost_Fault.thy ===== *)
theory Lost_Fault
  imports Interleaving
begin

text \<open>
  How a fault gets lost at the supervision gate: the report is thrown away, but the entity stays FAILED,
  and no call that does not concern the entity by hand recovers it any more.
\<close>

text \<open>
  An entity that stands FAILED with no report about it in the queue; its latch, and how often it has been
  restarted so far.
\<close>

definition forgotten :: "fdir_entity_id \<Rightarrow> u8 \<Rightarrow> nat \<Rightarrow> 'e fdir \<Rightarrow> bool" where
  "forgotten e l n s \<longleftrightarrow> failed e (hl s) \<and> g_fault_latched (hl s) ! unat e = l \<and> restarts e (calls s) = n \<and>
     (\<forall>r \<in> set (pending (fq s)). rep_entity r \<noteq> e)"

text \<open>
  The calls that can help it: a new start of the library, a report about it that is submitted or handled
  without regard to its health, and its health record written by hand.
\<close>

definition may_help :: "fdir_entity_id \<Rightarrow> 'e api_call \<Rightarrow> bool" where
  "may_help e c \<longleftrightarrow>
     (case c of
        Init _ _ \<Rightarrow> True
      | Submit_failure (Some r) \<Rightarrow> rep_entity r = e
      | Handle_failure (Some r) \<Rightarrow> rep_entity r = e
      | Health_set i _ _ _ \<Rightarrow> i = e
      | Health_reset i \<Rightarrow> i = e
      | _ \<Rightarrow> False)"

lemma forgotten_other:
  assumes "forgotten e l n s" "others_same i (hl s) (hl t)" "i \<noteq> e"
    "\<And>r. r \<in> set (pending (fq t)) \<Longrightarrow> r \<in> set (pending (fq s)) \<or> rep_entity r \<noteq> e"
    "restarts e (calls t) = restarts e (calls s)"
  shows "forgotten e l n t"
  using assms others_same_entry [OF assms(2), of e]
  by (auto simp: forgotten_def same_entry_def others_same_def failed_def tracked_def)

lemma forgotten_same:
  assumes "forgotten e l n s" "hl t = hl s"
    "\<And>r. r \<in> set (pending (fq t)) \<Longrightarrow> r \<in> set (pending (fq s)) \<or> rep_entity r \<noteq> e"
    "restarts e (calls t) = restarts e (calls s)"
  shows "forgotten e l n t"
  using assms by (auto simp: forgotten_def)

lemma forgotten_calm: "forgotten e l n s \<Longrightarrow> calm s t \<Longrightarrow> forgotten e l n t"
  by (erule forgotten_same) (auto simp: calm_def)

lemma forgotten_sync [simp]:
  "forgotten e l n (fdir_port_sync_enter s) = forgotten e l n s"
  "forgotten e l n (fdir_port_sync_exit s) = forgotten e l n s"
  by (simp_all add: forgotten_def)

lemma live_now:
  assumes "live s" "fdir_get_now_ms s = Some (now, t)"
  obtains e where "t = ext (Call_now now) e s"
  using keepsD [OF get_now_keeps assms(2)] by auto


subsection \<open>Handling somebody else's failure\<close>

lemma forgotten_handle:
  assumes "live s" "forgotten e l n s" "rep_entity r \<noteq> e" "fdir_handle_failure (Some r) s = Some t"
  shows "forgotten e l n t"
  using assms(1)
proof (cases rule: handle_failure_cases [of s r])
  case (handled u v tm ev)
  have fq: "fq t = fq s" by (rule keepsD [OF handle_failure_fq assms(4)])
  have u: "hl u = hl s" "restarts e (calls u) = restarts e (calls s)"
    using handled(3,5) by (simp_all add: outside_iff handling_def)
  show ?thesis
  proof (cases "registered (rep_entity r) s")
    case True
    then have rec: "registered (rep_entity r) u" "recover_entity r u = Some v"
      using handled(3,7) by (simp_all add: registered_def outside_iff)
    note eff = recover_entity_effect(1,5) [OF handled(4) rec]
    have "others_same (rep_entity r) (hl s) (hl t)" "restarts e (calls t) = restarts e (calls s)"
      using eff(1) eff(2) [of e] assms(3,4) handled(9) u by auto
    from forgotten_other [OF assms(2) this(1) assms(3) _ this(2)] fq show ?thesis by simp
  next
    case False
    with handled(7) have "enter_degraded_mode_unsafe u = Some v" by simp
    from keepsD [OF modes_eng(1) this] u handled(9) assms(4)
    have "hl t = hl s" "restarts e (calls t) = restarts e (calls s)" by (simp_all add: engine_frame_def)
    from forgotten_same [OF assms(2) this(1) _ this(2)] fq show ?thesis by simp
  qed
qed (use assms in \<open>auto simp: handling_def\<close>)

text \<open>Handling the report of another entity, as the loops use it.\<close>

lemma forgotten_handle_live:
  assumes "live s" "forgotten e l n s" "rep_entity r \<noteq> e"
  shows "keeps (fdir_handle_failure (Some r) s) (\<lambda>t. live t \<and> forgotten e l n t \<and> fq t = fq s)"
  unfolding keeps_def
  using api_step_live [OF _ assms(1)] keepsD [OF handle_failure_keeps [OF liveD(1) [OF assms(1)]]] forgotten_handle [OF assms]
  by blast

lemma forgotten_scan:
  "live s \<Longrightarrow> forgotten e l n s \<Longrightarrow> keeps (watchdog_loop eid now age s) (forgotten e l n)"
proof (induction "256 - unat eid" arbitrary: eid s rule: less_induct)
  case less
  have inv: "fdir_inv s" using less.prems(1) by (rule liveD)
  consider "\<not> registered eid s" | "registered eid s" "\<not> overdue eid now age s"
    | "registered eid s" "overdue eid now age s" by blast
  then show ?case
  proof cases
    case 3
    obtain r where r: "watchdog_report eid now = Some r" "rep_entity r = eid"
      using watchdog_report_eq by (metis fdir_failure_report.select_convs(1))
    have x: "live (fdir_port_sync_exit s)" "forgotten e l n (fdir_port_sync_exit s)" "rep_entity r \<noteq> e"
      using 3(2) less.prems r(2) by (auto simp: overdue_def forgotten_def)
    show ?thesis
      unfolding watchdog_loop_handle [OF inv 3 r(1)]
      by (rule keeps_bindI [OF forgotten_handle_live [OF x]]) (auto intro!: less.hyps [OF registered_next [OF 3(1)]])
  qed (simp_all add: watchdog_loop_done watchdog_loop_skip [OF inv] less.hyps [OF registered_next] less.prems)
qed

lemma forgotten_check:
  assumes "live s" "forgotten e l n s"
  shows "keeps (fdir_check_watchdogs s) (forgotten e l n)"
  unfolding fdir_check_watchdogs_def supervision_enabled_eq
proof (rule keeps_bindI [OF get_now_keeps], clarify)
  fix now x
  have "live (ext (Call_now now) x s)" "forgotten e l n (ext (Call_now now) x s)"
    using assms by (simp_all add: forgotten_def)
  then show "keeps (let max_age = fdir_heartbeat_max_age_ms (ext (Call_now now) x s);
           (enabled, s) = (g_supervision_enabled (ext (Call_now now) x s),
                fdir_port_sync_exit (fdir_port_sync_enter (ext (Call_now now) x s)))
       in if enabled = 0 then Some s
          else let s = fdir_port_sync_enter s
               in Option.bind (watchdog_loop 0 now max_age s) (\<lambda>s. Some (fdir_port_sync_exit s))) (forgotten e l n)"
    by (auto simp: Let_def keeps_if intro!: keeps_bindI [OF forgotten_scan])
qed

lemma forgotten_drain: "live s \<Longrightarrow> forgotten e l n s \<Longrightarrow> keeps (drain_queue r s) (forgotten e l n)"
proof (induction "pending (fq s)" arbitrary: r s)
  case Nil
  then show ?case by (simp add: drain_queue_empty forgotten_def)
next
  case (Cons x xs)
  obtain q where q: "queue_inv q" "pending q = xs"
    and eq: "drain_queue r s =
       Option.bind (fdir_handle_failure (Some x) (fdir_port_sync_exit ((fdir_port_sync_enter s)\<lparr>fq := q\<rparr>)))
         (drain_queue x)"
    using drain_queue_next [OF liveD(4) [OF Cons.prems(1)] Cons.hyps(2) [symmetric], of r] by blast
  have x: "live (fdir_port_sync_exit ((fdir_port_sync_enter s)\<lparr>fq := q\<rparr>))"
    "forgotten e l n (fdir_port_sync_exit ((fdir_port_sync_enter s)\<lparr>fq := q\<rparr>))" "rep_entity x \<noteq> e"
    using api_step_live [OF api_step_fq [OF q(1)] Cons.prems(1)] Cons.prems(2) q(2) Cons.hyps(2) [symmetric]
    by (auto simp: forgotten_def)
  show ?case
    unfolding eq by (rule keeps_bindI [OF forgotten_handle_live [OF x]]) (use q in \<open>auto intro!: Cons.hyps(1)\<close>)
qed

lemma forgotten_tick:
  assumes "live s" "forgotten e l n s"
  shows "keeps (fdir_supervisor_tick s) (forgotten e l n)"
proof -
  let ?x = "fdir_port_sync_exit (fdir_port_sync_enter s)"
  have x: "live ?x" "forgotten e l n ?x" using assms by simp_all
  have "keeps (Option.bind (drain_queue zero_report ?x) fdir_check_watchdogs) (forgotten e l n)"
    by (rule keeps_bindI [OF keeps_conj [OF drain_queue_keeps [OF liveD(1) [OF x(1)]] forgotten_drain [OF x]]])
      (auto intro!: forgotten_check intro: api_step_live [OF _ x(1)])
  with assms show ?thesis by (simp add: fdir_supervisor_tick_def supervision_enabled_eq)
qed


subsection \<open>The calls that cannot help\<close>

lemma forgotten_heartbeat:
  assumes "live s" "forgotten e l n s" "fdir_health_heartbeat_notify i s = Some t"
  shows "forgotten e l n t"
  using liveD(1) [OF assms(1)]
proof (cases rule: heartbeat_cases [of s i])
  case known
  obtain now x where "fdir_get_now_ms (fdir_port_sync_enter s) = Some (now, ext (Call_now now) x (fdir_port_sync_enter s))"
    using get_now_returns [of "fdir_port_sync_enter s"] liveD(2,3) [of "fdir_port_sync_enter s"] assms(1) by (auto simp: returns_def)
  with known assms(2,3) tracked_index [OF liveD(5) [OF assms(1)], of e] show ?thesis
    by (auto simp: forgotten_def failed_def tracked_def nth_list_update_if simp flip: word_unat_eq_iff)
qed (use assms in simp)

lemma forgotten_report:
  assumes "live s" "forgotten e l n s" "fdir_report_fault_ex i reason code detail flags s = Some (st, t)"
  shows "forgotten e l n t"
proof -
  have n: "restarts e (calls t) = restarts e (calls s)"
    using assms(3) by (auto simp: fdir_report_fault_ex_def report_fault_eq [OF liveD(1) [OF assms(1)]]
        split: if_splits bind_splits dest!: keepsD [OF get_now_keeps])
  note eff = report_fault_effect [OF assms(1), of i reason code detail flags, unfolded assms(3) returns_Some prod.case]
  show ?thesis
  proof (cases "suppressed i reason s \<or> length (pending (fq s)) \<ge> FDIR_FAILURE_QUEUE_CAP")
    case True
    with eff have "hl t = hl s" "pending (fq t) = pending (fq s)" by (auto split: if_splits)
    from forgotten_same [OF assms(2) this(1) _ n] this(2) show ?thesis by simp
  next
    case False
    then have "i \<noteq> e" using assms(2) by (auto simp: suppressed_def forgotten_def)
    obtain r where "pending (fq t) = pending (fq s) @ [r]" "rep_entity r = i" "others_same i (hl s) (hl t)"
      using eff False by (auto simp: reports_def simp del: length_pending split: if_splits)
    with forgotten_other [OF assms(2) _ \<open>i \<noteq> e\<close> _ n] \<open>i \<noteq> e\<close> show ?thesis by auto
  qed
qed

lemma put_pending:
  assumes "queue_inv q" "fdir_failure_queue_put_unsafe (Some r) q = Some (rc, q')"
  shows "set (pending q') \<subseteq> insert r (set (pending q))"
proof (cases "unat (g_count q) < FDIR_FAILURE_QUEUE_CAP")
  case True
  obtain u where "fdir_failure_queue_put_unsafe (Some r) q = Some (0, u)" "pending u = pending q @ [r]"
    by (rule put_unsafe_room [OF assms(1) True]) blast
  with assms(2) show ?thesis by auto
next
  case False
  then have "unat (g_count q) = FDIR_FAILURE_QUEUE_CAP" using assms(1) by (simp add: queue_inv_def)
  with put_unsafe_full [OF assms(1) this] assms(2) show ?thesis by auto
qed

lemma forgotten_put:
  assumes "live s" "forgotten e l n s" "rep_entity r \<noteq> e" "fdir_failure_queue_put (Some r) s = Some (rc, t)"
  shows "forgotten e l n t"
proof -
  obtain x q where q: "fdir_failure_queue_put_unsafe (Some r) (fq s) = Some (x, q)"
    "t = fdir_port_sync_exit ((fdir_port_sync_enter s)\<lparr>fq := q\<rparr>)"
    using assms(4) by (auto simp: fdir_failure_queue_put_def Let_def split: bind_splits)
  from put_pending [OF liveD(4) [OF assms(1)] q(1)] q(2) assms(2,3) show ?thesis
    by (auto simp: forgotten_def)
qed

lemma forgotten_submit:
  assumes "live s" "forgotten e l n s" "rep_entity r \<noteq> e"
  shows "keeps (fdir_submit_failure (Some r) s) (\<lambda>(_, t). forgotten e l n t)"
proof -
  let ?x = "fdir_port_sync_exit (fdir_port_sync_enter s)"
  have put: "keeps (fdir_failure_queue_put (Some r) ?x) (\<lambda>(_, t). forgotten e l n t)"
    using forgotten_put [of ?x e l n r] assms by (simp add: keeps_def split_beta)
  have "keeps (Option.bind (fdir_failure_queue_put (Some r) ?x) (\<lambda>(rc, s).
      if rc \<noteq> 0 then (if critical_flag r then Some (FDIR_ERR_BUSY, s) else Some (FDIR_ERR_STATE, s))
      else Some (FDIR_OK, s))) (\<lambda>(_, t). forgotten e l n t)"
    by (rule keeps_bindI [OF put]) (auto simp: keeps_if)
  with assms(2) show ?thesis by (simp add: fdir_submit_failure_def supervision_enabled_eq keeps_if)
qed

lemma forgotten_reset:
  assumes "forgotten e l n s" "i \<noteq> e"
  shows "keeps (fdir_health_reset_unsafe i s) (forgotten e l n)"
proof -
  have "forgotten e l n (u\<lparr>hl := (hl s)\<lparr>g_health := (g_health (hl s))[unat i := a]\<rparr>\<rparr>)"
    if "u = ext (Call_now now) x s" for u now x a
    by (rule forgotten_other [OF assms(1), of i]) (use that assms(2) in \<open>simp_all add: others_same_update\<close>)
  with assms(1) show ?thesis
    by (auto simp: keeps_def fdir_health_reset_unsafe_def arr_set_def split: if_splits bind_splits
        dest!: keepsD [OF get_now_keeps])
qed

lemma forgotten_set:
  assumes "live s" "forgotten e l n s" "i \<noteq> e"
  shows "keeps (fdir_health_set i health code detail s) (forgotten e l n)"
proof -
  have "forgotten e l n ((fdir_port_sync_enter s)\<lparr>hl := (hl s)\<lparr>g_health := (g_health (hl s))[unat i := a]\<rparr>\<rparr>)" for a
    by (rule forgotten_other [OF assms(2), of i]) (use assms(3) in \<open>simp_all add: others_same_update\<close>)
  with liveD(5) [OF assms(1)] show ?thesis
    unfolding health_set_section
    by (cases rule: set_unsafe_cases [of "hl s" i health code detail]) (use assms(2) in \<open>simp_all add: enter_hl_same\<close>)
qed

lemma forgotten_register:
  assumes "live s" "registered e s" "forgotten e l n s"
  shows "keeps (fdir_entity_register d out s) (\<lambda>(_, t). forgotten e l n t)"
  using liveD(1) [OF assms(1)]
proof (cases rule: entity_register_cases [of s d out])
  case (ok d nm)
  let ?c = "g_entity_count s"
  let ?s = "entity_added (new_entity_slot d nm (g_entities s ! unat ?c)) (fdir_port_sync_enter s)"
  have "e < ?c + 1" using assms(2) ok(2) count_inc [of ?c] by (simp add: registered_def word_less_nat_alt)
  with assms(3) have "forgotten e l n ?s"
    by (simp add: forgotten_def failed_def tracked_def entity_added_def fdir_health_set_entity_limit_def)
  moreover have "?c \<noteq> e" using assms(2) by (auto simp: registered_def)
  ultimately show ?thesis
    unfolding ok(7) by (intro keeps_bindI [OF forgotten_reset]) simp_all
qed (use assms(3) in simp_all)

lemma forgotten_set_supervision:
  assumes "forgotten e l n s"
  shows "keeps (fdir_set_supervision_enabled b s) (\<lambda>(_, t). forgotten e l n t)"
proof -
  have "pending (fdir_failure_queue_init q) = []" for q by (simp add: pending_Nil_iff fdir_failure_queue_init_def)
  with assms show ?thesis
    by (auto simp: keeps_def forgotten_def fdir_set_supervision_enabled_def Let_def full_event_def
        split: bind_splits if_splits dest!: keepsD [OF emit_event_full_keeps])
qed

lemma forgotten_marks:
  assumes "forgotten e l n s"
  shows "keeps (fdir_subsystem_mark_available sid s) (forgotten e l n)"
    "keeps (fdir_subsystem_mark_unavailable sid s) (forgotten e l n)"
    "keeps (fdir_subsystem_mark_degraded sid s) (forgotten e l n)"
    "keeps (fdir_subsystem_on_entity_exhausted sid eid r s) (\<lambda>(_, t). forgotten e l n t)"
    "keeps (fdir_subsystem_register d out s) (\<lambda>(_, t). forgotten e l n t)"
  using assms
  by (auto simp: keeps_def forgotten_def fdir_subsystem_mark_available_def fdir_subsystem_mark_unavailable_def
      fdir_subsystem_mark_degraded_def fdir_subsystem_register_def fdir_subsystem_on_entity_exhausted_def Let_def sub_event_def
      split: bind_splits if_splits option.splits prod.splits dest!: keepsD [OF emit_subsystem_state_keeps])

lemma forgotten_gate:
  assumes "live s" "forgotten e l n s"
  shows "keeps (fdir_worker_may_run i s) (\<lambda>(_, t). forgotten e l n t)"
proof -
  let ?x = "fdir_port_sync_exit (fdir_port_sync_enter s)"
  have x: "live ?x" "forgotten e l n ?x" using assms by simp_all
  have "keeps (fdir_health_heartbeat_notify i ?x) (forgotten e l n)"
    "keeps (fdir_entity_may_run i ?x) (\<lambda>(_, t). forgotten e l n t)"
    using forgotten_heartbeat [OF x] entity_may_run_eq [OF liveD(1) [OF x(1)]] assms(2) by (auto simp: keeps_def)
  then show ?thesis
    by (auto simp: fdir_worker_may_run_def system_mode_eq keeps_def split: bind_splits)
qed

lemma forgotten_queries:
  assumes "forgotten e l n s"
  shows "keeps (fdir_health_fault_is_latched i reason s) (\<lambda>(_, t). forgotten e l n t)"
    "keeps (fdir_health_snapshot_copy i out s) (\<lambda>(_, t). forgotten e l n t)"
  using assms
  by (auto simp: keeps_def fdir_health_snapshot_copy_def fdir_health_fault_is_latched_def Let_def
      split: bind_splits if_splits option.splits)

lemma forgotten_call:
  assumes "live s" "registered e s" "forgotten e l n s" "\<not> may_help e c"
  shows "keeps (exec c s) (forgotten e l n)"
proof -
  note inv = liveD(1) [OF assms(1)] and x = assms(1,3)
  have calm: "keeps m (forgotten e l n)" if "keeps m (calm s)" for m
    using that forgotten_calm [OF assms(3)] by (auto elim: keeps_mono)
  have calm2: "keeps m (\<lambda>(_, t). forgotten e l n t)" if "keeps m (\<lambda>(_, t). calm s t)" for m :: "('b \<times> 'a fdir) option"
    using that forgotten_calm [OF assms(3)] by (auto elim: keeps_mono)
  have hb: "keeps (fdir_health_heartbeat_notify i s) (forgotten e l n)" for i
    using forgotten_heartbeat [OF x] by (simp add: keeps_def)
  have rep: "keeps (fdir_report_fault_ex i reason code detail flags s) (\<lambda>(_, t). forgotten e l n t)" for i reason code detail flags
    using forgotten_report [OF x] by (auto simp: keeps_def)
  have reset: "keeps (fdir_health_reset i s) (forgotten e l n)" if "i \<noteq> e" for i
    unfolding health_reset_section by (rule keeps_bindI [OF forgotten_reset]) (use assms(3) that in simp_all)
  have hand: "keeps (fdir_handle_failure (Some r) s) (forgotten e l n)" if "rep_entity r \<noteq> e" for r
    using forgotten_handle [OF x that] by (simp add: keeps_def)
  have none: "keeps (fdir_handle_failure None s) (forgotten e l n)" "keeps (fdir_submit_failure None s) (\<lambda>(_, t). forgotten e l n t)"
    using assms(3) by (simp_all add: fdir_handle_failure_def fdir_submit_failure_def)
  note facts = none calm_calls(1-6) [THEN calm] calm_calls(7,8) [THEN calm2] hb rep reset hand forgotten_submit [OF x]
    forgotten_set [OF x] forgotten_register [OF assms(1-3)] forgotten_set_supervision [OF assms(3)]
    forgotten_marks [OF assms(3)] forgotten_queries [OF assms(3)] forgotten_gate [OF x] forgotten_tick [OF x]
    forgotten_check [OF x]
  show ?thesis
    using assms(3,4)
    by (cases c)
      (auto simp: may_help_def facts keeps_map_snd keeps_map_const system_mode_eq supervision_enabled_eq
        entity_may_run_eq [OF inv] fdir_failure_queue_full_latched_def
        fdir_report_fault_def rep [unfolded fdir_report_fault_ex_def] Let_def split: option.splits)
qed


subsection \<open>A lost fault\<close>

text \<open>
  The states that the application gets to from \<open>s\<close> if it makes no call that may help the entity, with its
  environment changing as it likes.
\<close>

inductive unaided :: "fdir_entity_id \<Rightarrow> 'e fdir \<Rightarrow> 'e fdir \<Rightarrow> bool" for e s0 where
  start: "unaided e s0 s0"
| call: "unaided e s0 s \<Longrightarrow> \<not> may_help e c \<Longrightarrow> exec c s = Some t \<Longrightarrow> unaided e s0 t"
| environment: "unaided e s0 s \<Longrightarrow> unaided e s0 (s\<lparr>env := x\<rparr>)"

lemma unaided_forgotten:
  "unaided e s0 s \<Longrightarrow> live s0 \<Longrightarrow> registered e s0 \<Longrightarrow> forgotten e l n s0 \<Longrightarrow>
   live s \<and> registered e s \<and> forgotten e l n s"
proof (induction rule: unaided.induct)
  case (call s c t)
  from call.IH [OF call.prems] have s: "live s" "registered e s" "forgotten e l n s" by blast+
  have "\<not> is_init c" using call.hyps(2) by (auto simp: is_init_def may_help_def)
  from keepsD [OF exec_keeps [OF liveD(1) [OF s(1)] this] call.hyps(3)]
  have step: "api_step (\<not> ground c) s t" .
  from api_step_live [OF step s(1)] api_step_registered [OF step s(2)]
    keepsD [OF forgotten_call [OF s call.hyps(2)] call.hyps(3)]
  show ?case by blast
next
  case (environment s x)
  from environment.IH [OF environment.prems] have s: "live s" "registered e s" "forgotten e l n s" by blast+
  from api_step_live [OF api_step_env [OF s(1)] s(1)] s(2,3) show ?case by (simp add: forgotten_def registered_def)
qed simp

text \<open>A fault is reported, and supervision is switched off and on again before the next tick.\<close>

definition report_then_switch ::
  "fdir_entity_id \<Rightarrow> fdir_reason \<Rightarrow> u16 \<Rightarrow> string option \<Rightarrow> 'e fdir \<Rightarrow> (fdir_bool \<times> 'e fdir) option" where
  "report_then_switch e reason code detail s =
     do {
       (_, s) \<leftarrow> fdir_report_fault e reason code detail s;
       (_, s) \<leftarrow> fdir_set_supervision_enabled 0 s;
       fdir_set_supervision_enabled 1 s
     }"

lemma report_then_switch_live:
  assumes "live s"
  shows "keeps (report_then_switch e reason code detail s) (\<lambda>(_, t). live t)"
proof -
  have rep: "keeps (fdir_report_fault e reason code detail s) (\<lambda>(_, t). live t)"
    using report_fault_keeps [OF liveD(1) [OF assms]] api_step_live [OF _ assms]
    by (fastforce simp: keeps_def fdir_report_fault_def)
  have gate: "keeps (fdir_set_supervision_enabled b t) (\<lambda>(_, u). live u)" if "live t" for b and t :: "'a fdir"
    using set_supervision_keeps [OF liveD(1) [OF that]] api_step_live [OF _ that] by (fastforce simp: keeps_def)
  show ?thesis
    unfolding report_then_switch_def
    by (rule keeps_bindI [OF rep], clarify, rule keeps_bindI [OF gate], assumption, clarify, rule gate)
qed

text \<open>
  C18. A fault can get lost at the supervision gate. If supervision is switched off and on again
  between the report of a fault and the next tick, the report is thrown away, but the entity stays FAILED.
  From then on, as long as the application neither starts the library anew, nor hands in a report about the
  entity by \<open>fdir_submit_failure\<close> or \<open>fdir_handle_failure\<close>, nor writes its health record by hand, the
  entity stays FAILED for ever, its latch is as it was before the fault, and it is never restarted: not by
  any later \<open>fdir_report_fault\<close> about it, not by its heartbeats, not by the ticks and watchdog scans at any
  time, and not by switching supervision again.
\<close>

theorem disabled_fault_is_lost:
  assumes "live s" "registered e s" "\<not> suppressed e reason s" "length (pending (fq s)) < FDIR_FAILURE_QUEUE_CAP"
  shows "returns
     (report_then_switch e reason code detail s)
     (\<lambda>(_, u). g_supervision_enabled u = 1 \<and> pending (fq u) = [] \<and>
        (\<forall>v. unaided e u v \<longrightarrow> failed e (hl v) \<and>
           g_fault_latched (hl v) ! unat e = g_fault_latched (hl s) ! unat e \<and>
           restarts e (calls v) = restarts e (calls s)))"
proof -
  have on: "g_supervision_enabled s \<noteq> 0" using assms(3) by (simp add: suppressed_def)
  obtain status t where t: "fdir_report_fault e reason code detail s = Some (status, t)"
    "outside (s\<lparr>fq := fq t, hl := hl t\<rparr>) t" "failed e (hl t)" "g_fault_latched (hl t) = g_fault_latched (hl s)"
    using report_fault_effect [OF assms(1), of e reason code detail 1] assms(2-4)
    by (auto simp: returns_def fdir_report_fault_def fdir_report_fault_ex_def)
  have tn: "restarts e (calls t) = restarts e (calls s)"
    using t(1) by (auto simp: fdir_report_fault_def report_fault_eq [OF liveD(1) [OF assms(1)]]
        split: if_splits bind_splits dest!: keepsD [OF get_now_keeps])
  have "live t"
    using api_step_live assms(1) keepsD [OF report_fault_keeps [OF liveD(1) [OF assms(1)]]] t(1)
    unfolding fdir_report_fault_def by fast
  then obtain p u where u: "fdir_set_supervision_enabled 0 t = Some (p, u)"
    "outside (t\<lparr>g_supervision_enabled := 0, fq := fq u\<rparr>) u" "pending (fq u) = []"
    using supervision_gate_effect [of t 0] on t(2) by (auto simp: returns_def outside_iff)
  have "live u" using api_step_live \<open>live t\<close> keepsD [OF set_supervision_keeps [OF liveD(1) [OF \<open>live t\<close>]] u(1)] by fast
  then obtain p' v where v: "fdir_set_supervision_enabled 1 u = Some (p', v)"
    "outside (u\<lparr>g_supervision_enabled := 1, fq := fq v\<rparr>) v" "fq v = fq u"
    using supervision_gate_effect [of u 1] u(2) by (auto simp: returns_def outside_iff)
  have "live v" using api_step_live \<open>live u\<close> keepsD [OF set_supervision_keeps [OF liveD(1) [OF \<open>live u\<close>]] v(1)] by fast
  have quiet: "restarts e (calls y) = restarts e (calls x)"
    if "fdir_set_supervision_enabled b x = Some (q, y)" for b q and x y :: "'a fdir"
    using that by (auto simp: fdir_set_supervision_enabled_def Let_def full_event_def
        split: bind_splits if_splits dest!: keepsD [OF emit_event_full_keeps])
  with t u v tn have "forgotten e (g_fault_latched (hl s) ! unat e) (restarts e (calls s)) v" "registered e v"
    using assms(2) by (simp_all add: forgotten_def outside_iff registered_def)
  from unaided_forgotten [OF _ \<open>live v\<close> this(2,1)] t(1) u v show ?thesis
    by (auto simp: forgotten_def outside_iff report_then_switch_def)
qed

text \<open>
  The application reports a fault, the ground switches supervision off and on, and 20 seconds later there
  is a second report and a tick: the entity stands FAILED and has not been restarted.
\<close>

theorem disabled_fault_is_lost_witness:
  "\<exists>p s u v. report_then_switch 0 FDIR_REASON_IO_ERROR 7 None demo = Some (p, s) \<and>
     exec (Report_fault 0 FDIR_REASON_USER 1 None) (s\<lparr>env := 20000\<rparr>) = Some u \<and>
     exec Supervisor_tick u = Some v \<and> failed 0 (hl v) \<and> restarts 0 (calls v) = 0"
proof -
  have room: "length (pending (fq demo)) < 8" using demo_fresh(1) [of 0] by (simp del: length_pending)
  obtain p s where s: "report_then_switch 0 FDIR_REASON_IO_ERROR 7 None demo = Some (p, s)"
    and lost: "\<And>v. unaided 0 s v \<Longrightarrow> failed 0 (hl v) \<and> restarts 0 (calls v) = restarts 0 (calls demo)"
    using disabled_fault_is_lost [OF demo_live [of 0] demo_registered demo_fresh(2) room, of FDIR_REASON_IO_ERROR 7 None]
    unfolding returns_def by blast
  have "live (s\<lparr>env := 20000\<rparr>)"
    using keepsD [OF report_then_switch_live [OF demo_live] s] by (simp add: live_env)
  then obtain u where u: "exec (Report_fault 0 FDIR_REASON_USER 1 None) (s\<lparr>env := 20000\<rparr>) = Some u" "live u"
    using single_section_step [of _ "Report_fault 0 FDIR_REASON_USER 1 None"] api_step_live
    by (fastforce simp: single_section_def returns_def simp del: exec.simps)
  obtain v where v: "exec Supervisor_tick u = Some v"
    using exec_returns [OF u(2)] by (metis returnsE)
  have "unaided 0 s u"
    by (rule unaided.call [OF unaided.environment [OF unaided.start] _ u(1)]) (simp add: may_help_def)
  then have "unaided 0 s v" by (rule unaided.call [OF _ _ v]) (simp add: may_help_def)
  moreover have "restarts 0 (calls demo) = 0" by (simp add: demo_state_def fdir_boot_def restarts_def)
  ultimately show ?thesis using s u v lost [of v] by metis
qed

end
