(* ===== verification/Spec2Isabelle.thy ===== *)
theory Spec2Isabelle
  imports Watchdog Entity_Frame Dual_Path Getting_Started FreeRTOS_Demo Fcopy_Promises Fcopy_Deadlock Lost_Fault
begin

text \<open>
  A verification of \<open>fdir\<close>, a fault detection, isolation and recovery library in C11, and of its example
  applications. The library watches entities (tasks, drivers, links). Code that sees a fault reports it;
  the report waits in a bounded queue; a supervisor task drains the queue, decides for each report
  whether the entity is restarted, its subsystem is taken out of service or the system mode is raised,
  and scans the heartbeats of the entities that said nothing. Entities, subsystems and the system each
  have a state: health and a latched fault, availability, and a mode (NOMINAL, DEGRADED, SAFE,
  REBOOT_PENDING).

  \<^bold>\<open>How the code is modelled.\<close> The file-scope variables of all C files are one record \<open>fdir\<close> (theory
  \<open>Fdir_State\<close>), with the application's memory as the field \<open>env\<close> and a history \<open>calls\<close> of the calls
  through function pointers, which no modelled code reads. Every C function is a function on this
  state. A function that can stop the program (\<open>abort\<close>, an access outside an array, a call through a
  null pointer) has an option type, and \<open>None\<close> is that stop; the theorems say where it does not happen.
  Integers are machine words of their width, enumerations are datatypes with a constructor for the
  values outside the enumerators, character arrays are lists of their length. Callbacks (port hooks,
  restart and decision hooks, the mode handler, subsystem policies) are arbitrary functions on \<open>env\<close>,
  stored in the state as the C code stores the pointers. Loops are recursive functions with
  termination proofs (measures: the ids not yet scanned, the reports that wait); the loops of the file
  copy over system calls are partial functions into an option type, and that they return is part of the
  theorem. No fuel is used.

  \<^bold>\<open>The library\<close> (\<open>src/include\<close>, \<open>src/src\<close>).
  \<^item> \<open>Fdir_Types\<close>: \<open>types.h\<close>, \<open>port.h\<close>, \<open>subsystem.h\<close>, \<open>recovery.h\<close>, \<open>status.c\<close>, \<open>config.c\<close>.
    \<open>Port\<close>: \<open>port.c\<close>, \<open>internal.c\<close>. \<open>Failure_Queue\<close>: \<open>failure_queue.c\<close>. \<open>Health\<close>: \<open>health.c\<close>.
    \<open>Subsystem\<close>: \<open>subsystem.c\<close>. \<open>Events\<close>, \<open>Recovery\<close>: the recovery engine of \<open>recovery.c\<close>.
    \<open>Supervisor\<close>: its API, the watchdog scan and the tick. \<open>Report\<close>: \<open>report.c\<close>, \<open>worker.c\<close>.
  \<^item> \<open>Contracts\<close>, \<open>Recovery_Contract\<close>, \<open>Api_Contract\<close>, \<open>Api_Safety\<close>, \<open>Api_Calls\<close>, \<open>Loops\<close>: the invariant and
    the step relations that every function keeps (\<open>sys_step\<close>, \<open>rec_step\<close>, \<open>cs_step\<close>, \<open>api_step\<close>, each an
    interpretation of the interface \<open>two_state\<close>), and that every call returns. \<open>Fdir_System\<close> puts the
    calls together: \<open>exec\<close> is the API, \<open>fdir_reachable\<close> are the states that any sequence of calls and any
    behaviour of the application leads to.
  \<^item> \<open>Recovery_Effects\<close>, \<open>Handling\<close>, \<open>Watchdog\<close>, \<open>Commands\<close>, \<open>Reporting\<close>, \<open>Entity_Frame\<close>: what the
    operations do. \<open>Demo\<close> has a small application for the witnesses.
  \<^item> \<open>Sections\<close>, \<open>Interleaving\<close>: concurrency. The tick of the supervisor is cut into its critical sections
    (\<open>sup_section\<close>), which one after another are the tick; \<open>interleaved\<close> are the states that the sections
    and the calls of other threads lead to in any order, with at most one supervisor, as
    \<open>docs/threading.md\<close> demands. \<open>Lost_Fault\<close>: what becomes of an entity whose report is thrown away by
    the supervision gate, over all later calls.

  \<^bold>\<open>The example applications\<close> (\<open>src/examples\<close>).
  \<^item> \<open>Client\<close>: what a program on top of the library may rely on. \<open>Dual_Path\<close> and \<open>Getting_Started\<close> are
    the two sequential examples, with the operating system's clock as a parameter. \<open>FreeRTOS_Demo\<close>: the
    three tasks of the FreeRTOS example under every interleaving, the kernel being a parameter.
  \<^item> The file copy example, its parts: \<open>Job_Queue\<close> (the monitor with its ring buffer), \<open>File_Copy\<close> (the
    walker and the workers around it, with wait sets, signals and spurious wakeups), \<open>Copy_File\<close> (copying
    one file, over the POSIX calls as parameters with the laws \<open>posix_laws\<close>), \<open>Fcopy_Setup\<close> (the command
    line and the callback of the tree walk).
  \<^item> The file copy example as a program: \<open>Fcopy_Program\<close> is \<open>main\<close>, the workers and the supervisor thread
    on the library, a step relation \<open>fcopy_step\<close> with a step for each call that the threads share, over a
    platform \<open>host\<close>. \<open>Fcopy_Steps\<close> and \<open>Fcopy_Start\<close> carry its invariant through every step and through the
    start; \<open>Fcopy_Solo\<close> builds concrete runs, \<open>Fcopy_Deadlock\<close> one into a deadlock, evaluated with variables for
    the paths and the job queue; \<open>Fcopy_Promises\<close> states what the program does. \<open>Hooks\<close> and \<open>Escalation\<close> are the laws of the library that this needs: what all callbacks keep, the library keeps,
    and without critical subsystems and severe actions the mode stays below SAFE.

  \<^bold>\<open>Interfaces.\<close> \<open>two_state\<close> (\<open>Contracts\<close>): relations kept by sequencing. \<open>bounded_fifo\<close> (\<open>Bounded_Fifo\<close>): what
    a bounded queue promises, with its client lemmas; implemented by the failure queue (\<open>ring\<close>) and the
    job queue (\<open>jobs\<close>). \<open>inductive_invariant\<close> (\<open>Fdir_Prelude\<close>): invariants of transition systems; the
    library (\<open>lib\<close>), the copying threads (\<open>fcopy\<close>), the FreeRTOS demo (\<open>demo_sys\<close>). \<open>slot_invariant\<close>
    (\<open>Entity_Frame\<close>): predicates on entities that registration and recovery keep; the restart budgets
    (\<open>budget\<close>). \<open>port_invariant\<close> and its extension \<open>supervised\<close> (\<open>Supervised\<close>): predicates on the state kept
    by the sections, the clock and the tables, and by the handling of a report, so by every call of a
    worker or a supervisor; the mode without severe actions (\<open>mild\<close>), invariants of the application
    that its callbacks keep (\<open>hooked\<close>, \<open>ported\<close>) and the callbacks themselves (\<open>hooks_of\<close>, \<open>hooks_keep\<close>).
    \<open>stable_assertion\<close> (\<open>Interleaving\<close>): assertions kept by the sections of the supervisor and the calls of
    the threads, which then hold between any two sections; no lost report (\<open>lost\<close>), and every
    \<open>slot_invariant\<close> by a \<open>sublocale\<close>. \<open>task_invariant\<close> (\<open>FreeRTOS_Demo\<close>): predicates kept by the calls of
    the tasks.

  \<^bold>\<open>What is shown.\<close> Of the library as a whole: every call returns, the invariant holds, the lock is
  used properly, events carry the mode, only ground commands lower the mode, restart counters count.
  Among threads: nobody gets stuck, the history of the lock, the events and the restarts stays in order,
  no report is lost as long as supervision stays on and nobody writes health records by hand, budgets hold,
  and two races exist, between the watchdog and a heartbeat and between a recovery and the supervision gate.
  A report that the supervision gate throws away is lost for good, unless the entity is helped by hand.
  Of its parts: the queue is a bounded FIFO; staleness is right across the wrap of the clock; marks and
  names are read back; every branch of reporting, handling, recovery actions, restart attempts, mode
  commands, registration and initialisation; a tick handles the waiting reports in order; the watchdog
  scan raises one event for each overdue entity, restarts it or leaves it FAILED, and leaves the others
  alone; budgets are respected. Of the examples: they make only
  calls that return, end in the modes they announce or, in one case, provably do not; no job of the
  file copy is lost or copied twice, and no wakeup is lost. Of the file copy program as a whole: it
  refines the threads around its queue, a run that ends without a failed copy has copied every file
  once, the number of failed copies is bounded by the restart budgets, it never reaches SAFE mode, and it
  returns 1 only if it gives up during the set-up, so that it can end with success while files are left; and it can deadlock, the supervisor waiting under the
  lock for a worker that needs the lock.

  \<^bold>\<open>Not modelled.\<close> The line \<open>fcopy: done\<close> on \<open>stdout\<close>; the FreeRTOS kernel, and the settings of its
  configuration header that only the kernel reads; preemption of a call of the FreeRTOS demo, whose port
  has no lock; the unit tests, which are not part of the program. In \<open>Fdir_System\<close> and in the
  examples a call of the library is atomic with respect to other calls; only \<open>Interleaving\<close> lets other
  calls in between the sections of one. Reads without the lock (the count of entities, the subsystem
  queries) are taken as atomic. A run
  of the file copy program is followed up to a \<open>pthread_join\<close> in its restart callback that would wait
  while the library is locked, or that joins a thread a second time, which is undefined; copying one
  file is one step of it, and \<open>main\<close> up to the tree walk is one piece. What \<open>nftw\<close> will hand to the
  callback is fixed as a list when the walk begins, while in the program the walk goes on beside the
  copies; the theorems hold for every list, so that the list stands for whatever the walk comes upon.
  The products of seconds and 1000 in the clocks of the examples are computed without the bound of the
  platform's \<open>long\<close>.
\<close>

subsection \<open>A started application\<close>

definition demo_calls :: "nat api_call list" where
  "demo_calls =
     [Init (Some (fdir_config_default\<lparr>safe_mode_critical_failure_threshold := 1\<rparr>)) (Some demo_port),
      Subsystem_register (Some (zero_subsystem_desc\<lparr>sd_is_critical_path := 1\<rparr>)) (Some 0),
      Entity_register (Some (demo_desc 0)) (Some 0)]"

definition demo_started :: "nat fdir" where
  "demo_started = the (run demo_calls (fdir_boot 100))"

lemma demo_started_reachable: "fdir_reachable demo_started"
proof -
  have "\<not> Option.is_none (run demo_calls (fdir_boot 100))" by code_simp
  then have "run demo_calls (fdir_boot 100) = Some demo_started"
    by (auto simp: demo_started_def Option.is_none_def)
  then show ?thesis by (rule run_reachable [OF fdir_reachable.boot])
qed

lemma demo_started_facts:
  "g_port_ready demo_started" "g_mode demo_started = FDIR_MODE_NOMINAL" "g_entity_count demo_started = 1"
  by code_simp+

lemma demo_started_live: "live demo_started"
  using lib.reach_inv [OF demo_started_reachable] demo_started_facts(1) by (simp add: live_def)

lemma demo_started_paired: "lock_paired demo_started"
proof -
  have "\<not> Option.is_none (lock (g_port demo_started))" "\<not> Option.is_none (unlock (g_port demo_started))"
    by code_simp+
  then show ?thesis by (auto simp: lock_paired_def Option.is_none_def)
qed

lemma demo_started_returns:
  obtains s' where "exec c demo_started = Some s'"
  using exec_returns [OF demo_started_live] by (metis returnsE)


subsection \<open>Properties of the whole library\<close>

text \<open>
  C2. The invariant of the library holds in every reachable state: whatever API calls an application
  makes, in any order and with any arguments, and whatever its callbacks do, a bound port has its
  three required hooks, the ring buffer's indices are consistent, every stored detail is a string inside
  its buffer, the buffers of the names have their length, the tables never exceed their capacity, the health table tracks exactly
  the registered entities, no registered entity has RESTART as its exhaustion action, and the mode is
  one of the four modes.
\<close>

theorem reachable_invariant:
  assumes "fdir_reachable s"
  shows "fdir_inv s"
  using assms by (rule lib.reach_inv)

theorem reachable_invariant_witness: "fdir_reachable demo_started \<and> fdir_inv demo_started"
  using demo_started_reachable reachable_invariant [OF demo_started_reachable] by simp

text \<open>
  C1. In every reachable state with a bound port, every API call returns, for all arguments and all
  callbacks: it does not abort, does not read or write outside an array, does not call a null
  function pointer, and its loops end.
\<close>

theorem api_call_returns:
  assumes "fdir_reachable s" "g_port_ready s"
  shows "\<exists>s'. exec c s = Some s' \<and> fdir_reachable s'"
proof -
  have "live s" using assms lib.reach_inv by (simp add: live_def)
  then obtain s' where "exec c s = Some s'" using exec_returns by (metis returnsE)
  then show ?thesis using assms(1) fdir_next.call fdir_reachable.step by blast
qed

theorem api_call_returns_witness:
  "fdir_reachable demo_started \<and> g_port_ready demo_started \<and>
   (\<exists>s'. exec Supervisor_tick demo_started = Some s' \<and> fdir_reachable s')"
  using demo_started_reachable demo_started_facts api_call_returns [of demo_started Supervisor_tick] by simp

lemma exec_step:
  assumes "fdir_reachable s" "exec c s = Some s'" "\<not> is_init c"
  shows "api_step (\<not> ground c) s s'"
  using keepsD [OF exec_keeps [OF lib.reach_inv [OF assms(1)] assms(3)] assms(2)] .

lemma init_calls: "calls (snd (fdir_init config port s)) = calls s"
  by (cases "port_is_valid port"; cases port) (auto simp: init_ok init_bad port_is_valid_def)

text \<open>
  C3. The lock is used properly by every API call: with a port whose lock and unlock hooks are both
  present or both absent, a call never takes the lock while it holds it (so a lock that is not
  re-entrant cannot deadlock), never releases it unless it holds it, and has released it when it
  returns, on every path.
\<close>

theorem lock_discipline:
  assumes "fdir_reachable s" "lock_paired s" "exec c s = Some s'"
  shows "\<exists>cs. calls s' = calls s @ cs \<and> lock_run False cs = Some False"
proof (cases "is_init c")
  case True
  then obtain config port where "c = Init config port" by (auto simp: is_init_def)
  with assms(3) init_calls [of config port s] show ?thesis by auto
next
  case False
  from exec_step [OF assms(1,3) False] assms(2) show ?thesis
    by (auto simp: api_step_def lib_step_def)
qed

theorem lock_discipline_witness:
  "fdir_reachable demo_started \<and> lock_paired demo_started \<and>
   (\<exists>s' cs. exec Enter_safe demo_started = Some s' \<and> calls s' = calls demo_started @ cs \<and>
      lock_run False cs = Some False)"
proof -
  obtain s' where s': "exec Enter_safe demo_started = Some s'" by (rule demo_started_returns)
  from lock_discipline [OF demo_started_reachable demo_started_paired s'] show ?thesis
    using demo_started_reachable demo_started_paired s' by blast
qed


text \<open>
  C11. The telemetry is a faithful account of the mode: the events that any call other than
  \<open>fdir_init\<close> emits are well formed, each carries the mode in force when it was emitted, a
  MODE_CHANGE event is emitted exactly when the mode changes, and replaying the events of a call from
  the mode before it gives the mode after it.
\<close>

theorem telemetry_tracks_mode:
  assumes "fdir_reachable s" "exec c s = Some s'" "\<not> is_init c"
  shows "\<exists>cs. calls s' = calls s @ cs \<and> events_ok (g_mode s) cs \<and> replay (g_mode s) cs = g_mode s'"
  using exec_step [OF assms] by (auto simp: api_step_def lib_step_def)

theorem telemetry_tracks_mode_witness:
  "\<exists>s' cs. exec Enter_safe demo_started = Some s' \<and> calls s' = calls demo_started @ cs \<and>
     events_ok FDIR_MODE_NOMINAL cs \<and> replay FDIR_MODE_NOMINAL cs = FDIR_MODE_SAFE"
proof -
  have run: "map_option g_mode (exec Enter_safe demo_started) = Some FDIR_MODE_SAFE"
    by code_simp
  then obtain s' where s': "exec Enter_safe demo_started = Some s'" "g_mode s' = FDIR_MODE_SAFE" by blast
  with telemetry_tracks_mode [OF demo_started_reachable s'(1)] demo_started_facts show ?thesis
    by (auto simp: is_init_def)
qed

text \<open>
  C9. Recovery only escalates: apart from \<open>fdir_init\<close> and the two ground commands
  \<open>fdir_set_system_mode\<close> and \<open>fdir_deescalate_system_mode\<close>, no call lowers the system mode, whatever
  faults are reported and whatever the application's hooks answer.
\<close>

theorem only_ground_lowers_mode:
  assumes "fdir_reachable s" "exec c s = Some s'" "\<not> is_init c" "\<not> ground c"
  shows "g_mode s \<le> g_mode s'"
proof -
  have "lib_step L (\<not> ground c) s s' \<Longrightarrow> ?thesis" for L
    using assms(4) fdir_invD(6) [OF lib.reach_inv [OF assms(1)]] by (simp add: lib_step_def)
  with exec_step [OF assms(1-3)] show ?thesis unfolding api_step_def by blast
qed

theorem only_ground_lowers_mode_witness:
  "\<exists>s'. exec Enter_safe demo_started = Some s' \<and> g_mode demo_started \<le> g_mode s'"
proof -
  obtain s' where s': "exec Enter_safe demo_started = Some s'" by (rule demo_started_returns)
  from only_ground_lowers_mode [OF demo_started_reachable s'] s' show ?thesis
    by (auto simp: is_init_def ground_def)
qed

text \<open>
  C14. The restart counters are exact: over any call, the two counters of a registered entity together
  grow by exactly the number of times its restart hook was called, unless one of them has saturated
  at 255; neither counter ever goes down, and the entity's descriptor does not change.
\<close>

theorem restart_counters_exact:
  assumes "fdir_reachable s" "exec c s = Some s'" "\<not> is_init c" "registered i s"
  shows "\<exists>cs. calls s' = calls s @ cs \<and>
     slot_counted (g_entities s ! unat i) (g_entities s' ! unat i) (restarts i cs) \<and>
     es_desc (g_entities s' ! unat i) = es_desc (g_entities s ! unat i)"
  using exec_step [OF assms(1-3)] assms(4) unfolding api_step_def lib_step_def by blast

theorem restart_counters_exact_witness:
  "\<exists>s' cs. exec (Handle_failure (Some demo_report)) demo_started = Some s' \<and>
     calls s' = calls demo_started @ cs \<and> restarts 0 cs = 1 \<and>
     slot_counted (g_entities demo_started ! 0) (g_entities s' ! 0) (restarts 0 cs)"
proof -
  have reg: "registered 0 demo_started" by (simp add: registered_def demo_started_facts)
  have "map_option (\<lambda>s'. restarts 0 (drop (length (calls demo_started)) (calls s')))
      (exec (Handle_failure (Some demo_report)) demo_started) = Some 1" by code_simp
  then obtain s' where s': "exec (Handle_failure (Some demo_report)) demo_started = Some s'"
    "restarts 0 (drop (length (calls demo_started)) (calls s')) = 1" by blast
  from restart_counters_exact [OF demo_started_reachable s'(1) _ reg] s' show ?thesis
    by (auto simp: is_init_def)
qed

end
